(* ===== verification/Prelude.thy ===== *)
theory Prelude
  imports Main "HOL-Library.Word"
begin

text \<open>
  What every component shares: the names of the machine types, the byte order of the wire
  formats (\<^verbatim>\<open>to_le_bytes\<close> / \<^verbatim>\<open>from_le_bytes\<close>), the view of a Rust \<^verbatim>\<open>String\<close> as its
  sequence of UTF-8 bytes, and the collections of facts that carry the component proofs.

  A Rust \<^verbatim>\<open>String\<close> is modelled as the HOL type \<open>string\<close>: a \<open>char\<close> of HOL is one byte,
  so a string is exactly the byte sequence Rust stores and \<open>length\<close> is Rust's \<^verbatim>\<open>len()\<close>.
  What Rust calls \<^verbatim>\<open>chars()\<close> is the decoding in theory Utf8. Bytes on the wire
  (\<^verbatim>\<open>Vec<u8>\<close>) are lists of 8-bit words.
\<close>

unbundle bit_operations_syntax

section \<open>Machine types\<close>

type_synonym u8 = "8 word"
type_synonym u16 = "16 word"
type_synonym u32 = "32 word"
type_synonym u64 = "64 word"
type_synonym bytes = "u8 list"

section \<open>Collections of facts\<close>

named_theorems wire \<open>equations that unfold the wire formats\<close>
named_theorems step_defs \<open>definitions of the handlers a step is composed of\<close>

section \<open>Little-endian byte order\<close>

fun le_bytes :: "nat \<Rightarrow> 'a::len word \<Rightarrow> bytes" where
  "le_bytes 0 w = []"
| "le_bytes (Suc n) w = ucast w # le_bytes n (drop_bit 8 w)"

fun from_le :: "bytes \<Rightarrow> 'a::len word" where
  "from_le [] = 0"
| "from_le (b # bs) = (ucast b OR push_bit 8 (from_le bs))"

lemma length_le_bytes [simp]: "length (le_bytes n w) = n"
  by (induction n arbitrary: w) auto

lemma from_le_bytes_take_bit: "from_le (le_bytes n w) = take_bit (8 * n) (w :: 'a::len word)"
proof (induction n arbitrary: w)
  case 0
  then show ?case by simp
next
  case (Suc n)
  show ?case
    by (rule bit_word_eqI) (auto simp: Suc bit_simps)
qed

lemma from_le_bytes_u32 [simp]: "from_le (le_bytes 4 w) = (w :: u32)"
  by (simp add: from_le_bytes_take_bit take_bit_word_eq_self)

lemma from_le_bytes_u64 [simp]: "from_le (le_bytes 8 w) = (w :: u64)"
  by (simp add: from_le_bytes_take_bit take_bit_word_eq_self)

lemma le_bytes_inject_u32: "le_bytes 4 v = le_bytes 4 w \<longleftrightarrow> v = (w :: u32)"
  by (metis from_le_bytes_u32)

lemma le_bytes_inject_u64: "le_bytes 8 v = le_bytes 8 w \<longleftrightarrow> v = (w :: u64)"
  by (metis from_le_bytes_u64)

lemma le_bytes_4: "le_bytes 4 w =
    [ucast w, ucast (drop_bit 8 w), ucast (drop_bit 16 w), ucast (drop_bit 24 w)]"
  by (simp add: numeral_eq_Suc drop_bit_drop_bit)

section \<open>Strings as byte sequences\<close>

definition byte_of_char :: "char \<Rightarrow> u8" where
  "byte_of_char c = word_of_nat (of_char c)"

definition char_of_byte :: "u8 \<Rightarrow> char" where
  "char_of_byte b = char_of (unat b)"

definition as_bytes :: "string \<Rightarrow> bytes" where
  "as_bytes s = map byte_of_char s"

definition str_of_bytes :: "bytes \<Rightarrow> string" where
  "str_of_bytes bs = map char_of_byte bs"

lemma unat_byte_of_char [simp]: "unat (byte_of_char c) = of_char c"
  by (simp add: byte_of_char_def unat_of_nat)

lemma char_of_byte_of_char [simp]: "char_of_byte (byte_of_char c) = c"
  by (simp add: char_of_byte_def)

lemma byte_of_char_of_byte [simp]: "byte_of_char (char_of_byte b) = b"
proof -
  have "unat b < 256" using unsigned_less [of b] by simp
  then show ?thesis by (simp add: char_of_byte_def byte_of_char_def of_char_of)
qed

lemma str_of_as_bytes [simp]: "str_of_bytes (as_bytes s) = s"
  by (simp add: as_bytes_def str_of_bytes_def comp_def)

lemma as_str_of_bytes [simp]: "as_bytes (str_of_bytes b) = b"
  by (simp add: as_bytes_def str_of_bytes_def comp_def)

lemma length_as_bytes [simp]: "length (as_bytes s) = length s"
  by (simp add: as_bytes_def)

lemma as_bytes_inject [simp]: "as_bytes s = as_bytes t \<longleftrightarrow> s = t"
  by (metis str_of_as_bytes)

lemma as_bytes_append [simp]: "as_bytes (s @ t) = as_bytes s @ as_bytes t"
  by (simp add: as_bytes_def)

section \<open>Searching and trimming strings\<close>

text \<open>\<^verbatim>\<open>str::strip_prefix\<close>: the rest after a prefix.\<close>

fun strip_prefix :: "string \<Rightarrow> string \<Rightarrow> string option" where
  "strip_prefix [] s = Some s"
| "strip_prefix (p # ps) [] = None"
| "strip_prefix (p # ps) (c # cs) = (if p = c then strip_prefix ps cs else None)"

definition starts_with :: "string \<Rightarrow> string \<Rightarrow> bool" where
  "starts_with s p = (strip_prefix p s \<noteq> None)"

lemma strip_prefix_Some: "strip_prefix p s = Some r \<longleftrightarrow> s = p @ r"
  by (induction p s rule: strip_prefix.induct) auto

lemma strip_prefix_append [simp]: "strip_prefix p (p @ r) = Some r"
  by (simp add: strip_prefix_Some)

lemma starts_with_iff: "starts_with s p \<longleftrightarrow> (\<exists>r. s = p @ r)"
  by (auto simp: starts_with_def strip_prefix_Some)

text \<open>\<^verbatim>\<open>str::contains\<close> for a string pattern.\<close>

fun contains_str :: "string \<Rightarrow> string \<Rightarrow> bool" where
  "contains_str [] p = (p = [])"
| "contains_str (c # cs) p = (starts_with (c # cs) p \<or> contains_str cs p)"

text \<open>\<^verbatim>\<open>trim_end_matches(c)\<close> for a character.\<close>

definition trim_end_char :: "char \<Rightarrow> string \<Rightarrow> string" where
  "trim_end_char c s = rev (dropWhile (\<lambda>x. x = c) (rev s))"

lemma trim_end_char_last: "trim_end_char c s \<noteq> [] \<Longrightarrow> last (trim_end_char c s) \<noteq> c"
  unfolding trim_end_char_def
  by (metis (mono_tags, lifting) hd_dropWhile last_rev rev_is_Nil_conv rev_rev_ident)

lemma trim_end_char_id: "s = [] \<or> last s \<noteq> c \<Longrightarrow> trim_end_char c s = s"
proof (cases "rev s")
  case Nil
  then show ?thesis by (simp add: trim_end_char_def)
next
  case (Cons x xs)
  then have s: "s = rev xs @ [x]" by (metis rev.simps(2) rev_rev_ident)
  assume "s = [] \<or> last s \<noteq> c"
  with s show ?thesis by (simp add: trim_end_char_def)
qed

text \<open>\<^verbatim>\<open>rsplit_once(c)\<close>: the parts around the last occurrence of a character.\<close>

definition rsplit_once :: "'a \<Rightarrow> 'a list \<Rightarrow> ('a list \<times> 'a list) option" where
  "rsplit_once c s = (let r = rev s; e = takeWhile (\<lambda>x. x \<noteq> c) r in
     if length e = length s then None
     else Some (rev (drop (Suc (length e)) r), rev e))"

lemma rsplit_once_Some:
  assumes "rsplit_once c s = Some (a, e)"
  shows "s = a @ c # e \<and> c \<notin> set e"
proof -
  let ?r = "rev s" and ?t = "takeWhile (\<lambda>x. x \<noteq> c) (rev s)"
  from assms have ne: "length ?t \<noteq> length s" and a: "a = rev (drop (Suc (length ?t)) ?r)"
    and e: "e = rev ?t"
    by (auto simp: rsplit_once_def Let_def split: if_splits)
  have split: "?r = ?t @ dropWhile (\<lambda>x. x \<noteq> c) ?r" by simp
  from ne have "dropWhile (\<lambda>x. x \<noteq> c) ?r \<noteq> []"
    by (metis append_Nil2 length_rev split)
  then obtain y ys where y: "dropWhile (\<lambda>x. x \<noteq> c) ?r = y # ys"
    by (cases "dropWhile (\<lambda>x. x \<noteq> c) ?r") auto
  then have yc: "y = c" using hd_dropWhile [of "\<lambda>x. x \<noteq> c" ?r] by simp
  have r: "?r = ?t @ c # ys" using split y yc by simp
  have "drop (Suc (length ?t)) ?r = drop (Suc (length ?t)) (?t @ c # ys)"
    by (subst r) (rule refl)
  then have "drop (Suc (length ?t)) ?r = ys" by simp
  with a have "a = rev ys" by simp
  moreover have "s = rev ys @ c # rev ?t"
    using arg_cong [OF r, of rev] by simp
  moreover have "c \<notin> set ?t" by (auto dest: set_takeWhileD)
  ultimately show ?thesis using e by simp
qed

section \<open>Decimal numbers\<close>

text \<open>How \<^verbatim>\<open>format!\<close> prints an unsigned integer: decimal digits, most significant first.\<close>

definition digit_char :: "nat \<Rightarrow> char" where
  "digit_char d = char_of (48 + d)"

fun show_nat :: "nat \<Rightarrow> string" where
  "show_nat n = (if n < 10 then [digit_char n] else show_nat (n div 10) @ [digit_char (n mod 10)])"

declare show_nat.simps [simp del]

lemma show_nat_nonempty [simp]: "show_nat n \<noteq> []"
  by (subst show_nat.simps) simp

definition is_digit :: "char \<Rightarrow> bool" where
  "is_digit c = (48 \<le> (of_char c :: nat) \<and> (of_char c :: nat) \<le> 57)"

lemma is_digit_digit_char: "d < 10 \<Longrightarrow> is_digit (digit_char d)"
  by (simp add: is_digit_def digit_char_def of_char_of)

lemma show_nat_digits: "c \<in> set (show_nat n) \<Longrightarrow> is_digit c"
proof (induction n rule: show_nat.induct)
  case (1 n)
  then show ?case
    by (subst (asm) (2) show_nat.simps) (auto simp: is_digit_digit_char split: if_splits)
qed

definition digit_val :: "char \<Rightarrow> nat" where
  "digit_val c = of_char c - 48"

lemma digit_val_digit_char [simp]: "d < 10 \<Longrightarrow> digit_val (digit_char d) = d"
  by (simp add: digit_val_def digit_char_def of_char_of)

definition dec_val :: "string \<Rightarrow> nat" where
  "dec_val s = foldl (\<lambda>a c. 10 * a + digit_val c) 0 s"

lemma dec_val_show_nat [simp]: "dec_val (show_nat n) = n"
proof (induction n rule: show_nat.induct)
  case (1 n)
  then show ?case
    by (subst show_nat.simps) (auto simp: dec_val_def)
qed

lemma show_nat_inject [simp]: "show_nat m = show_nat n \<longleftrightarrow> m = n"
  by (metis dec_val_show_nat)

section \<open>Maps\<close>

lemma map_upd_None_None [simp]: "(m(k := None)) k = None"
  by simp

lemma ran_upd_None: "v \<in> ran (m(k := None)) \<Longrightarrow> v \<in> ran m"
  by (auto simp: ran_def split: if_splits)

end
