(* ===== verification/Utf8.thy ===== *)
theory Utf8
  imports Prelude
begin

text \<open>
  What the code uses of Rust's \<^verbatim>\<open>char\<close> and \<^verbatim>\<open>str\<close>: the UTF-8 encoding of a sequence
  of Unicode scalar values, the validating decoder behind \<^verbatim>\<open>String::from_utf8\<close> and
  \<^verbatim>\<open>str::from_utf8\<close> (the well-formed byte sequences of the Unicode standard: no overlong
  forms, no surrogates, nothing above 10FFFF), \<^verbatim>\<open>chars()\<close>, \<^verbatim>\<open>char::is_whitespace\<close> and
  \<^verbatim>\<open>trim\<close>. The decoder inverts the encoder and accepts nothing else.
\<close>

section \<open>Encoding\<close>

definition is_scalar :: "nat \<Rightarrow> bool" where
  "is_scalar c = (c < 0xD800 \<or> (0xDFFF < c \<and> c < 0x110000))"

definition enc1 :: "nat \<Rightarrow> nat list" where
  "enc1 c =
     (if c < 0x80 then [c]
      else if c < 0x800 then [0xC0 + c div 64, 0x80 + c mod 64]
      else if c < 0x10000 then [0xE0 + c div 4096, 0x80 + c div 64 mod 64, 0x80 + c mod 64]
      else [0xF0 + c div 262144, 0x80 + c div 4096 mod 64, 0x80 + c div 64 mod 64, 0x80 + c mod 64])"

definition utf8_enc :: "nat list \<Rightarrow> nat list" where
  "utf8_enc cs = concat (map enc1 cs)"

section \<open>Validating decoder\<close>

definition is_cont :: "nat \<Rightarrow> bool" where
  "is_cont b = (0x80 \<le> b \<and> b \<le> 0xBF)"

text \<open>The second byte's range after the first byte, for three and four byte forms.\<close>

definition ok3 :: "nat \<Rightarrow> nat \<Rightarrow> bool" where
  "ok3 a b = (if a = 0xE0 then 0xA0 \<le> b \<and> b \<le> 0xBF
              else if a = 0xED then 0x80 \<le> b \<and> b \<le> 0x9F
              else 0xE0 \<le> a \<and> a \<le> 0xEF \<and> is_cont b)"

definition ok4 :: "nat \<Rightarrow> nat \<Rightarrow> bool" where
  "ok4 a b = (if a = 0xF0 then 0x90 \<le> b \<and> b \<le> 0xBF
              else if a = 0xF4 then 0x80 \<le> b \<and> b \<le> 0x8F
              else 0xF0 \<le> a \<and> a \<le> 0xF4 \<and> is_cont b)"

text \<open>One scalar value off the front of a byte sequence.\<close>

fun dec1 :: "nat list \<Rightarrow> (nat \<times> nat list) option" where
  "dec1 [] = None"
| "dec1 [a] = (if a < 0x80 then Some (a, []) else None)"
| "dec1 [a, b] =
     (if a < 0x80 then Some (a, [b])
      else if 0xC2 \<le> a \<and> a \<le> 0xDF \<and> is_cont b then Some ((a - 0xC0) * 64 + (b - 0x80), [])
      else None)"
| "dec1 [a, b, c] =
     (if a < 0x80 then Some (a, [b, c])
      else if 0xC2 \<le> a \<and> a \<le> 0xDF \<and> is_cont b then Some ((a - 0xC0) * 64 + (b - 0x80), [c])
      else if ok3 a b \<and> is_cont c
        then Some ((a - 0xE0) * 4096 + (b - 0x80) * 64 + (c - 0x80), [])
      else None)"
| "dec1 (a # b # c # d # r) =
     (if a < 0x80 then Some (a, b # c # d # r)
      else if 0xC2 \<le> a \<and> a \<le> 0xDF \<and> is_cont b
        then Some ((a - 0xC0) * 64 + (b - 0x80), c # d # r)
      else if ok3 a b \<and> is_cont c
        then Some ((a - 0xE0) * 4096 + (b - 0x80) * 64 + (c - 0x80), d # r)
      else if ok4 a b \<and> is_cont c \<and> is_cont d
        then Some ((a - 0xF0) * 262144 + (b - 0x80) * 4096 + (c - 0x80) * 64 + (d - 0x80), r)
      else None)"

lemma dec1_shorter: "dec1 bs = Some (c, r) \<Longrightarrow> length r < length bs"
  by (cases bs rule: dec1.cases) (auto split: if_splits)

function utf8_dec :: "nat list \<Rightarrow> nat list option" where
  "utf8_dec bs =
     (if bs = [] then Some []
      else case dec1 bs of None \<Rightarrow> None
           | Some (c, r) \<Rightarrow> map_option (Cons c) (utf8_dec r))"
  by pat_completeness auto
termination
  by (relation "measure length") (auto dest: dec1_shorter)

declare utf8_dec.simps [simp del]

lemma utf8_dec_Nil [simp]: "utf8_dec [] = Some []"
  by (simp add: utf8_dec.simps)

lemma utf8_dec_code [code]:
  "utf8_dec [] = Some []"
  "utf8_dec (b # bs) = (case dec1 (b # bs) of None \<Rightarrow> None
     | Some cr \<Rightarrow> map_option (Cons (fst cr)) (utf8_dec (snd cr)))"
  by (simp, subst utf8_dec.simps, simp split: option.split prod.split)

lemma utf8_dec_step: "dec1 bs = Some (c, r) \<Longrightarrow> utf8_dec bs = map_option (Cons c) (utf8_dec r)"
  by (subst utf8_dec.simps) auto

section \<open>The decoder inverts the encoder\<close>

lemma dec1_ascii: "a < 0x80 \<Longrightarrow> dec1 (a # r) = Some (a, r)"
  by (cases r rule: dec1.cases) auto

lemma dec1_two: "0xC2 \<le> a \<Longrightarrow> a \<le> 0xDF \<Longrightarrow> is_cont b \<Longrightarrow>
    dec1 (a # b # r) = Some ((a - 0xC0) * 64 + (b - 0x80), r)"
  by (cases r rule: dec1.cases) auto

lemma dec1_three: "ok3 a b \<Longrightarrow> is_cont c \<Longrightarrow>
    dec1 (a # b # c # r) = Some ((a - 0xE0) * 4096 + (b - 0x80) * 64 + (c - 0x80), r)"
  by (cases r rule: dec1.cases) (auto simp: ok3_def split: if_splits)

lemma dec1_four: "ok4 a b \<Longrightarrow> is_cont c \<Longrightarrow> is_cont d \<Longrightarrow> dec1 (a # b # c # d # r) =
    Some ((a - 0xF0) * 262144 + (b - 0x80) * 4096 + (c - 0x80) * 64 + (d - 0x80), r)"
  by (auto simp: ok3_def ok4_def split: if_splits)

text \<open>Splitting a number into base-64 digits and joining it again.\<close>

lemma split64_3: "(c :: nat) = c div 4096 * 4096 + c div 64 mod 64 * 64 + c mod 64"
proof -
  have "c div 4096 = c div 64 div 64" by (simp flip: div_mult2_eq)
  moreover have "c div 64 = c div 64 div 64 * 64 + c div 64 mod 64" by simp
  moreover have "c = c div 64 * 64 + c mod 64" by simp
  ultimately show ?thesis by linarith
qed

lemma split64_4:
  "(c :: nat) = c div 262144 * 262144 + c div 4096 mod 64 * 4096 + c div 64 mod 64 * 64 + c mod 64"
proof -
  have "c div 262144 = c div 4096 div 64" by (simp flip: div_mult2_eq)
  moreover have "c div 4096 = c div 4096 div 64 * 64 + c div 4096 mod 64" by simp
  ultimately show ?thesis using split64_3 [of c] by linarith
qed

lemma join64:
  assumes "(s :: nat) < 64"
  shows "(k * 64 + s) div 64 = k" "(k * 64 + s) mod 64 = s"
  using assms by simp_all

lemma join64_3:
  assumes "(q :: nat) < 64" "s < 64"
  shows "(p * 4096 + q * 64 + s) div 4096 = p" "(p * 4096 + q * 64 + s) div 64 = p * 64 + q"
    "(p * 4096 + q * 64 + s) mod 64 = s"
proof -
  have n: "p * 4096 + q * 64 + s = (p * 64 + q) * 64 + s" by simp
  show "(p * 4096 + q * 64 + s) mod 64 = s" unfolding n by (rule join64 [OF assms(2)])
  show *: "(p * 4096 + q * 64 + s) div 64 = p * 64 + q" unfolding n by (rule join64 [OF assms(2)])
  have "(p * 4096 + q * 64 + s) div 4096 = (p * 4096 + q * 64 + s) div 64 div 64"
    by (simp only: div_mult2_eq [symmetric]) simp
  then show "(p * 4096 + q * 64 + s) div 4096 = p" using * join64 [OF assms(1)] by simp
qed

lemma join64_4:
  assumes "(q :: nat) < 64" "s < 64" "u < 64"
  shows "(p * 262144 + q * 4096 + s * 64 + u) div 262144 = p"
    "(p * 262144 + q * 4096 + s * 64 + u) div 4096 = p * 64 + q"
    "(p * 262144 + q * 4096 + s * 64 + u) div 64 = (p * 64 + q) * 64 + s"
    "(p * 262144 + q * 4096 + s * 64 + u) mod 64 = u"
proof -
  let ?n = "p * 262144 + q * 4096 + s * 64 + u"
  have n: "?n = (p * 64 + q) * 4096 + s * 64 + u" by simp
  show "?n mod 64 = u" unfolding n by (rule join64_3 [OF assms(2,3)])
  show "?n div 64 = (p * 64 + q) * 64 + s" unfolding n by (rule join64_3 [OF assms(2,3)])
  show *: "?n div 4096 = p * 64 + q" unfolding n by (rule join64_3 [OF assms(2,3)])
  have "?n div 262144 = ?n div 4096 div 64" by (simp only: div_mult2_eq [symmetric]) simp
  then show "?n div 262144 = p" using * join64 [OF assms(1)] by simp
qed

lemma dec1_enc1:
  assumes "is_scalar c"
  shows "dec1 (enc1 c @ r) = Some (c, r)"
proof -
  consider (one) "c < 0x80" | (two) "0x80 \<le> c" "c < 0x800"
    | (three) "0x800 \<le> c" "c < 0x10000" | (four) "0x10000 \<le> c"
    by linarith
  then show ?thesis
  proof cases
    case one
    then show ?thesis by (simp add: enc1_def dec1_ascii)
  next
    case two
    have "dec1 ((0xC0 + c div 64) # (0x80 + c mod 64) # r)
        = Some ((0xC0 + c div 64 - 0xC0) * 64 + (0x80 + c mod 64 - 0x80), r)"
      by (rule dec1_two) (use two in \<open>auto simp: is_cont_def\<close>)
    with two show ?thesis by (simp add: enc1_def)
  next
    case three
    define p q s where "p = c div 4096" and "q = c div 64 mod 64" and "s = c mod 64"
    have c: "c = p * 4096 + q * 64 + s" and q: "q < 64" and s: "s < 64"
      unfolding p_def q_def s_def by (rule split64_3, simp_all)
    have "ok3 (0xE0 + p) (0x80 + q)"
      using three assms c q s by (auto simp: ok3_def is_cont_def is_scalar_def)
    moreover have "is_cont (0x80 + s)" using s by (simp add: is_cont_def)
    ultimately have "dec1 ((0xE0 + p) # (0x80 + q) # (0x80 + s) # r) = Some (c, r)"
      using dec1_three [of "0xE0 + p" "0x80 + q" "0x80 + s" r] by (simp add: c)
    with three show ?thesis by (simp add: enc1_def p_def q_def s_def)
  next
    case four
    define p q s u where "p = c div 262144" and "q = c div 4096 mod 64"
      and "s = c div 64 mod 64" and "u = c mod 64"
    have c: "c = p * 262144 + q * 4096 + s * 64 + u" and q: "q < 64" and s: "s < 64" and u: "u < 64"
      unfolding p_def q_def s_def u_def by (rule split64_4, simp_all)
    have "ok4 (0xF0 + p) (0x80 + q)"
      using four assms c q s u by (auto simp: ok4_def is_cont_def is_scalar_def)
    moreover have "is_cont (0x80 + s)" "is_cont (0x80 + u)" using s u by (simp_all add: is_cont_def)
    ultimately have "dec1 ((0xF0 + p) # (0x80 + q) # (0x80 + s) # (0x80 + u) # r) = Some (c, r)"
      using dec1_four [of "0xF0 + p" "0x80 + q" "0x80 + s" "0x80 + u" r] by (simp add: c)
    with four show ?thesis by (simp add: enc1_def p_def q_def s_def u_def)
  qed
qed

lemma utf8_dec_enc: "list_all is_scalar cs \<Longrightarrow> utf8_dec (utf8_enc cs) = Some cs"
proof (induction cs)
  case Nil
  then show ?case by (simp add: utf8_enc_def)
next
  case (Cons c cs)
  then have "utf8_dec (enc1 c @ utf8_enc cs) = Some (c # cs)"
    by (simp add: utf8_dec_step [OF dec1_enc1])
  then show ?case by (simp add: utf8_enc_def)
qed

section \<open>The decoder accepts encodings only\<close>

lemma enc1_two:
  assumes "0xC2 \<le> a" "a \<le> 0xDF" "is_cont b"
  shows "enc1 ((a - 0xC0) * 64 + (b - 0x80)) = [a, b] \<and> is_scalar ((a - 0xC0) * 64 + (b - 0x80))"
proof -
  obtain p s where "a = 0xC0 + p" "b = 0x80 + s" "s < 64" "2 \<le> p" "p < 32"
  proof
    show "a = 0xC0 + (a - 0xC0)" "b = 0x80 + (b - 0x80)" "b - 0x80 < 64" "2 \<le> a - 0xC0" "a - 0xC0 < 32"
      using assms by (auto simp: is_cont_def)
  qed
  then show ?thesis by (auto simp: enc1_def is_scalar_def)
qed

lemma enc1_three:
  assumes "ok3 a b" "is_cont c"
  shows "enc1 ((a - 0xE0) * 4096 + (b - 0x80) * 64 + (c - 0x80)) = [a, b, c] \<and>
    is_scalar ((a - 0xE0) * 4096 + (b - 0x80) * 64 + (c - 0x80))"
proof -
  define p q s where "p = a - 0xE0" and "q = b - 0x80" and "s = c - 0x80"
  have a: "a = 0xE0 + p" and b: "b = 0x80 + q" and c: "c = 0x80 + s" and "q < 64" "s < 64" "p < 16"
    "p = 0 \<Longrightarrow> 32 \<le> q" "p = 13 \<Longrightarrow> q < 32"
    using assms unfolding p_def q_def s_def
    by (auto simp: ok3_def is_cont_def split: if_splits)
  define n where "n = p * 4096 + q * 64 + s"
  have "n div 4096 = p" "n div 64 mod 64 = q" "n mod 64 = s"
    using \<open>q < 64\<close> \<open>s < 64\<close> unfolding n_def by (simp_all only: join64_3 join64)
  moreover have "0x800 \<le> n" "n < 0x10000" "is_scalar n"
    using \<open>q < 64\<close> \<open>s < 64\<close> \<open>p < 16\<close> \<open>p = 0 \<Longrightarrow> 32 \<le> q\<close> \<open>p = 13 \<Longrightarrow> q < 32\<close>
    by (cases "p = 0"; cases "p = 13"; auto simp: n_def is_scalar_def)+
  ultimately show ?thesis
    unfolding p_def [symmetric] q_def [symmetric] s_def [symmetric] n_def [symmetric]
    by (simp add: enc1_def a b c)
qed

lemma enc1_four:
  assumes "ok4 a b" "is_cont c" "is_cont d"
  shows "enc1 ((a - 0xF0) * 262144 + (b - 0x80) * 4096 + (c - 0x80) * 64 + (d - 0x80)) = [a, b, c, d] \<and>
    is_scalar ((a - 0xF0) * 262144 + (b - 0x80) * 4096 + (c - 0x80) * 64 + (d - 0x80))"
proof -
  define p q s u where "p = a - 0xF0" and "q = b - 0x80" and "s = c - 0x80" and "u = d - 0x80"
  have a: "a = 0xF0 + p" and b: "b = 0x80 + q" and c: "c = 0x80 + s" and d: "d = 0x80 + u"
    and "q < 64" "s < 64" "u < 64" "p < 5" "p = 0 \<Longrightarrow> 16 \<le> q" "p = 4 \<Longrightarrow> q < 16"
    using assms unfolding p_def q_def s_def u_def
    by (auto simp: ok4_def is_cont_def split: if_splits)
  define n where "n = p * 262144 + q * 4096 + s * 64 + u"
  have "n div 262144 = p" "n div 4096 mod 64 = q" "n div 64 mod 64 = s" "n mod 64 = u"
    using \<open>q < 64\<close> \<open>s < 64\<close> \<open>u < 64\<close> unfolding n_def by (simp_all only: join64_4 join64)
  moreover have "0x10000 \<le> n" "is_scalar n"
    using \<open>q < 64\<close> \<open>s < 64\<close> \<open>u < 64\<close> \<open>p < 5\<close> \<open>p = 0 \<Longrightarrow> 16 \<le> q\<close> \<open>p = 4 \<Longrightarrow> q < 16\<close>
    by (cases "p = 0"; cases "p = 4"; auto simp: n_def is_scalar_def)+
  ultimately show ?thesis
    unfolding p_def [symmetric] q_def [symmetric] s_def [symmetric] u_def [symmetric] n_def [symmetric]
    by (simp add: enc1_def a b c d)
qed

lemma enc1_ascii: "a < 0x80 \<Longrightarrow> enc1 a = [a] \<and> is_scalar a"
  by (simp add: enc1_def is_scalar_def)

lemma dec1_sound: "dec1 bs = Some (c, r) \<Longrightarrow> is_scalar c \<and> bs = enc1 c @ r"
proof (cases bs rule: dec1.cases)
  case (2 a)
  assume "dec1 bs = Some (c, r)"
  with 2 show ?thesis using enc1_ascii [of a] by (auto split: if_splits)
next
  case (3 a b)
  assume "dec1 bs = Some (c, r)"
  with 3 show ?thesis
    using enc1_two [of a b] enc1_ascii [of a] by (auto split: if_splits)
next
  case (4 a b d)
  assume "dec1 bs = Some (c, r)"
  with 4 show ?thesis
    using enc1_two [of a b] enc1_three [of a b d] enc1_ascii [of a] by (auto split: if_splits)
next
  case (5 a b d e s)
  assume "dec1 bs = Some (c, r)"
  with 5 show ?thesis
    using enc1_two [of a b] enc1_three [of a b d] enc1_four [of a b d e] enc1_ascii [of a]
    by (auto split: if_splits)
qed simp

lemma utf8_dec_sound: "utf8_dec bs = Some cs \<Longrightarrow> list_all is_scalar cs \<and> utf8_enc cs = bs"
proof (induction bs arbitrary: cs rule: utf8_dec.induct)
  case (1 bs)
  show ?case
  proof (cases "bs = []")
    case True
    with "1.prems" show ?thesis by (simp add: utf8_enc_def)
  next
    case False
    with "1.prems" obtain c r cs' where d: "dec1 bs = Some (c, r)"
      and r: "utf8_dec r = Some cs'" and cs: "cs = c # cs'"
      by (subst (asm) utf8_dec.simps) (auto split: option.splits)
    from "1.IH" [OF False d refl r] dec1_sound [OF d] cs show ?thesis
      by (simp add: utf8_enc_def)
  qed
qed

section \<open>Rust strings\<close>

text \<open>\<^verbatim>\<open>str::from_utf8\<close> / \<^verbatim>\<open>String::from_utf8\<close>: the same bytes as a string, or an error.\<close>

definition valid_utf8 :: "bytes \<Rightarrow> bool" where
  "valid_utf8 bs = (utf8_dec (map unat bs) \<noteq> None)"

definition from_utf8 :: "bytes \<Rightarrow> string option" where
  "from_utf8 bs = (if valid_utf8 bs then Some (str_of_bytes bs) else None)"

text \<open>What the type \<^verbatim>\<open>String\<close> guarantees of its bytes.\<close>

definition rust_str :: "string \<Rightarrow> bool" where
  "rust_str s = valid_utf8 (as_bytes s)"

lemma from_utf8_as_bytes [simp]: "rust_str s \<Longrightarrow> from_utf8 (as_bytes s) = Some s"
  by (simp add: from_utf8_def rust_str_def)

lemma from_utf8_Some: "from_utf8 bs = Some s \<Longrightarrow> rust_str s \<and> as_bytes s = bs"
  by (auto simp: from_utf8_def rust_str_def split: if_splits)

lemma utf8_dec_ascii: "\<forall>b\<in>set bs. b < 0x80 \<Longrightarrow> utf8_dec bs = Some bs"
  by (induction bs) (auto simp: utf8_dec_step [OF dec1_ascii])

definition is_ascii :: "string \<Rightarrow> bool" where
  "is_ascii s = list_all (\<lambda>c. of_char c < (0x80 :: nat)) s"

lemma rust_str_ascii: "is_ascii s \<Longrightarrow> rust_str s"
  by (simp add: rust_str_def valid_utf8_def as_bytes_def is_ascii_def list_all_iff utf8_dec_ascii)

text \<open>\<^verbatim>\<open>s.chars()\<close>, and the string built from scalar values.\<close>

definition chars :: "string \<Rightarrow> nat list" where
  "chars s = (case utf8_dec (map of_char s) of Some cs \<Rightarrow> cs | None \<Rightarrow> [])"

definition from_chars :: "nat list \<Rightarrow> string" where
  "from_chars cs = map char_of (utf8_enc cs)"

lemma enc1_bytes: "is_scalar c \<Longrightarrow> b \<in> set (enc1 c) \<Longrightarrow> b < 256"
  by (auto simp: enc1_def is_scalar_def split: if_splits)

lemma utf8_enc_bytes: "list_all is_scalar cs \<Longrightarrow> b \<in> set (utf8_enc cs) \<Longrightarrow> b < 256"
  by (auto simp: utf8_enc_def list_all_iff dest: enc1_bytes)

lemma of_from_chars: "list_all is_scalar cs \<Longrightarrow> map of_char (from_chars cs) = utf8_enc cs"
  unfolding from_chars_def map_map by (rule map_idI) (simp add: utf8_enc_bytes)

lemma chars_from_chars: "list_all is_scalar cs \<Longrightarrow> chars (from_chars cs) = cs"
  by (simp add: chars_def of_from_chars utf8_dec_enc)

lemma rust_str_iff: "rust_str s \<longleftrightarrow> utf8_dec (map of_char s) \<noteq> None"
  by (simp add: rust_str_def valid_utf8_def as_bytes_def comp_def)

lemma rust_str_from_chars: "list_all is_scalar cs \<Longrightarrow> rust_str (from_chars cs)"
  by (simp add: rust_str_iff of_from_chars utf8_dec_enc)

lemma from_chars_chars: "rust_str s \<Longrightarrow> from_chars (chars s) = s"
proof -
  assume "rust_str s"
  then obtain cs where d: "utf8_dec (map of_char s) = Some cs" by (auto simp: rust_str_iff)
  then have "utf8_enc cs = map of_char s" using utf8_dec_sound by blast
  with d show ?thesis by (simp add: chars_def from_chars_def comp_def)
qed

lemma chars_scalar: "list_all is_scalar (chars s)"
proof (cases "utf8_dec (map of_char s)")
  case None
  then show ?thesis by (simp add: chars_def)
next
  case (Some cs)
  then show ?thesis using utf8_dec_sound [OF Some] by (simp add: chars_def)
qed

lemma chars_ascii: "is_ascii s \<Longrightarrow> chars s = map of_char s"
  by (simp add: chars_def is_ascii_def list_all_iff utf8_dec_ascii)

lemma from_chars_ascii: "is_ascii s \<Longrightarrow> from_chars (map of_char s) = s"
  by (metis from_chars_chars rust_str_ascii chars_ascii)

lemma utf8_enc_append [simp]: "utf8_enc (a @ b) = utf8_enc a @ utf8_enc b"
  by (simp add: utf8_enc_def)

lemma from_chars_append: "from_chars (a @ b) = from_chars a @ from_chars b"
  by (simp add: from_chars_def)

lemma rust_str_append:
  assumes "rust_str s" "rust_str t"
  shows "rust_str (s @ t)"
proof -
  have "s @ t = from_chars (chars s @ chars t)"
    using assms by (simp add: from_chars_append from_chars_chars)
  then show ?thesis by (simp add: rust_str_from_chars chars_scalar list_all_append)
qed

section \<open>White space\<close>

definition is_whitespace :: "nat \<Rightarrow> bool" where
  "is_whitespace c =
     (c \<in> {0x20, 0x85, 0xA0, 0x1680, 0x2028, 0x2029, 0x202F, 0x205F, 0x3000}
      \<or> (0x09 \<le> c \<and> c \<le> 0x0D) \<or> (0x2000 \<le> c \<and> c \<le> 0x200A))"

definition trim_chars :: "nat list \<Rightarrow> nat list" where
  "trim_chars cs = rev (dropWhile is_whitespace (rev (dropWhile is_whitespace cs)))"

lemma set_trim_chars: "set (trim_chars cs) \<subseteq> set cs"
  unfolding trim_chars_def
  by (metis order_trans set_dropWhileD set_rev subsetI)

end
