(* ===== verification/Codec.thy ===== *)
theory Codec
  imports Prelude
begin

text \<open>
  The interfaces of the wire formats. A \<^verbatim>\<open>codec\<close> is an encoder with a decoder that gives
  every well-formed value back; \<^verbatim>\<open>wire_pair\<close> is what two programs that each carry their own
  copy of a codec promise each other; \<^verbatim>\<open>tagged_frame\<close> is the contract of the binary data-plane
  frames, which the receiver dispatches on by their first byte. The theories Protocol and Tunnel
  interpret them on the encoders of the code.
\<close>

section \<open>One encoder with its decoder\<close>

locale codec =
  fixes encode :: "'f \<Rightarrow> bytes" and decode :: "bytes \<Rightarrow> 'f option" and wf :: "'f \<Rightarrow> bool"
  assumes decode_encode: "wf f \<Longrightarrow> decode (encode f) = Some f"
begin

lemma encode_inject: "wf f \<Longrightarrow> wf g \<Longrightarrow> encode f = encode g \<longleftrightarrow> f = g"
  by (metis decode_encode option.inject)

lemma decode_many: "list_all wf fs \<Longrightarrow> map decode (map encode fs) = map Some fs"
  by (induction fs) (auto simp: decode_encode)

lemma encode_distinct: "list_all wf fs \<Longrightarrow> distinct (map encode fs) \<longleftrightarrow> distinct fs"
  by (simp add: distinct_map list_all_iff inj_on_def encode_inject)

end

section \<open>Two programs on one wire\<close>

locale wire_pair = a: codec enc_a dec_a wf + b: codec enc_b dec_b wf
  for enc_a :: "'f \<Rightarrow> bytes" and dec_a enc_b dec_b wf +
  assumes same_wire: "enc_a f = enc_b f"
begin

lemma a_to_b: "wf f \<Longrightarrow> dec_b (enc_a f) = Some f"
  by (simp add: same_wire b.decode_encode)

lemma b_to_a: "wf f \<Longrightarrow> dec_a (enc_b f) = Some f"
  by (simp flip: same_wire add: a.decode_encode)

text \<open>A value one program receives from the other can be sent back unchanged.\<close>

lemma relayed: "wf f \<Longrightarrow> map_option enc_b (dec_b (enc_a f)) = Some (enc_a f)"
  using b.decode_encode [of f] by (simp add: same_wire)

end

section \<open>Frames that announce their type\<close>

locale tagged_frame = codec encode decode wf
  for encode :: "'f \<Rightarrow> bytes" and decode wf +
  fixes tag :: u8 and header_len :: nat and payload_len :: "'f \<Rightarrow> nat"
  assumes header_pos: "0 < header_len"
    and encode_length: "length (encode f) = header_len + payload_len f"
    and encode_tag: "encode f ! 0 = tag"
begin

lemma encode_nonempty: "encode f \<noteq> []"
  using encode_length [of f] header_pos by auto

lemma first_byte: "hd (encode f) = tag"
  by (simp add: hd_conv_nth encode_nonempty encode_tag)

end

text \<open>Frames of different tags are never confused.\<close>

locale frame_family = a: tagged_frame enc_a dec_a wf_a tag_a len pl_a
    + b: tagged_frame enc_b dec_b wf_b tag_b len pl_b
  for enc_a :: "'f \<Rightarrow> bytes" and dec_a wf_a tag_a len pl_a
    and enc_b :: "'g \<Rightarrow> bytes" and dec_b wf_b tag_b pl_b +
  assumes tags_differ: "tag_a \<noteq> tag_b"
begin

lemma disjoint: "enc_a f \<noteq> enc_b g"
  using a.encode_tag [of f] b.encode_tag [of g] tags_differ by auto

end

end
