(* ===== verification/Protocol.thy ===== *)
theory Protocol
  imports Codec
begin

text \<open>
  The vocabulary of the connection (\<^verbatim>\<open>server-pc/src/protocol.rs\<close>): the control-plane messages
  \<^verbatim>\<open>ClientMsg\<close> and \<^verbatim>\<open>ServerMsg\<close> with their constants (\<^verbatim>\<open>config.rs\<close>), and the binary
  data-plane frames with their 12-byte header. The JSON text of the messages is produced and read
  by serde, which is not part of the repository: the two directions are parameters of the model
  wherever they are used. \<^verbatim>\<open>f32\<close> coordinates are carried as their bit patterns; nothing in
  the code computes with them before the input layer.
\<close>

type_synonym f32 = "32 word"
type_synonym i32 = "32 word"

section \<open>Control plane\<close>

datatype MouseButton = Left | Right | Middle

definition default_codec :: string where
  "default_codec = ''h264''"

record ClientInfo =
  ci_name :: string
  ci_os :: string
  ci_app_version :: string

text \<open>The fields of each constructor are in the order of the source.\<close>

datatype ClientMsg =
    Hello u32 string string ClientInfo                            \<comment> \<open>v, c, nonce, client\<close>
  | TrustedHello u32 string string ClientInfo                     \<comment> \<open>v, device_id, token, client\<close>
  | Ping u64                                                      \<comment> \<open>ts\<close>
  | StreamRequest string "u32 option" "u32 option" "u32 option"
      \<comment> \<open>codec, max_bitrate_kbps, max_fps, prefer_keyframe_interval_ms\<close>
  | StreamStop "string option"                                    \<comment> \<open>stream_id\<close>
  | KeyframeRequest "string option"                               \<comment> \<open>stream_id\<close>
  | MouseMove f32 f32                                             \<comment> \<open>x, y\<close>
  | MouseButton MouseButton bool                                  \<comment> \<open>button, down\<close>
  | MouseScroll i32 i32                                           \<comment> \<open>dx, dy\<close>
  | KeyText string                                                \<comment> \<open>text\<close>
  | KeyEvent u32 bool                                             \<comment> \<open>vk, down\<close>
  | ClipboardSet string                                           \<comment> \<open>text\<close>
  | ClipboardGet
  | FileTransferBegin u32 string u64                              \<comment> \<open>id, name, size\<close>
  | FileTransferAbort u32 string                                  \<comment> \<open>id, reason\<close>
  | FileSendAccepted u32 string                                   \<comment> \<open>id, dest_path\<close>
  | FileSendComplete u32 string                                   \<comment> \<open>id, dest_path\<close>
  | FileSendFailed u32 string                                     \<comment> \<open>id, reason\<close>

record ServerInfo =
  si_name :: string
  si_os :: string
  si_version :: string

record AudioMetadata =
  am_codec :: string
  am_sample_rate :: u32
  am_channels :: u32
  am_frame_size_ms :: u32
  am_bitrate_kbps :: u32
  am_csd_0_b64 :: string
  am_csd_1_b64 :: string
  am_csd_2_b64 :: string

datatype ErrorCode =
    BadPairingCode | CodeExpired | CodeUsed | VersionMismatch | Malformed | UnknownDevice
  | BadTrustToken | StreamUnavailable | StreamAlreadyRunning | NotAuthenticated
  | InputUnavailable | KeyEventInvalid

datatype StreamStopReason = ClientRequested | EncoderError | CaptureError | ServerShutdown

record StreamInfo =
  st_stream_id :: string
  st_codec :: string
  st_profile :: string
  st_level :: string
  st_width :: u32
  st_height :: u32
  st_fps :: u32
  st_bitrate_kbps :: u32
  st_keyframe_interval_frames :: u32
  st_pixel_format :: string
  st_started_at_unix_ms :: u64
  st_audio :: "AudioMetadata option"

datatype ServerMsg =
    Welcome string ServerInfo string "string option" "string option"
      \<comment> \<open>session, server, hmac, trust_token, device_id\<close>
  | Error ErrorCode string                                        \<comment> \<open>code, msg\<close>
  | Pong u64                                                      \<comment> \<open>ts\<close>
  | StreamStarted StreamInfo
  | StreamStopped string StreamStopReason string                  \<comment> \<open>stream_id, reason, msg\<close>
  | ClipboardText string                                          \<comment> \<open>text\<close>
  | FileTransferAccepted u32 string                               \<comment> \<open>id, dest_path\<close>
  | FileTransferComplete u32 string                               \<comment> \<open>id, dest_path\<close>
  | FileTransferFailed u32 string                                 \<comment> \<open>id, reason\<close>
  | FileSendBegin u32 string u64                                  \<comment> \<open>id, name, size\<close>

section \<open>Constants\<close>

definition PROTOCOL_VERSION :: u32 where "PROTOCOL_VERSION = 6"
definition MIN_SUPPORTED_VERSION :: u32 where "MIN_SUPPORTED_VERSION = 1"

section \<open>Data plane\<close>

definition FRAME_HEADER_LEN :: nat where "FRAME_HEADER_LEN = 12"

definition frame_VIDEO :: u8 where "frame_VIDEO = 0x01"
definition frame_AUDIO :: u8 where "frame_AUDIO = 0x02"
definition frame_FILE :: u8 where "frame_FILE = 0x03"

definition flag_KEYFRAME :: u8 where "flag_KEYFRAME = push_bit 0 1"
definition flag_CONFIG :: u8 where "flag_CONFIG = push_bit 1 1"
definition flag_LAST_CHUNK :: u8 where "flag_LAST_CHUNK = push_bit 0 1"

lemmas frame_consts [wire] = FRAME_HEADER_LEN_def frame_VIDEO_def frame_AUDIO_def frame_FILE_def
  flag_KEYFRAME_def flag_CONFIG_def flag_LAST_CHUNK_def

definition build_video_frame :: "bytes \<Rightarrow> u64 \<Rightarrow> bool \<Rightarrow> bool \<Rightarrow> bytes" where
  "build_video_frame payload pts_us keyframe has_config =
     (let flags = 0;
          flags = (if keyframe then flags OR flag_KEYFRAME else flags);
          flags = (if has_config then flags OR flag_CONFIG else flags)
      in [frame_VIDEO] @ [flags] @ [0, 0] @ le_bytes 8 pts_us @ payload)"

definition build_audio_frame :: "bytes \<Rightarrow> u64 \<Rightarrow> bytes" where
  "build_audio_frame payload pts_us = [frame_AUDIO] @ [0] @ [0, 0] @ le_bytes 8 pts_us @ payload"

definition peek_frame_header :: "bytes \<Rightarrow> (u8 \<times> u8) option" where
  "peek_frame_header buf =
     (if length buf < FRAME_HEADER_LEN then None else Some (buf ! 0, buf ! 1))"

definition build_file_chunk_frame :: "u32 \<Rightarrow> u32 \<Rightarrow> bool \<Rightarrow> bytes \<Rightarrow> bytes" where
  "build_file_chunk_frame transfer_id chunk_seq last_chunk payload =
     [frame_FILE] @ [if last_chunk then flag_LAST_CHUNK else 0] @ [0, 0]
     @ le_bytes 4 transfer_id @ le_bytes 4 chunk_seq @ payload"

definition parse_file_chunk :: "bytes \<Rightarrow> (u32 \<times> u32 \<times> bool \<times> bytes) option" where
  "parse_file_chunk buf =
     (if length buf < FRAME_HEADER_LEN then None
      else let flags = buf ! 1;
               cid = from_le [buf ! 4, buf ! 5, buf ! 6, buf ! 7];
               cseq = from_le [buf ! 8, buf ! 9, buf ! 10, buf ! 11];
               is_last = (flags AND flag_LAST_CHUNK \<noteq> 0)
           in Some (cid, cseq, is_last, drop FRAME_HEADER_LEN buf))"

section \<open>Facts about the frames\<close>

lemma le_bytes_8: "le_bytes 8 w =
    [ucast w, ucast (drop_bit 8 w), ucast (drop_bit 16 w), ucast (drop_bit 24 w),
     ucast (drop_bit 32 w), ucast (drop_bit 40 w), ucast (drop_bit 48 w), ucast (drop_bit 56 w)]"
  by (simp add: numeral_eq_Suc drop_bit_drop_bit)

lemma parse_build_file_chunk [simp]:
  "parse_file_chunk (build_file_chunk_frame t n l p) = Some (t, n, l, p)"
  using from_le_bytes_u32 [of t] from_le_bytes_u32 [of n]
  by (auto simp: parse_file_chunk_def build_file_chunk_frame_def wire le_bytes_4
      simp del: from_le.simps from_le_bytes_u32)

lemma build_file_chunk_frame_length [simp]:
  "length (build_file_chunk_frame t n l p) = 12 + length p"
  by (simp add: build_file_chunk_frame_def)

lemma peek_video: "peek_frame_header (build_video_frame p pts k c) =
    Some (frame_VIDEO, (if k then 1 else 0) OR (if c then 2 else 0))"
  by (auto simp: peek_frame_header_def build_video_frame_def wire Let_def le_bytes_8)

lemma peek_audio: "peek_frame_header (build_audio_frame p pts) = Some (frame_AUDIO, 0)"
  by (simp add: peek_frame_header_def build_audio_frame_def wire)

lemma peek_file: "peek_frame_header (build_file_chunk_frame t n l p) =
    Some (frame_FILE, if l then flag_LAST_CHUNK else 0)"
  by (simp add: peek_frame_header_def build_file_chunk_frame_def wire)

section \<open>FILE frames as a codec\<close>

type_synonym file_chunk = "u32 \<times> u32 \<times> bool \<times> bytes"

interpretation file_codec: tagged_frame
  "\<lambda>(t, n, l, p). build_file_chunk_frame t n l p" parse_file_chunk "\<lambda>_. True"
  frame_FILE FRAME_HEADER_LEN "\<lambda>(t, n, l, p). length p"
  by unfold_locales (simp_all split: prod.splits, simp_all add: build_file_chunk_frame_def wire)

end
