(* ===== verification/Phone.thy ===== *)
theory Phone
  imports Protocol
begin

text \<open>
  The phone's side of the data plane (\<^verbatim>\<open>app-android/.../net/Protocol.kt\<close> and the binary
  dispatch of \<^verbatim>\<open>ConnectionClient.kt\<close>): the header parser, the FILE frame builder and the
  receiver of a PC to phone transfer. It is here because the Rust server's frames have no other
  reader: the round trips of the media frames and the delivery of whole files are statements about
  both programs. Kotlin's \<^verbatim>\<open>Int\<close> and \<^verbatim>\<open>Long\<close> are 32- and 64-bit words, \<^verbatim>\<open>ushr\<close> is
  \<open>drop_bit\<close> and \<^verbatim>\<open>toByte\<close> is \<open>ucast\<close>.
\<close>

section \<open>Parsing a frame\<close>

record VideoFrame =
  vf_type :: u8
  vf_isKeyframe :: bool
  vf_hasConfig :: bool
  vf_ptsUs :: u64
  vf_payload :: bytes

definition readLongLe :: "bytes \<Rightarrow> nat \<Rightarrow> u64" where
  "readLongLe b off = foldl (\<lambda>v i. v OR push_bit (i * 8) (ucast (b ! (off + i)) AND 0xFF)) 0 [0..<8]"

definition FrameParser_parse :: "bytes \<Rightarrow> VideoFrame option" where
  "FrameParser_parse b =
     (if length b < FRAME_HEADER_LEN then None
      else Some \<lparr> vf_type = b ! 0,
                  vf_isKeyframe = (b ! 1 AND flag_KEYFRAME \<noteq> 0),
                  vf_hasConfig = (b ! 1 AND flag_CONFIG \<noteq> 0),
                  vf_ptsUs = readLongLe b 4,
                  vf_payload = drop FRAME_HEADER_LEN b \<rparr>)"

section \<open>Building a FILE frame\<close>

definition buildFileChunkFrame :: "u32 \<Rightarrow> u32 \<Rightarrow> bool \<Rightarrow> bytes \<Rightarrow> bytes" where
  "buildFileChunkFrame transferId chunkSeq is_last payload =
     (let out = replicate FRAME_HEADER_LEN 0 @ payload;
          out = out[0 := frame_FILE];
          out = out[1 := if is_last then flag_LAST_CHUNK else 0];
          out = out[4 := ucast (transferId AND 0xFF)];
          out = out[5 := ucast (drop_bit 8 transferId AND 0xFF)];
          out = out[6 := ucast (drop_bit 16 transferId AND 0xFF)];
          out = out[7 := ucast (drop_bit 24 transferId AND 0xFF)];
          out = out[8 := ucast (chunkSeq AND 0xFF)];
          out = out[9 := ucast (drop_bit 8 chunkSeq AND 0xFF)];
          out = out[10 := ucast (drop_bit 16 chunkSeq AND 0xFF)];
          out = out[11 := ucast (drop_bit 24 chunkSeq AND 0xFF)]
      in out)"

text \<open>How \<^verbatim>\<open>handleIncomingFileChunk\<close> reads the two numbers out of the time stamp field.\<close>

definition file_fields :: "VideoFrame \<Rightarrow> u32 \<times> u32 \<times> bool \<times> bytes" where
  "file_fields frame =
     (ucast (vf_ptsUs frame AND 0xFFFFFFFF), ucast (drop_bit 32 (vf_ptsUs frame) AND 0xFFFFFFFF),
      vf_isKeyframe frame, vf_payload frame)"

text \<open>The three branches of the dispatch in \<^verbatim>\<open>onMessage\<close>, as readers of one frame type each.\<close>

definition phone_video :: "bytes \<Rightarrow> (bytes \<times> u64 \<times> bool \<times> bool) option" where
  "phone_video b = (case FrameParser_parse b of None \<Rightarrow> None
     | Some f \<Rightarrow> if vf_type f = frame_VIDEO
         then Some (vf_payload f, vf_ptsUs f, vf_isKeyframe f, vf_hasConfig f) else None)"

definition phone_audio :: "bytes \<Rightarrow> (bytes \<times> u64) option" where
  "phone_audio b = (case FrameParser_parse b of None \<Rightarrow> None
     | Some f \<Rightarrow> if vf_type f = frame_AUDIO then Some (vf_payload f, vf_ptsUs f) else None)"

definition phone_file :: "bytes \<Rightarrow> (u32 \<times> u32 \<times> bool \<times> bytes) option" where
  "phone_file b = (case FrameParser_parse b of None \<Rightarrow> None
     | Some f \<Rightarrow> if vf_type f = frame_FILE then Some (file_fields f) else None)"

lemmas phone_readers = phone_video_def phone_audio_def phone_file_def FrameParser_parse_def

section \<open>The two byte orders agree\<close>

lemma and_ff: "w AND 0xFF = take_bit 8 (w :: 'a::len word)"
  by (simp add: take_bit_eq_mask mask_eq_exp_minus_1)

lemma and_ffffffff: "w AND 0xFFFFFFFF = take_bit 32 (w :: 'a::len word)"
  by (simp add: take_bit_eq_mask mask_eq_exp_minus_1)

lemma ucast_and_ff [simp]: "8 \<le> LENGTH('a) \<Longrightarrow> (ucast (w AND 0xFF :: 'a::len word) :: u8) = ucast w"
  unfolding and_ff by (rule bit_word_eqI) (auto simp: bit_simps)

lemma le_bytes_nth: "i < n \<Longrightarrow> le_bytes n w ! i = ucast (drop_bit (8 * i) w)"
  by (induction n arbitrary: w i) (auto simp: nth_Cons drop_bit_drop_bit algebra_simps split: nat.split)

lemma fold_le_bytes:
  "foldl (\<lambda>v i. v OR push_bit (i * 8) (ucast (ucast (drop_bit (8 * i) w) :: u8) AND 0xFF)) 0 [0..<n]
    = take_bit (8 * n) (w :: u64)"
proof (induction n)
  case (Suc n)
  have "take_bit (8 * n) w OR push_bit (n * 8) (ucast (ucast (drop_bit (8 * n) w) :: u8) AND 0xFF)
      = take_bit (8 * Suc n) w"
    unfolding and_ff by (rule bit_word_eqI) (auto simp: bit_simps algebra_simps)
  with Suc show ?case by (simp only: upt_Suc_append le0 foldl_append foldl.simps)
qed simp

lemma readLongLe_le_bytes: "length pre = off \<Longrightarrow> readLongLe (pre @ le_bytes 8 w @ r) off = w"
proof -
  assume off: "length pre = off"
  have "readLongLe (pre @ le_bytes 8 w @ r) off
      = foldl (\<lambda>v i. v OR push_bit (i * 8) (ucast (ucast (drop_bit (8 * i) w) :: u8) AND 0xFF)) 0 [0..<8]"
    unfolding readLongLe_def
    by (rule foldl_cong) (use off in \<open>auto simp: nth_append le_bytes_nth\<close>)
  also have "\<dots> = w"
    unfolding fold_le_bytes by (simp add: take_bit_word_eq_self)
  finally show ?thesis .
qed

section \<open>The frames as codecs\<close>

lemma parse_media: "FrameParser_parse (t # f # 0 # 0 # le_bytes 8 (pts :: u64) @ p) =
    Some \<lparr> vf_type = t, vf_isKeyframe = (f AND flag_KEYFRAME \<noteq> 0),
           vf_hasConfig = (f AND flag_CONFIG \<noteq> 0), vf_ptsUs = pts, vf_payload = p \<rparr>"
  using readLongLe_le_bytes [of "[t, f, 0, 0]" 4 pts p]
  by (simp add: FrameParser_parse_def FRAME_HEADER_LEN_def)

definition join_pts :: "u32 \<Rightarrow> u32 \<Rightarrow> u64" where
  "join_pts t n = ucast t OR push_bit 32 (ucast n)"

lemma le_bytes_join: "le_bytes 4 t @ le_bytes 4 n = le_bytes 8 (join_pts t n)"
proof (rule nth_equalityI)
  fix i assume "i < length (le_bytes 4 t @ le_bytes 4 n)"
  then have i: "i < 8" by simp
  show "(le_bytes 4 t @ le_bytes 4 n) ! i = le_bytes 8 (join_pts t n) ! i"
  proof (cases "i < 4")
    case True
    then have "(ucast (drop_bit (8 * i) t) :: u8) = ucast (drop_bit (8 * i) (join_pts t n))"
      by (intro bit_word_eqI) (auto simp: bit_simps join_pts_def)
    with True show ?thesis by (simp add: nth_append le_bytes_nth)
  next
    case False
    then obtain j where j: "i = 4 + j" by (metis le_Suc_ex not_less)
    have "(ucast (drop_bit (8 * j) n) :: u8) = ucast (drop_bit (8 * i) (join_pts t n))"
      using j i by (intro bit_word_eqI) (auto simp: bit_simps join_pts_def dest: bit_imp_le_length)
    with False i j show ?thesis by (simp add: nth_append le_bytes_nth)
  qed
qed simp

lemma split_pts:
  "(ucast (join_pts t n AND 0xFFFFFFFF) :: u32) = t"
  "(ucast (drop_bit 32 (join_pts t n) AND 0xFFFFFFFF) :: u32) = n"
  unfolding and_ffffffff join_pts_def
  by (rule bit_word_eqI, auto simp: bit_simps dest: bit_imp_le_length)+

lemma parse_file_frame: "FrameParser_parse (build_file_chunk_frame t n l p) =
    Some \<lparr> vf_type = frame_FILE, vf_isKeyframe = l, vf_hasConfig = False,
           vf_ptsUs = join_pts t n, vf_payload = p \<rparr>"
proof -
  have "build_file_chunk_frame t n l p =
      frame_FILE # (if l then flag_LAST_CHUNK else 0) # 0 # 0 # le_bytes 8 (join_pts t n) @ p"
    by (simp add: build_file_chunk_frame_def flip: le_bytes_join)
  then show ?thesis by (simp only: parse_media) (simp add: wire)
qed

lemma phone_file_frame [simp]: "phone_file (build_file_chunk_frame t n l p) = Some (t, n, l, p)"
  by (simp add: phone_file_def parse_file_frame file_fields_def split_pts)

text \<open>The two programs build the same FILE frames.\<close>

lemma same_file_frame: "buildFileChunkFrame t n l p = build_file_chunk_frame t n l p"
  by (simp add: buildFileChunkFrame_def build_file_chunk_frame_def Let_def FRAME_HEADER_LEN_def
      le_bytes_4 numeral_eq_Suc)

interpretation file_pair: wire_pair
  "\<lambda>(t, n, l, p). build_file_chunk_frame t n l p" parse_file_chunk
  "\<lambda>(t, n, l, p). buildFileChunkFrame t n l p" phone_file "\<lambda>_. True"
  by unfold_locales (simp_all split: prod.splits add: same_file_frame)

interpretation video_codec: tagged_frame
  "\<lambda>(p, pts, k, c). build_video_frame p pts k c" phone_video "\<lambda>_. True"
  frame_VIDEO FRAME_HEADER_LEN "\<lambda>(p, pts, k, c). length p"
  by unfold_locales
     (simp_all split: prod.splits add: phone_video_def build_video_frame_def parse_media Let_def wire)

interpretation audio_codec: tagged_frame
  "\<lambda>(p, pts). build_audio_frame p pts" phone_audio "\<lambda>_. True"
  frame_AUDIO FRAME_HEADER_LEN "\<lambda>(p, pts). length p"
  by unfold_locales
     (simp_all split: prod.splits add: phone_audio_def build_audio_frame_def parse_media wire)

interpretation file_video: frame_family
  "\<lambda>(t, n, l, p). build_file_chunk_frame t n l p" parse_file_chunk "\<lambda>_. True"
  frame_FILE FRAME_HEADER_LEN "\<lambda>(t, n, l, p). length p"
  "\<lambda>(p, pts, k, c). build_video_frame p pts k c" phone_video "\<lambda>_. True"
  frame_VIDEO "\<lambda>(p, pts, k, c). length p"
  by unfold_locales (simp add: wire)

interpretation file_audio: frame_family
  "\<lambda>(t, n, l, p). build_file_chunk_frame t n l p" parse_file_chunk "\<lambda>_. True"
  frame_FILE FRAME_HEADER_LEN "\<lambda>(t, n, l, p). length p"
  "\<lambda>(p, pts). build_audio_frame p pts" phone_audio "\<lambda>_. True"
  frame_AUDIO "\<lambda>(p, pts). length p"
  by unfold_locales (simp add: wire)

section \<open>Uploading a file\<close>

text \<open>
  The loop of \<^verbatim>\<open>uploadFile\<close>. One entry per iteration: whether the cancel flag is set, what
  \<^verbatim>\<open>read\<close> returns (an exception, end of file as the empty list, or the bytes read) and
  whether \<^verbatim>\<open>ws.send\<close> accepts the frame. The result is the frames handed to the socket and
  how the loop ended; every failure ends it with a \<^verbatim>\<open>FileTransferAbort\<close>.
\<close>

record upload_tick =
  ut_cancel :: bool
  ut_read :: "bytes option"
  ut_send_ok :: bool

datatype upload_end = Uploading | UploadDone | UploadAborted

fun upload_loop :: "u32 \<Rightarrow> u32 \<Rightarrow> upload_tick list \<Rightarrow> bytes list \<times> upload_end" where
  "upload_loop tid sq [] = ([], Uploading)"
| "upload_loop tid sq (k # ks) =
     (if ut_cancel k then ([], UploadAborted)
      else case ut_read k of
        None \<Rightarrow> ([], UploadAborted)
      | Some chunk \<Rightarrow>
          if chunk = [] then
            (if ut_send_ok k then ([buildFileChunkFrame tid sq True []], UploadDone)
             else ([], UploadAborted))
          else if ut_send_ok k then
            (let (fs, e) = upload_loop tid (sq + 1) ks
             in (buildFileChunkFrame tid sq False chunk # fs, e))
          else ([], UploadAborted))"

text \<open>The frames of a whole file in the given pieces.\<close>

fun upload_frames :: "u32 \<Rightarrow> u32 \<Rightarrow> bytes list \<Rightarrow> bytes list" where
  "upload_frames tid sq [] = [build_file_chunk_frame tid sq True []]"
| "upload_frames tid sq (c # cs) = build_file_chunk_frame tid sq False c # upload_frames tid (sq + 1) cs"

text \<open>The bytes the loop read before the end of the file.\<close>

definition file_read :: "upload_tick list \<Rightarrow> bytes" where
  "file_read ks = concat (map (\<lambda>k. the (ut_read k)) (takeWhile (\<lambda>k. ut_read k \<noteq> Some []) ks))"

lemma upload_loop_done:
  "upload_loop tid sq ks = (fs, UploadDone) \<Longrightarrow> \<exists>cs. fs = upload_frames tid sq cs \<and> concat cs = file_read ks"
proof (induction ks arbitrary: sq fs)
  case (Cons k ks)
  from Cons.prems obtain chunk where k: "\<not> ut_cancel k" "ut_read k = Some chunk" "ut_send_ok k"
    by (auto split: if_splits option.splits)
  show ?case
  proof (cases "chunk = []")
    case True
    with k Cons.prems show ?thesis
      by (intro exI [of _ "[]"]) (simp add: same_file_frame file_read_def)
  next
    case False
    with k Cons.prems obtain fs' where fs': "upload_loop tid (sq + 1) ks = (fs', UploadDone)"
      "fs = build_file_chunk_frame tid sq False chunk # fs'"
      by (auto simp: same_file_frame split: prod.splits)
    from Cons.IH [OF fs'(1)] obtain cs where "fs' = upload_frames tid (sq + 1) cs"
      "concat cs = file_read ks" by blast
    with False k fs' show ?thesis by (intro exI [of _ "chunk # cs"]) (simp add: file_read_def)
  qed
qed simp

lemma length_upload_frames [simp]: "length (upload_frames tid sq cs) = Suc (length cs)"
  by (induction cs arbitrary: sq) auto

section \<open>Properties\<close>

text \<open>
  FILE chunks interoperate in both directions: what the PC builds with
  \<^verbatim>\<open>build_file_chunk_frame\<close> the phone's \<^verbatim>\<open>FrameParser\<close> and dispatch read back as the same
  transfer id, sequence number, last flag and payload, and what the phone builds with
  \<^verbatim>\<open>buildFileChunkFrame\<close> (a differently written routine) the PC's \<^verbatim>\<open>parse_file_chunk\<close> reads
  back, for every value of each field.
\<close>

theorem file_chunk_interop:
  "phone_file (build_file_chunk_frame t n l p) = Some (t, n, l, p)
   \<and> parse_file_chunk (buildFileChunkFrame t n l p) = Some (t, n, l, p)
   \<and> parse_file_chunk (build_file_chunk_frame t n l p) = Some (t, n, l, p)"
  using file_pair.a_to_b [of "(t, n, l, p)"] file_pair.b_to_a [of "(t, n, l, p)"] by simp

text \<open>
  The phone recovers media frames: the time stamp, the payload and both flag bits of
  \<^verbatim>\<open>build_video_frame\<close>, the time stamp and payload of \<^verbatim>\<open>build_audio_frame\<close>; each frame is the
  12-byte header plus its payload, and the dispatch on the first byte never takes a media frame for
  a FILE chunk.
\<close>

theorem media_frame_roundtrip:
  "phone_video (build_video_frame p pts k c) = Some (p, pts, k, c)
   \<and> phone_audio (build_audio_frame p pts) = Some (p, pts)
   \<and> length (build_video_frame p pts k c) = FRAME_HEADER_LEN + length p
   \<and> length (build_audio_frame p pts) = FRAME_HEADER_LEN + length p
   \<and> phone_file (build_video_frame p pts k c) = None
   \<and> phone_file (build_audio_frame p pts) = None
   \<and> build_file_chunk_frame t n l q \<noteq> build_video_frame p pts k c
   \<and> build_file_chunk_frame t n l q \<noteq> build_audio_frame p pts"
proof -
  have "phone_file (build_video_frame p pts k c) = None" "phone_file (build_audio_frame p pts) = None"
    by (simp_all add: phone_file_def build_video_frame_def build_audio_frame_def parse_media Let_def wire)
  then show ?thesis
    using video_codec.decode_encode [of "(p, pts, k, c)"] audio_codec.decode_encode [of "(p, pts)"]
      video_codec.encode_length [of "(p, pts, k, c)"] audio_codec.encode_length [of "(p, pts)"]
      file_video.disjoint [of "(t, n, l, q)" "(p, pts, k, c)"]
      file_audio.disjoint [of "(t, n, l, q)" "(p, pts)"]
    by simp
qed

end
