(* ===== verification/Tunnel.thy ===== *)
theory Tunnel
  imports Codec Utf8
begin

text \<open>
  The binary tunnel framing between the relay and a PC host. The relay
  (\<^verbatim>\<open>relay/src/main.rs\<close>) and the server (\<^verbatim>\<open>server-pc/src/relay_client.rs\<close>) each carry
  their own copy of \<^verbatim>\<open>TunnelFrame\<close>, \<^verbatim>\<open>encode\<close>, \<^verbatim>\<open>decode\<close> and \<^verbatim>\<open>push_uuid\<close>; both
  copies are translated, the relay's without a prefix and the server's with the prefix
  \<open>pc_\<close>, over one datatype.
\<close>

datatype TunnelFrame =
    ClientOpen (frame_client: string)
  | ClientClose (frame_client: string)
  | Data (frame_client: string) (frame_text: bool) (frame_payload: bytes)

definition TUNNEL_HEADER_LEN :: nat where "TUNNEL_HEADER_LEN = 38"
definition TF_OPEN :: u8 where "TF_OPEN = 1"
definition TF_CLOSE :: u8 where "TF_CLOSE = 2"
definition TF_DATA :: u8 where "TF_DATA = 3"

lemmas tunnel_consts [wire] = TUNNEL_HEADER_LEN_def TF_OPEN_def TF_CLOSE_def TF_DATA_def

section \<open>The relay's copy\<close>

definition push_uuid :: "bytes \<Rightarrow> string \<Rightarrow> bytes" where
  "push_uuid buf uuid =
     (let b = replicate 36 (byte_of_char (CHR ''0''));
          src = as_bytes uuid;
          n = min (length src) 36
      in buf @ take n src @ drop n b)"

fun relay_encode :: "TunnelFrame \<Rightarrow> bytes" where
  "relay_encode (ClientOpen client_id) = push_uuid [TF_OPEN] client_id @ [0]"
| "relay_encode (ClientClose client_id) = push_uuid [TF_CLOSE] client_id @ [0]"
| "relay_encode (Data client_id txt payload) =
     push_uuid [TF_DATA] client_id @ [if txt then 1 else 0] @ payload"

definition relay_decode :: "bytes \<Rightarrow> TunnelFrame option" where
  "relay_decode b =
     (if length b < TUNNEL_HEADER_LEN then None
      else let mty = b ! 0 in
        case from_utf8 (take 36 (drop 1 b)) of None \<Rightarrow> None
        | Some client_id \<Rightarrow>
            let flag = b ! 37 in
            if mty = TF_OPEN then Some (ClientOpen client_id)
            else if mty = TF_CLOSE then Some (ClientClose client_id)
            else if mty = TF_DATA
              then Some (Data client_id (flag \<noteq> 0) (drop TUNNEL_HEADER_LEN b))
            else None)"

section \<open>The server's copy\<close>

definition pc_push_uuid :: "bytes \<Rightarrow> string \<Rightarrow> bytes" where
  "pc_push_uuid buf uuid =
     (let b = replicate 36 (byte_of_char (CHR ''0''));
          src = as_bytes uuid;
          n = min (length src) 36
      in buf @ take n src @ drop n b)"

fun pc_encode :: "TunnelFrame \<Rightarrow> bytes" where
  "pc_encode (ClientOpen client_id) = pc_push_uuid [TF_OPEN] client_id @ [0]"
| "pc_encode (ClientClose client_id) = pc_push_uuid [TF_CLOSE] client_id @ [0]"
| "pc_encode (Data client_id txt payload) =
     pc_push_uuid [TF_DATA] client_id @ [if txt then 1 else 0] @ payload"

definition pc_decode :: "bytes \<Rightarrow> TunnelFrame option" where
  "pc_decode b =
     (if length b < TUNNEL_HEADER_LEN then None
      else let mty = b ! 0 in
        case from_utf8 (take 36 (drop 1 b)) of None \<Rightarrow> None
        | Some client_id \<Rightarrow>
            let flag = b ! 37 in
            if mty = TF_OPEN then Some (ClientOpen client_id)
            else if mty = TF_CLOSE then Some (ClientClose client_id)
            else if mty = TF_DATA
              then Some (Data client_id (flag \<noteq> 0) (drop TUNNEL_HEADER_LEN b))
            else None)"

section \<open>Round trips\<close>

text \<open>Identifiers that fit the header exactly, as \<^verbatim>\<open>Uuid::new_v4().to_string()\<close> produces.\<close>

definition uuid_ok :: "string \<Rightarrow> bool" where
  "uuid_ok s = (length s = 36 \<and> rust_str s)"

definition wf_frame :: "TunnelFrame \<Rightarrow> bool" where
  "wf_frame f = uuid_ok (frame_client f)"

lemma uuid_ok_replicate: "of_char c < (0x80 :: nat) \<Longrightarrow> uuid_ok (replicate 36 c)"
  unfolding uuid_ok_def by (intro conjI rust_str_ascii) (simp_all only: is_ascii_def list_all_iff, auto)

lemma push_uuid_length [simp]: "length (push_uuid buf u) = length buf + 36"
  by (simp add: push_uuid_def Let_def)

lemma push_uuid_exact: "length u = 36 \<Longrightarrow> push_uuid buf u = buf @ as_bytes u"
  by (simp add: push_uuid_def Let_def)

lemma pc_push_uuid: "pc_push_uuid = push_uuid"
  by (intro ext) (simp add: pc_push_uuid_def push_uuid_def)

lemma pc_encode_eq: "pc_encode f = relay_encode f"
  by (cases f) (simp_all add: pc_push_uuid)

lemma pc_decode_eq: "pc_decode b = relay_decode b"
  by (simp add: pc_decode_def relay_decode_def)

lemma relay_decode_frame:
  assumes "length cid = 36"
  shows "relay_decode (t # as_bytes cid @ x # p) =
    (if rust_str cid then
       if t = TF_OPEN then Some (ClientOpen cid) else if t = TF_CLOSE then Some (ClientClose cid)
       else if t = TF_DATA then Some (Data cid (x \<noteq> 0) p) else None
     else None)"
proof -
  have "(t # as_bytes cid @ x # p) ! 37 = x" using assms by (simp add: nth_append)
  moreover have "drop 38 (t # as_bytes cid @ x # p) = p" using assms by simp
  moreover have "from_utf8 (as_bytes cid) = (if rust_str cid then Some cid else None)"
    by (simp add: from_utf8_def rust_str_def)
  ultimately show ?thesis
    using assms by (simp add: relay_decode_def Let_def TUNNEL_HEADER_LEN_def)
qed

lemma relay_decode_encode: "wf_frame f \<Longrightarrow> relay_decode (relay_encode f) = Some f"
  by (cases f) (auto simp: wf_frame_def uuid_ok_def push_uuid_exact relay_decode_frame wire)

interpretation tunnel: wire_pair relay_encode relay_decode pc_encode pc_decode wf_frame
  by unfold_locales (simp_all add: relay_decode_encode pc_decode_eq pc_encode_eq)

lemma relay_decode_Some:
  assumes "relay_decode b = Some f"
  shows "length b \<ge> 38 \<and> rust_str (frame_client f) \<and> as_bytes (frame_client f) = take 36 (drop 1 b)"
proof -
  from assms have len: "38 \<le> length b" by (simp add: relay_decode_def wire split: if_splits)
  with assms obtain cid where u: "from_utf8 (take 36 (drop 1 b)) = Some cid"
    by (auto simp: relay_decode_def Let_def wire split: option.splits)
  with assms len have "frame_client f = cid"
    by (auto simp: relay_decode_def Let_def wire split: if_splits)
  with len from_utf8_Some [OF u] show ?thesis by simp
qed

lemma relay_decode_wf: "relay_decode b = Some f \<Longrightarrow> wf_frame f"
proof -
  assume "relay_decode b = Some f"
  from relay_decode_Some [OF this] show ?thesis
    using length_as_bytes [of "frame_client f"] by (auto simp: wf_frame_def uuid_ok_def)
qed

lemma relay_decode_split:
  assumes "relay_decode b = Some f"
  shows "b = b ! 0 # as_bytes (frame_client f) @ b ! 37 # drop 38 b"
proof -
  from relay_decode_Some [OF assms] have len: "38 \<le> length b"
    and c: "as_bytes (frame_client f) = take 36 (drop 1 b)" by simp_all
  have "drop 1 b = take 36 (drop 1 b) @ drop 37 b"
    using append_take_drop_id [of 36 "drop 1 b"] by (simp del: append_take_drop_id)
  then have "b = take 1 b @ take 36 (drop 1 b) @ drop 37 b"
    by (metis append_take_drop_id)
  moreover have "take 1 b = [b ! 0]" using len by (cases b) auto
  moreover have "drop 37 b = b ! 37 # drop 38 b" using len Cons_nth_drop_Suc [of 37 b] by simp
  ultimately show ?thesis using c by simp
qed

lemma data_reencode:
  assumes d: "relay_decode b = Some (Data cid txt p)" and flag: "b ! 37 \<in> {0, 1}"
  shows "relay_encode (Data cid txt p) = b"
proof -
  note s = relay_decode_split [OF d]
  have len: "length cid = 36" using relay_decode_wf [OF d] by (simp add: wf_frame_def uuid_ok_def)
  have "b ! 0 = TF_DATA \<and> txt = (b ! 37 \<noteq> 0) \<and> p = drop 38 b"
    using d by (auto simp: relay_decode_def Let_def wire split: if_splits option.splits)
  then have "relay_encode (Data cid txt p) = b ! 0 # as_bytes cid @ b ! 37 # drop 38 b"
    using len flag by (auto simp: push_uuid_exact)
  with s show ?thesis by simp
qed

section \<open>Properties\<close>

text \<open>
  The relay and the PC agree on the tunnel format: every frame with a 36-byte identifier that
  either program encodes the other decodes to the same frame (open, close, or data with its text
  flag and its whole payload), and encodes again to the same bytes.
\<close>

theorem tunnel_interop:
  assumes "wf_frame f"
  shows "pc_decode (relay_encode f) = Some f \<and> relay_decode (pc_encode f) = Some f
    \<and> relay_encode f = pc_encode f"
  using tunnel.a_to_b [OF assms] tunnel.b_to_a [OF assms] tunnel.same_wire [of f] by simp

lemma tunnel_interop_witness:
  "pc_decode (relay_encode (Data (replicate 36 CHR ''a'') True [1, 2])) =
    Some (Data (replicate 36 CHR ''a'') True [1, 2])"
proof -
  have "wf_frame (Data (replicate 36 CHR ''a'') True [1, 2])"
    by (simp add: wf_frame_def uuid_ok_replicate)
  from tunnel_interop [OF this] show ?thesis by blast
qed

text \<open>
  Decoding a tunnel frame is exact on all input: whatever is accepted has a 38-byte header, a
  valid UTF-8 identifier of exactly 36 bytes and a known type, is read the same by both programs,
  and a data frame with a canonical flag byte is the encoding of what was decoded, so no byte of the
  payload is lost or added.
\<close>

theorem tunnel_decode_exact:
  assumes "relay_decode b = Some f"
  shows "pc_decode b = Some f \<and> wf_frame f \<and> 38 \<le> length b \<and> b ! 0 \<in> {TF_OPEN, TF_CLOSE, TF_DATA}
    \<and> (case f of Data cid txt p \<Rightarrow> p = drop 38 b \<and> (b ! 37 \<in> {0, 1} \<longrightarrow> relay_encode f = b)
        | _ \<Rightarrow> True)"
  using assms relay_decode_wf [OF assms] relay_decode_Some [OF assms] data_reencode [of b]
  by (auto simp: pc_decode_eq relay_decode_def Let_def wire
      split: TunnelFrame.splits if_splits option.splits)

lemma tunnel_decode_exact_witness:
  "pc_decode (relay_encode (Data (replicate 36 CHR ''b'') False [7])) =
    Some (Data (replicate 36 CHR ''b'') False [7])"
proof -
  have "wf_frame (Data (replicate 36 CHR ''b'') False [7])"
    by (simp add: wf_frame_def uuid_ok_replicate)
  from tunnel_decode_exact [OF relay_decode_encode [OF this]] show ?thesis by blast
qed

end
