(* ===== verification/Slot.thy ===== *)
theory Slot
  imports Main
begin

text \<open>
  The interface of a slot whose occupant is known by an instance number: the PC's
  \<^verbatim>\<open>FileSendBridge\<close> holds the connection that receives browser uploads in one, and the relay
  keeps one per host id in its \<^verbatim>\<open>online\<close> table. A new session overwrites the occupant; a
  session that ends releases the slot only if it is still its own. The lemmas say what that promises
  for every order of claims and releases; theories File_Send and Relay_Server interpret the locale.
\<close>

datatype ('i, 'v) slot_event = Claim 'i 'v | Release 'i

primrec slot_step ::
  "('i \<Rightarrow> 'v \<Rightarrow> 's \<Rightarrow> 's) \<Rightarrow> ('i \<Rightarrow> 's \<Rightarrow> 's) \<Rightarrow> ('i, 'v) slot_event \<Rightarrow> 's \<Rightarrow> 's" where
  "slot_step claim release (Claim i v) s = claim i v s"
| "slot_step claim release (Release i) s = release i s"

definition slot_run ::
  "('i \<Rightarrow> 'v \<Rightarrow> 's \<Rightarrow> 's) \<Rightarrow> ('i \<Rightarrow> 's \<Rightarrow> 's) \<Rightarrow> ('i, 'v) slot_event list \<Rightarrow> 's \<Rightarrow> 's" where
  "slot_run claim release es s = fold (slot_step claim release) es s"

locale owned_slot =
  fixes claim :: "'i \<Rightarrow> 'v \<Rightarrow> 's \<Rightarrow> 's"
    and release :: "'i \<Rightarrow> 's \<Rightarrow> 's"
    and holder :: "'s \<Rightarrow> ('i \<times> 'v) option"
  assumes holder_claim: "holder (claim i v s) = Some (i, v)"
    and release_own: "holder s = Some (i, v) \<Longrightarrow> holder (release i s) = None"
    and release_other: "holder s = Some (j, v) \<Longrightarrow> i \<noteq> j \<Longrightarrow> release i s = s"
    and release_empty: "holder s = None \<Longrightarrow> release i s = s"
begin

lemma slot_run_append: "slot_run claim release (es @ fs) s = slot_run claim release fs (slot_run claim release es s)"
  by (simp add: slot_run_def)

lemma release_stale: "\<forall>v. holder s \<noteq> Some (i, v) \<Longrightarrow> release i s = s"
  by (cases "holder s") (auto intro: release_empty release_other)

lemma holder_release: "holder (release i s) =
    (case holder s of Some (j, v) \<Rightarrow> if j = i then None else Some (j, v) | None \<Rightarrow> None)"
proof (cases "holder s")
  case None
  then show ?thesis by (simp add: release_empty)
next
  case (Some jv)
  then show ?thesis
    by (cases jv; cases "fst jv = i") (auto simp: release_own release_other)
qed

text \<open>While no one claims, an occupant keeps the slot until it releases it itself.\<close>

lemma no_claim_keeps:
  assumes "\<forall>e\<in>set es. \<exists>j. e = Release j"
  shows "holder (slot_run claim release es s) =
    (case holder s of Some (i, v) \<Rightarrow> if Release i \<in> set es then None else Some (i, v) | None \<Rightarrow> None)"
  using assms
proof (induction es arbitrary: s)
  case Nil
  then show ?case by (auto simp: slot_run_def split: option.split)
next
  case (Cons e es)
  then obtain j where e: "e = Release j" by auto
  from Cons have IH: "\<And>s. holder (slot_run claim release es s) = (case holder s of Some (i, v) \<Rightarrow>
      if Release i \<in> set es then None else Some (i, v) | None \<Rightarrow> None)" by simp
  have "slot_run claim release (e # es) s = slot_run claim release es (release j s)" by (simp add: slot_run_def e)
  then show ?case
    by (auto simp: IH holder_release e split: option.split)
qed

text \<open>The last claim decides: its owner holds the slot unless it released it afterwards.\<close>

lemma last_claim_holds:
  assumes "\<forall>e\<in>set post. \<exists>j. e = Release j"
  shows "holder (slot_run claim release (pre @ Claim i v # post) s) =
    (if Release i \<in> set post then None else Some (i, v))"
proof -
  have "slot_run claim release (pre @ Claim i v # post) s = slot_run claim release post (claim i v (slot_run claim release pre s))"
    by (simp add: slot_run_def)
  then show ?thesis by (simp add: no_claim_keeps [OF assms] holder_claim)
qed

end

end
