(* ===== verification/Pairing.thy ===== *)
theory Pairing
  imports Prelude
begin

text \<open>
  The pairing store (\<^verbatim>\<open>server-pc/src/pairing.rs\<close>, constant from \<^verbatim>\<open>config.rs\<close>): a six
  digit code with a time to live, consumed by the first successful attempt, and the 32-byte session
  key. The store is behind a mutex, so every method is one atomic step on the record. An
  \<^verbatim>\<open>Instant\<close> is a number of nanoseconds; the random draws and the current time are arguments.
\<close>

section \<open>State and operations\<close>

definition PAIRING_CODE_TTL_SECS :: nat where "PAIRING_CODE_TTL_SECS = 300"

definition from_secs :: "nat \<Rightarrow> nat" where "from_secs s = s * 1000000000"

record Inner =
  p_code :: string
  p_key :: bytes
  p_created :: nat
  p_consumed :: bool

datatype VerifyResult = VOk | VBadCode | VExpired | VUsed

text \<open>\<^verbatim>\<open>(0..6).map(|_| rng.gen_range(0..10).to_string()).collect()\<close>; \<open>draw i\<close> is the \<open>i\<close>-th draw.\<close>

definition fresh_code :: "(nat \<Rightarrow> nat) \<Rightarrow> string" where
  "fresh_code draw = concat (map (\<lambda>i. show_nat (draw i)) [0..<6])"

definition new_with_fresh_code :: "(nat \<Rightarrow> nat) \<Rightarrow> bytes \<Rightarrow> nat \<Rightarrow> Inner" where
  "new_with_fresh_code draw key now =
     \<lparr> p_code = fresh_code draw, p_key = key, p_created = now, p_consumed = False \<rparr>"

definition current_qr_fields :: "(bytes \<Rightarrow> string) \<Rightarrow> Inner \<Rightarrow> string \<times> string" where
  "current_qr_fields b64url g = (p_code g, b64url (p_key g))"

definition verify_and_consume :: "string \<Rightarrow> nat \<Rightarrow> Inner \<Rightarrow> VerifyResult \<times> Inner" where
  "verify_and_consume candidate now g =
     (if p_consumed g then (VUsed, g)
      else if now - p_created g > from_secs PAIRING_CODE_TTL_SECS then (VExpired, g)
      else if p_code g \<noteq> candidate then (VBadCode, g)
      else (VOk, g\<lparr>p_consumed := True\<rparr>))"

definition rotate_code :: "(nat \<Rightarrow> nat) \<Rightarrow> bytes \<Rightarrow> nat \<Rightarrow> Inner \<Rightarrow> Inner" where
  "rotate_code draw key now g =
     g\<lparr>p_code := fresh_code draw, p_key := key, p_created := now, p_consumed := False\<rparr>"

section \<open>Histories\<close>

text \<open>
  Any number of sessions attempt codes while the operator rotates them; the mutex puts the calls in
  some order. A history is that order; \<open>run_history\<close> collects the answers.
\<close>

datatype pairing_call = Attempt string nat | Rotation "nat \<Rightarrow> nat" bytes nat

fun run_history :: "pairing_call list \<Rightarrow> Inner \<Rightarrow> (string \<times> nat \<times> VerifyResult) list \<times> Inner" where
  "run_history [] g = ([], g)"
| "run_history (Attempt cand now # cs) g =
     (let (r, g) = verify_and_consume cand now g; (rs, g) = run_history cs g
      in ((cand, now, r) # rs, g))"
| "run_history (Rotation draw key now # cs) g = run_history cs (rotate_code draw key now g)"

fun is_attempt :: "pairing_call \<Rightarrow> bool" where
  "is_attempt (Attempt cand now) = True"
| "is_attempt (Rotation draw key now) = False"

definition accepted :: "pairing_call list \<Rightarrow> Inner \<Rightarrow> (string \<times> nat \<times> VerifyResult) list" where
  "accepted cs g = filter (\<lambda>(c, t, r). r = VOk) (fst (run_history cs g))"

section \<open>The store as a one-shot ticket\<close>

text \<open>What the store promises: the code that would be accepted at a time, if any.\<close>

definition ticket :: "Inner \<Rightarrow> nat \<Rightarrow> string option" where
  "ticket g now = (if p_consumed g \<or> now > p_created g + 300 * 1000000000 then None else Some (p_code g))"

lemma verify_ticket:
  "fst (verify_and_consume c now g) = VOk \<longleftrightarrow> ticket g now = Some c"
  by (auto simp: verify_and_consume_def ticket_def from_secs_def PAIRING_CODE_TTL_SECS_def)

lemma verify_consumed: "p_consumed g \<Longrightarrow> verify_and_consume c now g = (VUsed, g)"
  by (simp add: verify_and_consume_def)

lemma verify_state: "snd (verify_and_consume c now g) =
    (if fst (verify_and_consume c now g) = VOk then g\<lparr>p_consumed := True\<rparr> else g)"
  by (simp add: verify_and_consume_def)

lemma accepted_Nil [simp]: "accepted [] g = []"
  by (simp add: accepted_def)

lemma accepted_Attempt [simp]: "accepted (Attempt c t # cs) g =
    (if ticket g t = Some c then (c, t, VOk) # accepted cs (g\<lparr>p_consumed := True\<rparr>) else accepted cs g)"
  using verify_ticket [of c t g] verify_state [of c t g]
  by (cases "verify_and_consume c t g") (auto simp: accepted_def Let_def split: prod.splits)

lemma accepted_Rotation [simp]:
  "accepted (Rotation d k t # cs) g = accepted cs (rotate_code d k t g)"
  by (simp add: accepted_def)

lemma accepted_consumed:
  "p_consumed g \<Longrightarrow> list_all is_attempt cs \<Longrightarrow> accepted cs g = []"
  by (induction cs rule: list.induct; simp)
     (metis accepted_Attempt is_attempt.elims(2) option.distinct(1) ticket_def)

lemma accepted_bound:
  "length (accepted cs g) \<le>
     length (filter (Not \<circ> is_attempt) cs) + (if p_consumed g then 0 else 1)"
proof (induction cs arbitrary: g)
  case (Cons c cs)
  show ?case
  proof (cases c)
    case (Attempt cand t)
    then show ?thesis
      using Cons.IH [of g] Cons.IH [of "g\<lparr>p_consumed := True\<rparr>"] by (auto simp: ticket_def)
  next
    case (Rotation d k t)
    then show ?thesis using Cons.IH [of "rotate_code d k t g"] by (auto simp: rotate_code_def)
  qed
qed simp

section \<open>Properties\<close>

text \<open>
  A pairing attempt succeeds exactly when the candidate is the code on display, it has not been
  used and it is at most 300 s old; success and only success consumes it: after a success every
  later attempt answers Used, whatever the candidate and the time, and a failed attempt leaves the
  store as it was.
\<close>

theorem verify_and_consume_spec:
  "(fst (verify_and_consume c now g) = VOk \<longleftrightarrow> ticket g now = Some c)
   \<and> (ticket g now = Some c \<longrightarrow>
        (\<forall>c' t'. verify_and_consume c' t' (snd (verify_and_consume c now g)) =
           (VUsed, snd (verify_and_consume c now g))))
   \<and> (ticket g now \<noteq> Some c \<longrightarrow> snd (verify_and_consume c now g) = g)"
  using verify_ticket [of c now g] verify_state [of c now g] by (auto simp: verify_consumed)

lemma verify_and_consume_spec_witness:
  "fst (verify_and_consume ''123456'' (300 * 1000000000)
      \<lparr>p_code = ''123456'', p_key = [], p_created = 0, p_consumed = False\<rparr>) = VOk
   \<and> fst (verify_and_consume ''123456'' (300 * 1000000000 + 1)
      \<lparr>p_code = ''123456'', p_key = [], p_created = 0, p_consumed = False\<rparr>) \<noteq> VOk"
  by (auto simp: verify_and_consume_spec ticket_def)

text \<open>
  C25. Over every history of attempts and rotations, in any order and with any times, there are never
  more accepted attempts than codes that were issued: one for a code that is still unused at the
  start and one per rotation. In particular a code is never accepted twice.
\<close>

theorem pairing_one_shot:
  "length (accepted cs (new_with_fresh_code draw key t0)) \<le> Suc (length (filter (Not \<circ> is_attempt) cs))"
  using accepted_bound [of cs "new_with_fresh_code draw key t0"] by (simp add: new_with_fresh_code_def)

end
