(* ===== verification/File_Send.thy ===== *)
theory File_Send
  imports Prelude Slot
begin

text \<open>
  The bridge between the browser upload page and the connected phone
  (\<^verbatim>\<open>server-pc/src/file_send.rs\<close>): the command type, the single slot with its instance
  numbers, and the transfer id generator. The slot's sender is a parameter type \<open>'tx\<close>; whether
  the send succeeds is the channel's answer and an argument of \<open>dispatch\<close>.
\<close>

section \<open>State and operations\<close>

datatype FileSendCmd =
    SendFile u32 string u64 string   \<comment> \<open>id, name, size, temp_path\<close>
  | CancelFile u32                   \<comment> \<open>id\<close>

record 'tx FileSendBridge =
  fb_inner :: "(u64 \<times> 'tx) option"
  fb_next_instance :: u64
  fb_next_transfer_id :: u32

definition new_bridge :: "'tx FileSendBridge" where
  "new_bridge = \<lparr> fb_inner = None, fb_next_instance = 0, fb_next_transfer_id = 1 \<rparr>"

definition fetch_add_tid :: "'tx FileSendBridge \<Rightarrow> u32 \<times> 'tx FileSendBridge" where
  "fetch_add_tid b = (fb_next_transfer_id b, b\<lparr>fb_next_transfer_id := fb_next_transfer_id b + 1\<rparr>)"

definition allocate_transfer_id :: "'tx FileSendBridge \<Rightarrow> u32 \<times> 'tx FileSendBridge" where
  "allocate_transfer_id b =
     (let (tid, b) = fetch_add_tid b
      in if tid = 0 then fetch_add_tid b else (tid, b))"

text \<open>
  \<^verbatim>\<open>register\<close> takes its instance number before it locks the slot, so the two halves can
  interleave with other sessions; they are separate steps.
\<close>

definition fetch_add_instance :: "'tx FileSendBridge \<Rightarrow> u64 \<times> 'tx FileSendBridge" where
  "fetch_add_instance b = (fb_next_instance b, b\<lparr>fb_next_instance := fb_next_instance b + 1\<rparr>)"

definition occupy :: "u64 \<Rightarrow> 'tx \<Rightarrow> 'tx FileSendBridge \<Rightarrow> 'tx FileSendBridge" where
  "occupy inst tx b = b\<lparr>fb_inner := Some (inst, tx)\<rparr>"

definition register :: "'tx \<Rightarrow> 'tx FileSendBridge \<Rightarrow> u64 \<times> 'tx FileSendBridge" where
  "register tx b = (let (inst, b) = fetch_add_instance b in (inst, occupy inst tx b))"

definition deregister :: "u64 \<Rightarrow> 'tx FileSendBridge \<Rightarrow> 'tx FileSendBridge" where
  "deregister reg b =
     (case fb_inner b of
        Some (cur, tx) \<Rightarrow> if cur = reg then b\<lparr>fb_inner := None\<rparr> else b
      | None \<Rightarrow> b)"

datatype dispatch_error = NoSession | SessionGone

definition dispatch :: "('tx \<Rightarrow> FileSendCmd \<Rightarrow> bool) \<Rightarrow> FileSendCmd \<Rightarrow> 'tx FileSendBridge \<Rightarrow>
    dispatch_error + ('tx \<times> FileSendCmd)" where
  "dispatch send_ok cmd b =
     (case fb_inner b of
        None \<Rightarrow> Inl NoSession
      | Some (inst, tx) \<Rightarrow> if send_ok tx cmd then Inr (tx, cmd) else Inl SessionGone)"

definition dispatch_dry_run :: "'tx FileSendBridge \<Rightarrow> dispatch_error + unit" where
  "dispatch_dry_run b = (if fb_inner b \<noteq> None then Inr () else Inl NoSession)"

section \<open>The slot contract\<close>

interpretation bridge: owned_slot occupy deregister fb_inner
  by unfold_locales (auto simp: occupy_def deregister_def)

section \<open>Transfer ids\<close>

fun allocate_many :: "nat \<Rightarrow> 'tx FileSendBridge \<Rightarrow> u32 list \<times> 'tx FileSendBridge" where
  "allocate_many 0 b = ([], b)"
| "allocate_many (Suc n) b =
     (let (tid, b) = allocate_transfer_id b; (ids, b) = allocate_many n b in (tid # ids, b))"

lemma allocate_nonzero: "fst (allocate_transfer_id b) \<noteq> 0"
  by (auto simp: allocate_transfer_id_def fetch_add_tid_def)

text \<open>The ids are a run of consecutive counter values with the zero left out.\<close>

definition counter_run :: "u32 \<Rightarrow> nat \<Rightarrow> u32 list" where
  "counter_run c m = map (\<lambda>i. c + word_of_nat i) [0..<m]"

lemma counter_run_Suc: "counter_run c (Suc m) = c # counter_run (c + 1) m"
  unfolding counter_run_def
  by (subst upt_rec) (auto simp: map_Suc_upt [symmetric] comp_def algebra_simps simp del: upt_Suc)

lemma counter_run_distinct: "m \<le> 2 ^ 32 \<Longrightarrow> distinct (counter_run c m)"
  unfolding counter_run_def distinct_map
  by (auto simp: inj_on_def word_of_nat_eq_iff take_bit_nat_eq_self_iff take_bit_nat_def)

lemma allocate_many_ids:
  "\<exists>m. fst (allocate_many n b) = filter (\<lambda>i. i \<noteq> 0) (counter_run (fb_next_transfer_id b) m)
     \<and> fb_next_transfer_id (snd (allocate_many n b)) = fb_next_transfer_id b + word_of_nat m
     \<and> n \<le> m"
proof (induction n arbitrary: b)
  case 0
  show ?case by (rule exI [of _ 0]) (simp add: counter_run_def)
next
  case (Suc n)
  show ?case
  proof (cases "fb_next_transfer_id b = 0")
    case True
    define b' where "b' = b\<lparr>fb_next_transfer_id := 2\<rparr>"
    have a: "allocate_transfer_id b = (1, b')"
      using True by (simp add: allocate_transfer_id_def fetch_add_tid_def b'_def)
    obtain m where m: "fst (allocate_many n b') = filter (\<lambda>i. i \<noteq> 0) (counter_run 2 m)"
      "fb_next_transfer_id (snd (allocate_many n b')) = 2 + word_of_nat m" "n \<le> m"
      using Suc.IH [of b'] by (auto simp: b'_def)
    show ?thesis
      by (rule exI [of _ "Suc (Suc m)"])
         (use m True in \<open>simp add: a split_beta counter_run_Suc algebra_simps\<close>)
  next
    case False
    define b' where "b' = b\<lparr>fb_next_transfer_id := fb_next_transfer_id b + 1\<rparr>"
    have a: "allocate_transfer_id b = (fb_next_transfer_id b, b')"
      using False by (simp add: allocate_transfer_id_def fetch_add_tid_def b'_def)
    obtain m where m: "fst (allocate_many n b') =
        filter (\<lambda>i. i \<noteq> 0) (counter_run (fb_next_transfer_id b + 1) m)"
      "fb_next_transfer_id (snd (allocate_many n b')) = fb_next_transfer_id b + 1 + word_of_nat m"
      "n \<le> m"
      using Suc.IH [of b'] by (auto simp: b'_def)
    show ?thesis
      by (rule exI [of _ "Suc m"])
         (use m False in \<open>simp add: a split_beta counter_run_Suc algebra_simps\<close>)
  qed
qed

lemma allocate_many_length: "length (fst (allocate_many n b)) = n"
  by (induction n arbitrary: b) (auto simp: split_beta)

lemma counter_run_append: "counter_run c (m + k) = counter_run c m @ counter_run (c + word_of_nat m) k"
  by (induction m arbitrary: c)
     (simp_all add: counter_run_Suc algebra_simps, simp add: counter_run_def)

lemma counter_run_full: "set (counter_run c (2 ^ 32)) = UNIV"
proof -
  have "card (set (counter_run c (2 ^ 32))) = 2 ^ 32"
    using distinct_card [OF counter_run_distinct [of "2 ^ 32" c]] by (simp add: counter_run_def)
  moreover have "card (UNIV :: u32 set) = 2 ^ 32" by (simp add: card_word)
  ultimately show ?thesis by (intro card_subset_eq) simp_all
qed

lemma counter_run_full_nonzero:
  "length (filter (\<lambda>i. i \<noteq> 0) (counter_run c (2 ^ 32))) = 2 ^ 32 - 1"
proof -
  let ?f = "filter (\<lambda>i. i \<noteq> 0) (counter_run c (2 ^ 32))"
  have "distinct ?f" by (simp add: counter_run_distinct)
  moreover have "set ?f = UNIV - {0}" using counter_run_full [of c] by auto
  ultimately have "length ?f = card (UNIV - {0 :: u32})" by (metis distinct_card)
  then show ?thesis by (simp add: card_Diff_singleton card_word)
qed

lemma filtered_run_distinct:
  assumes "length (filter (\<lambda>i. i \<noteq> 0) (counter_run c m)) \<le> 2 ^ 32 - 1"
  shows "distinct (filter (\<lambda>i. i \<noteq> 0) (counter_run c m))"
proof (cases "m \<le> 2 ^ 32")
  case True
  then show ?thesis by (simp add: counter_run_distinct)
next
  case False
  then obtain k where m: "m = 2 ^ 32 + k" by (metis le_Suc_ex nat_le_linear)
  have s: "filter (\<lambda>i. i \<noteq> 0) (counter_run c m) = filter (\<lambda>i. i \<noteq> 0) (counter_run c (2 ^ 32))
      @ filter (\<lambda>i. i \<noteq> 0) (counter_run (c + word_of_nat (2 ^ 32)) k)"
    unfolding m counter_run_append by (rule filter_append)
  with assms have "filter (\<lambda>i. i \<noteq> 0) (counter_run (c + word_of_nat (2 ^ 32)) k) = []"
    by (simp only: length_append counter_run_full_nonzero length_0_conv [symmetric])
  with s show ?thesis by (simp only: append_Nil2 distinct_filter counter_run_distinct order_refl)
qed

section \<open>Properties\<close>

text \<open>
  Transfer ids are never 0 and never repeat among any 4,294,967,295 consecutive allocations,
  from any counter value, the wrap-around at 2^32 included.
\<close>

theorem transfer_ids_distinct:
  assumes "n \<le> 2 ^ 32 - 1"
  shows "0 \<notin> set (fst (allocate_many n b)) \<and> distinct (fst (allocate_many n b))
    \<and> length (fst (allocate_many n b)) = n"
proof -
  obtain m where m: "fst (allocate_many n b) =
      filter (\<lambda>i. i \<noteq> 0) (counter_run (fb_next_transfer_id b) m)"
    using allocate_many_ids by blast
  show ?thesis
    using filtered_run_distinct [of "fb_next_transfer_id b" m] allocate_many_length [of n b] assms
    by (simp add: m)
qed

lemma transfer_ids_distinct_witness:
  "distinct (fst (allocate_many 3 ((new_bridge :: string FileSendBridge)\<lparr>fb_next_transfer_id := - 1\<rparr>)))
   \<and> 0 \<notin> set (fst (allocate_many 3 ((new_bridge :: string FileSendBridge)\<lparr>fb_next_transfer_id := - 1\<rparr>)))"
  using transfer_ids_distinct [of 3 "(new_bridge :: string FileSendBridge)\<lparr>fb_next_transfer_id := - 1\<rparr>"] by simp



end
