(* ===== verification/Deps.thy ===== *)
theory Deps
  imports Protocol Utf8
begin

text \<open>
  The third-party functions the program calls, as one record of parameters: hashing (sha2, hmac),
  base64, serde's two directions for the control messages. Nothing is assumed about them here; a
  property that relies on documented behaviour (base64 decodes what it encoded, two inputs that do
  not collide) names it as a hypothesis. The standard library's \<^verbatim>\<open>{b:02x}\<close> formatting is
  modelled, and the copies of the hex helpers with it.
\<close>

record deps =
  d_sha256 :: "bytes \<Rightarrow> bytes"
  d_hmac_sha256 :: "bytes \<Rightarrow> bytes \<Rightarrow> bytes"       \<comment> \<open>key, message\<close>
  d_b64url :: "bytes \<Rightarrow> string"
  d_b64url_dec :: "string \<Rightarrow> bytes option"
  d_b64std :: "bytes \<Rightarrow> string"
  d_to_json :: "ServerMsg \<Rightarrow> string"
  d_from_json :: "string \<Rightarrow> ClientMsg option"

section \<open>Lower-case hexadecimal\<close>

definition hex_digit :: "nat \<Rightarrow> char" where
  "hex_digit d = char_of (if d < 10 then 48 + d else 87 + d)"

definition hex_byte :: "u8 \<Rightarrow> string" where
  "hex_byte b = [hex_digit (unat b div 16), hex_digit (unat b mod 16)]"

definition hex_encode :: "bytes \<Rightarrow> string" where
  "hex_encode bs = fold (\<lambda>b s. s @ hex_byte b) bs []"

definition sha256_hex :: "deps \<Rightarrow> bytes \<Rightarrow> string" where
  "sha256_hex D input = fold (\<lambda>b s. s @ hex_byte b) (d_sha256 D input) []"

lemma fold_hex: "fold (\<lambda>b s. s @ hex_byte b) bs acc = acc @ concat (map hex_byte bs)"
  by (induction bs arbitrary: acc) auto

lemma hex_encode_concat: "hex_encode bs = concat (map hex_byte bs)"
  by (simp add: hex_encode_def fold_hex)

lemma sha256_hex_encode: "sha256_hex D input = hex_encode (d_sha256 D input)"
  by (simp add: sha256_hex_def hex_encode_def)

lemma length_hex_encode [simp]: "length (hex_encode bs) = 2 * length bs"
  by (induction bs) (simp_all add: hex_encode_concat hex_byte_def)

lemma hex_digit_inject: "c < 16 \<Longrightarrow> d < 16 \<Longrightarrow> hex_digit c = hex_digit d \<longleftrightarrow> c = d"
  by (auto simp: hex_digit_def split: if_splits dest!: arg_cong [where f = "of_char :: char \<Rightarrow> nat"])

lemma hex_byte_inject: "hex_byte a = hex_byte b \<longleftrightarrow> a = b"
proof
  assume h: "hex_byte a = hex_byte b"
  have "unat a < 256" "unat b < 256" using unsigned_less [of a] unsigned_less [of b] by simp_all
  then have "unat a div 16 < 16" "unat b div 16 < 16" by simp_all
  with h have "unat a div 16 = unat b div 16" "unat a mod 16 = unat b mod 16"
    by (simp_all add: hex_byte_def hex_digit_inject)
  then have "unat a = unat b" by (metis mult_div_mod_eq)
  then show "a = b" by (simp add: word_unat_eq_iff)
qed simp

lemma hex_encode_inject [simp]: "hex_encode a = hex_encode b \<longleftrightarrow> a = b"
proof (induction a arbitrary: b)
  case Nil
  then show ?case by (cases b) (simp_all add: hex_encode_concat hex_byte_def)
next
  case (Cons x a)
  show ?case
  proof (cases b)
    case Nil
    then show ?thesis by (simp add: hex_encode_concat hex_byte_def)
  next
    case (Cons y b')
    have "hex_encode (x # a) = hex_encode b \<longleftrightarrow> hex_byte x = hex_byte y \<and> hex_encode a = hex_encode b'"
      unfolding Cons by (auto simp: hex_encode_concat hex_byte_def)
    with Cons.IH Cons show ?thesis by (simp add: hex_byte_inject)
  qed
qed

lemma sha256_hex_inject [simp]:
  "sha256_hex D x = sha256_hex D y \<longleftrightarrow> d_sha256 D x = d_sha256 D y"
  by (simp add: sha256_hex_encode)

text \<open>\<^verbatim>\<open>base64_url_no_pad\<close> of \<^verbatim>\<open>trusted_devices.rs\<close> and of the relay's \<^verbatim>\<open>main.rs\<close>.\<close>

definition base64_url_no_pad :: "deps \<Rightarrow> bytes \<Rightarrow> string" where
  "base64_url_no_pad D bs = d_b64url D bs"

text \<open>A concrete instance for evaluation: identity hash, hexadecimal in the place of base64.\<close>

definition toy_deps :: deps where
  "toy_deps = \<lparr> d_sha256 = (\<lambda>b. b), d_hmac_sha256 = (\<lambda>k m. k @ m), d_b64url = hex_encode,
     d_b64url_dec = (\<lambda>s. if s = ''!'' then None else Some (as_bytes s)), d_b64std = hex_encode,
     d_to_json = (\<lambda>m. ''''), d_from_json = (\<lambda>s. None) \<rparr>"

end
