(* ===== verification/Trusted_Devices.thy ===== *)
theory Trusted_Devices
  imports Deps
begin

text \<open>
  The long-lived trust store (\<^verbatim>\<open>server-pc/src/trusted_devices.rs\<close>): the list of devices behind
  a mutex and its JSON file, replaced by a rename of a sibling temporary file. serde's two
  directions for the file, the random token, the UUID and the outcome of every file operation are
  arguments; a failed write may leave anything in the temporary file.
\<close>

section \<open>State\<close>

record TrustedDevice =
  td_device_id :: string
  td_token_hash :: string
  td_device_name :: string
  td_created_unix_ms :: u64
  td_last_seen_unix_ms :: u64

record TrustedDevicesFile =
  tf_schema :: u32
  tf_devices :: "TrustedDevice list"

definition CURRENT_SCHEMA :: u32 where "CURRENT_SCHEMA = 1"

definition default_file :: TrustedDevicesFile where
  "default_file = \<lparr> tf_schema = 0, tf_devices = [] \<rparr>"

text \<open>The store, with the two files it works on.\<close>

record TrustedDevicesStore =
  ts_inner :: TrustedDevicesFile
  ts_disk :: "bytes option"
  ts_tmp :: "bytes option"

datatype VerifyOutcome = TOk string | TUnknownDevice | TBadToken

datatype store_error = NoStateDir | MkdirFailed | JsonFailed | WriteFailed | RenameFailed

datatype read_result = ReadOk bytes | ReadNotFound | ReadErr

text \<open>What the file system answers to one save; \<open>WriteErr\<close> carries what is left of the temporary file.\<close>

datatype write_result = WriteOk | WriteErr "bytes option"

record save_io =
  io_write :: write_result
  io_rename_ok :: bool

section \<open>Operations\<close>

definition open_store :: "(bytes \<Rightarrow> TrustedDevicesFile option) \<Rightarrow> bool \<Rightarrow> read_result \<Rightarrow>
    bytes option \<Rightarrow> bytes option \<Rightarrow> store_error + TrustedDevicesStore" where
  "open_store parse mkdir_ok rd disk tmp =
     (if \<not> mkdir_ok then Inl MkdirFailed
      else let inner =
             (case rd of
                ReadOk b \<Rightarrow> (case parse b of
                   Some f \<Rightarrow> if tf_schema f = CURRENT_SCHEMA then f else default_file
                 | None \<Rightarrow> default_file)
              | ReadNotFound \<Rightarrow> default_file
              | ReadErr \<Rightarrow> default_file)
           in Inr \<lparr> ts_inner = \<lparr> tf_schema = CURRENT_SCHEMA, tf_devices = tf_devices inner \<rparr>,
                    ts_disk = disk, ts_tmp = tmp \<rparr>)"

definition save :: "(TrustedDevicesFile \<Rightarrow> bytes option) \<Rightarrow> save_io \<Rightarrow> TrustedDevicesStore \<Rightarrow>
    (store_error + unit) \<times> TrustedDevicesStore" where
  "save ser io st =
     (case ser (ts_inner st) of
        None \<Rightarrow> (Inl JsonFailed, st)
      | Some b \<Rightarrow>
          (case io_write io of
             WriteErr left_over \<Rightarrow> (Inl WriteFailed, st\<lparr>ts_tmp := left_over\<rparr>)
           | WriteOk \<Rightarrow>
               let st = st\<lparr>ts_tmp := Some b\<rparr>
               in if io_rename_ok io
                  then (Inr (), st\<lparr>ts_disk := ts_tmp st, ts_tmp := None\<rparr>)
                  else (Inl RenameFailed, st)))"

definition mint :: "deps \<Rightarrow> (TrustedDevicesFile \<Rightarrow> bytes option) \<Rightarrow> bytes \<Rightarrow> string \<Rightarrow> u64 \<Rightarrow> save_io \<Rightarrow>
    string \<Rightarrow> TrustedDevicesStore \<Rightarrow> (store_error + (string \<times> string)) \<times> TrustedDevicesStore" where
  "mint D ser token_bytes uuid now_ms io device_name st =
     (let token = base64_url_no_pad D token_bytes;
          device_id = uuid;
          token_hash = sha256_hex D (as_bytes token);
          dev = \<lparr> td_device_id = device_id, td_token_hash = token_hash, td_device_name = device_name,
                  td_created_unix_ms = now_ms, td_last_seen_unix_ms = now_ms \<rparr>;
          f = ts_inner st;
          st = st\<lparr>ts_inner := f\<lparr>tf_devices := tf_devices f @ [dev]\<rparr>\<rparr>;
          (r, st) = save ser io st
      in (case r of Inl e \<Rightarrow> Inl e | Inr _ \<Rightarrow> Inr (device_id, token), st))"

text \<open>\<^verbatim>\<open>iter_mut().find(..)\<close>: the first device with the id, and the list with it replaced.\<close>

definition find_device :: "string \<Rightarrow> TrustedDevice list \<Rightarrow> TrustedDevice option" where
  "find_device device_id ds = find (\<lambda>d. td_device_id d = device_id) ds"

fun update_first :: "string \<Rightarrow> (TrustedDevice \<Rightarrow> TrustedDevice) \<Rightarrow> TrustedDevice list \<Rightarrow> TrustedDevice list" where
  "update_first device_id f [] = []"
| "update_first device_id f (d # ds) =
     (if td_device_id d = device_id then f d # ds else d # update_first device_id f ds)"

definition verify :: "deps \<Rightarrow> (TrustedDevicesFile \<Rightarrow> bytes option) \<Rightarrow> u64 \<Rightarrow> save_io \<Rightarrow>
    string \<Rightarrow> string \<Rightarrow> TrustedDevicesStore \<Rightarrow> VerifyOutcome \<times> TrustedDevicesStore" where
  "verify D ser now_ms io device_id token st =
     (let token_hash = sha256_hex D (as_bytes token); f = ts_inner st in
      case find_device device_id (tf_devices f) of
        None \<Rightarrow> (TUnknownDevice, st)
      | Some dev \<Rightarrow>
          if td_token_hash dev \<noteq> token_hash then (TBadToken, st)
          else let st = st\<lparr>ts_inner := f\<lparr>tf_devices :=
                     update_first device_id (\<lambda>d. d\<lparr>td_last_seen_unix_ms := now_ms\<rparr>) (tf_devices f)\<rparr>\<rparr>;
                   device_name = td_device_name dev;
                   (_, st) = save ser io st
               in (TOk device_name, st))"

section \<open>Facts\<close>

lemma save_inner [simp]: "ts_inner (snd (save ser io st)) = ts_inner st"
  by (simp add: save_def Let_def split: option.split write_result.split)

lemma save_disk: "ts_disk (snd (save ser io st)) = ts_disk st
    \<or> ts_disk (snd (save ser io st)) = ser (ts_inner st) \<and> ser (ts_inner st) \<noteq> None"
  by (simp add: save_def Let_def split: option.split write_result.split)

lemma save_ok_disk: "fst (save ser io st) = Inr () \<Longrightarrow>
    ser (ts_inner st) = ts_disk (snd (save ser io st)) \<and> ser (ts_inner st) \<noteq> None"
  by (auto simp: save_def Let_def split: option.splits write_result.splits if_splits)

lemma mint_devices: "tf_devices (ts_inner (snd (mint D ser tb uuid now io nm st))) =
    tf_devices (ts_inner st) @ [\<lparr> td_device_id = uuid,
      td_token_hash = sha256_hex D (as_bytes (base64_url_no_pad D tb)), td_device_name = nm,
      td_created_unix_ms = now, td_last_seen_unix_ms = now \<rparr>]"
  by (simp add: mint_def Let_def split_beta)

lemma mint_Inr: "fst (mint D ser tb uuid now io nm st) = Inr (i, t) \<Longrightarrow> i = uuid \<and> t = base64_url_no_pad D tb"
  by (auto simp: mint_def Let_def split_beta split: sum.splits)

lemma find_update_first: "find_device i (update_first j f ds) =
    (if i = j then map_option f (find_device i ds) else find_device i ds)"
  if "\<And>d. td_device_id (f d) = td_device_id d"
  by (induction ds) (auto simp: find_device_def that)

lemma verify_find: "fst (verify D ser now io i t st) =
    (case find_device i (tf_devices (ts_inner st)) of
       None \<Rightarrow> TUnknownDevice
     | Some d \<Rightarrow> if td_token_hash d = sha256_hex D (as_bytes t) then TOk (td_device_name d) else TBadToken)"
  by (simp add: verify_def Let_def split_beta split: option.split)

text \<open>Both operations end in a save of a store with the disk as it was.\<close>

lemma mint_eq_save: "\<exists>st1. ts_disk st1 = ts_disk st
    \<and> snd (mint D ser tb uuid now io nm st) = snd (save ser io st1)
    \<and> (\<forall>r. fst (mint D ser tb uuid now io nm st) = Inr r \<longrightarrow> fst (save ser io st1) = Inr ())"
  by (rule exI [of _ "st\<lparr>ts_inner := (ts_inner st)\<lparr>tf_devices := tf_devices (ts_inner st) @
        [\<lparr> td_device_id = uuid, td_token_hash = sha256_hex D (as_bytes (base64_url_no_pad D tb)),
           td_device_name = nm, td_created_unix_ms = now, td_last_seen_unix_ms = now \<rparr>]\<rparr>\<rparr>"])
     (simp add: mint_def Let_def split_beta split: sum.splits)

lemma verify_eq_save: "snd (verify D ser now io i t st) = st
    \<or> (\<exists>st1. ts_disk st1 = ts_disk st \<and> snd (verify D ser now io i t st) = snd (save ser io st1))"
proof (cases "fst (verify D ser now io i t st)")
  case (TOk nm)
  then show ?thesis
    by (intro disjI2 exI [of _ "st\<lparr>ts_inner := (ts_inner st)\<lparr>tf_devices :=
          update_first i (\<lambda>d. d\<lparr>td_last_seen_unix_ms := now\<rparr>) (tf_devices (ts_inner st))\<rparr>\<rparr>"])
       (auto simp: verify_def Let_def split_beta split: option.splits if_splits)
qed (auto simp: verify_def Let_def split_beta split: option.splits if_splits)

text \<open>
  What a client can observe of the store: the hash and the name under each id. Verification never
  changes it, whatever it answers and whatever the file system does.
\<close>

definition credentials :: "TrustedDevicesStore \<Rightarrow> string \<Rightarrow> (string \<times> string) option" where
  "credentials st i = map_option (\<lambda>d. (td_token_hash d, td_device_name d))
     (find_device i (tf_devices (ts_inner st)))"

lemma verify_credentials: "credentials (snd (verify D ser now io i t st)) = credentials st"
proof (rule ext)
  fix j
  show "credentials (snd (verify D ser now io i t st)) j = credentials st j"
    by (auto simp: verify_def credentials_def Let_def split_beta find_update_first option.map_comp
        comp_def split: option.split)
qed

lemma find_device_append: "find_device i (ds @ es) =
    (case find_device i ds of None \<Rightarrow> find_device i es | Some d \<Rightarrow> Some d)"
  by (induction ds) (auto simp: find_device_def)

lemma mint_credentials: "credentials (snd (mint D ser tb uuid now io nm st)) j =
    (case credentials st j of
       None \<Rightarrow> if j = uuid then Some (sha256_hex D (as_bytes (base64_url_no_pad D tb)), nm) else None
     | Some c \<Rightarrow> Some c)"
  by (auto simp: credentials_def mint_devices find_device_append split: option.split)
     (simp_all add: find_device_def)

lemma verify_by_credentials: "fst (verify D ser now io i t st) =
    (case credentials st i of None \<Rightarrow> TUnknownDevice
     | Some (h, nm) \<Rightarrow> if h = sha256_hex D (as_bytes t) then TOk nm else TBadToken)"
  by (simp add: verify_find credentials_def split: option.split)

section \<open>Histories\<close>

datatype store_call =
    MintCall bytes string u64 save_io string    \<comment> \<open>random token, uuid, now, file system, name\<close>
  | VerifyCall u64 save_io string string        \<comment> \<open>now, file system, device id, token\<close>

fun store_step :: "deps \<Rightarrow> (TrustedDevicesFile \<Rightarrow> bytes option) \<Rightarrow> store_call \<Rightarrow>
    TrustedDevicesStore \<Rightarrow> TrustedDevicesStore" where
  "store_step D ser (MintCall tb uuid now io nm) st = snd (mint D ser tb uuid now io nm st)"
| "store_step D ser (VerifyCall now io i t) st = snd (verify D ser now io i t st)"

definition store_run :: "deps \<Rightarrow> (TrustedDevicesFile \<Rightarrow> bytes option) \<Rightarrow> store_call list \<Rightarrow>
    TrustedDevicesStore \<Rightarrow> TrustedDevicesStore" where
  "store_run D ser cs st = fold (store_step D ser) cs st"

lemma credentials_persist: "credentials st i = Some c \<Longrightarrow> credentials (store_run D ser cs st) i = Some c"
proof (induction cs arbitrary: st)
  case (Cons a cs)
  have "credentials (store_step D ser a st) i = Some c"
    using Cons.prems by (cases a) (simp_all add: mint_credentials verify_credentials)
  from Cons.IH [OF this] show ?case by (simp add: store_run_def)
qed (simp add: store_run_def)

lemma credentials_origin:
  assumes "credentials (store_run D ser cs st) i = Some (h, nm)"
  shows "credentials st i = Some (h, nm) \<or> (\<exists>tb now io. MintCall tb i now io nm \<in> set cs
    \<and> h = sha256_hex D (as_bytes (base64_url_no_pad D tb)))"
  using assms
proof (induction cs arbitrary: st)
  case (Cons a cs)
  then have "credentials (store_run D ser cs (store_step D ser a st)) i = Some (h, nm)"
    by (simp add: store_run_def)
  from Cons.IH [OF this] show ?case
  proof
    assume *: "credentials (store_step D ser a st) i = Some (h, nm)"
    show ?thesis
    proof (cases a)
      case (MintCall tb uuid now io nm')
      with * show ?thesis
        by (auto simp: mint_credentials split: option.splits if_splits)
    next
      case (VerifyCall now io j t)
      with * show ?thesis by (simp add: verify_credentials)
    qed
  qed auto
qed (simp add: store_run_def)

lemma step_disk: "ts_disk (store_step D ser a st) = ts_disk st
    \<or> ts_disk (store_step D ser a st) = ser (ts_inner (store_step D ser a st))
      \<and> ser (ts_inner (store_step D ser a st)) \<noteq> None"
proof (cases a)
  case (MintCall tb uuid now io nm)
  obtain st1 where "ts_disk st1 = ts_disk st"
    "snd (mint D ser tb uuid now io nm st) = snd (save ser io st1)"
    using mint_eq_save by blast
  with MintCall show ?thesis using save_disk [of ser io st1] by simp
next
  case (VerifyCall now io i t)
  from verify_eq_save [of D ser now io i t st] show ?thesis
  proof
    assume "\<exists>st1. ts_disk st1 = ts_disk st \<and> snd (verify D ser now io i t st) = snd (save ser io st1)"
    then obtain st1 where "ts_disk st1 = ts_disk st"
      "snd (verify D ser now io i t st) = snd (save ser io st1)" by blast
    with VerifyCall show ?thesis using save_disk [of ser io st1] by simp
  qed (simp add: VerifyCall)
qed

lemma mint_success_disk:
  assumes "fst (mint D ser tb uuid now io nm st) = Inr r"
  shows "ts_disk (snd (mint D ser tb uuid now io nm st)) = ser (ts_inner (snd (mint D ser tb uuid now io nm st)))
    \<and> ser (ts_inner (snd (mint D ser tb uuid now io nm st))) \<noteq> None"
proof -
  obtain st1 where "snd (mint D ser tb uuid now io nm st) = snd (save ser io st1)"
    "fst (save ser io st1) = Inr ()"
    using mint_eq_save [of st D ser tb uuid now io nm] assms by blast
  with save_ok_disk [of ser io st1] show ?thesis by (metis save_inner)
qed

section \<open>Properties\<close>

text \<open>
  C23. Only minted tokens authenticate: starting from an empty store, after any history of minting
  and verification with any file system outcomes, a device id and token are accepted only if an
  earlier call minted that id with a token of the same SHA-256 hash, and the name reported is the
  one given there.
\<close>

theorem trust_only_minted:
  assumes "tf_devices (ts_inner st) = []"
    and "fst (verify D ser now io i t (store_run D ser cs st)) = TOk nm"
  shows "\<exists>tb now' io'. MintCall tb i now' io' nm \<in> set cs
    \<and> d_sha256 D (as_bytes t) = d_sha256 D (as_bytes (base64_url_no_pad D tb))"
proof -
  have "credentials st i = None" using assms(1) by (simp add: credentials_def find_device_def)
  moreover have "credentials (store_run D ser cs st) i = Some (sha256_hex D (as_bytes t), nm)"
    using assms(2) by (auto simp: verify_by_credentials split: option.splits if_splits)
  ultimately show ?thesis using credentials_origin by fastforce
qed

lemma trust_only_minted_witness:
  "\<exists>tb now' io'. MintCall tb ''dev'' now' io' ''phone'' \<in> set
      [MintCall [7] ''dev'' 1 \<lparr>io_write = WriteErr None, io_rename_ok = False\<rparr> ''phone'']
    \<and> d_sha256 toy_deps (as_bytes (base64_url_no_pad toy_deps [7]))
      = d_sha256 toy_deps (as_bytes (base64_url_no_pad toy_deps tb))"
  by (rule trust_only_minted [where st = "\<lparr>ts_inner = default_file, ts_disk = None, ts_tmp = None\<rparr>"
        and ser = "\<lambda>f. Some []" and now = 2 and io = "\<lparr>io_write = WriteOk, io_rename_ok = True\<rparr>"])
     (simp add: default_file_def,
      simp add: verify_by_credentials store_run_def mint_credentials,
      simp add: credentials_def default_file_def find_device_def)

text \<open>
  What \<^verbatim>\<open>mint\<close> returns works from then on: with a device id that is not in the store yet,
  after any later history the returned pair is accepted with the device's name, a token of another
  hash is answered BadToken, and a restart changes nothing: the file on disk after the successful
  mint, read back by \<^verbatim>\<open>open\<close>, accepts the pair as well. (The hypothesis on \<open>parse\<close> is
  serde's round trip.)
\<close>

theorem mint_then_verify:
  assumes fresh: "credentials st uuid = None"
    and schema: "tf_schema (ts_inner st) = CURRENT_SCHEMA"
    and minted: "mint D ser tb uuid now io nm st = (Inr (i, t), st')"
    and serde: "\<forall>f b. ser f = Some b \<longrightarrow> parse b = Some f"
    and disk: "ts_disk st' = Some b"
    and opened: "open_store parse True (ReadOk b) (Some b) None = Inr st2"
  shows "fst (verify D ser now' io' i t (store_run D ser cs st')) = TOk nm
    \<and> (d_sha256 D (as_bytes t') \<noteq> d_sha256 D (as_bytes t) \<longrightarrow>
         fst (verify D ser now' io' i t' (store_run D ser cs st')) = TBadToken)
    \<and> fst (verify D ser now' io' i t (store_run D ser cs st2)) = TOk nm"
proof -
  have it: "i = uuid" "t = base64_url_no_pad D tb" using mint_Inr minted by (metis fst_conv)+
  have c: "credentials st' i = Some (sha256_hex D (as_bytes t), nm)"
    using mint_credentials [of D ser tb uuid now io nm st uuid] fresh minted it by simp
  have "ser (ts_inner st') = Some b"
    using mint_success_disk [of D ser tb uuid now io nm st] minted disk by simp
  then have p: "parse b = Some (ts_inner st')" using serde by blast
  have "tf_schema (ts_inner st') = CURRENT_SCHEMA"
    using minted schema by (auto simp: mint_def Let_def split_beta)
  with p opened have "tf_devices (ts_inner st2) = tf_devices (ts_inner st')"
    by (auto simp: open_store_def Let_def)
  then have "credentials st2 i = Some (sha256_hex D (as_bytes t), nm)"
    using c by (simp add: credentials_def)
  with c show ?thesis by (simp add: verify_by_credentials credentials_persist)
qed

lemma mint_then_verify_witness:
  "\<exists>st'. fst (verify toy_deps (\<lambda>f. None) 9 \<lparr>io_write = WriteOk, io_rename_ok = True\<rparr> ''dev'' ''07''
      (store_run toy_deps (\<lambda>f. None) [] st')) = TOk ''phone''"
proof -
  define st where "st = \<lparr>ts_inner = \<lparr>tf_schema = CURRENT_SCHEMA, tf_devices = []\<rparr>,
    ts_disk = None, ts_tmp = None\<rparr>"
  define dev where "dev = \<lparr>td_device_id = ''dev'', td_token_hash = sha256_hex toy_deps (as_bytes ''07''),
    td_device_name = ''phone'', td_created_unix_ms = 1, td_last_seen_unix_ms = 1\<rparr>"
  define F where "F = \<lparr>tf_schema = CURRENT_SCHEMA, tf_devices = [dev]\<rparr>"
  define ser where "ser = (\<lambda>f. if f = F then Some ([] :: bytes) else None)"
  define st' where "st' = \<lparr>ts_inner = F, ts_disk = Some [], ts_tmp = None\<rparr>"
  have tok: "base64_url_no_pad toy_deps [7] = ''07''"
    by code_simp
  have "mint toy_deps ser [7] ''dev'' 1 \<lparr>io_write = WriteOk, io_rename_ok = True\<rparr> ''phone'' st =
      (Inr (''dev'', ''07''), st')"
    by (simp add: mint_def save_def st_def st'_def ser_def F_def dev_def tok Let_def)
  from mint_then_verify [OF _ _ this, of "\<lambda>b. Some F" "[]" st' 9
      "\<lparr>io_write = WriteOk, io_rename_ok = True\<rparr>" "[]"]
  have "fst (verify toy_deps ser 9 \<lparr>io_write = WriteOk, io_rename_ok = True\<rparr> ''dev'' ''07''
      (store_run toy_deps ser [] st')) = TOk ''phone''"
    by (simp add: st_def st'_def ser_def F_def credentials_def find_device_def open_store_def Let_def)
  then show ?thesis
    by (intro exI [of _ st']) (simp add: verify_by_credentials store_run_def)
qed

text \<open>
  The file on disk is never half-written: after any history, whatever the file system answered,
  it is the initial content or the complete serialisation of the store as it was after one of the
  calls.
\<close>

theorem trust_file_atomic:
  "ts_disk (store_run D ser cs st) = ts_disk st
   \<or> (\<exists>n \<le> length cs. ts_disk (store_run D ser cs st) = ser (ts_inner (store_run D ser (take n cs) st)))"
proof (induction cs rule: rev_induct)
  case (snoc a cs)
  have s: "store_run D ser (cs @ [a]) st = store_step D ser a (store_run D ser cs st)"
    by (simp add: store_run_def)
  consider "ts_disk (store_run D ser (cs @ [a]) st) = ts_disk (store_run D ser cs st)"
    | "ts_disk (store_run D ser (cs @ [a]) st) = ser (ts_inner (store_run D ser (cs @ [a]) st))"
    using step_disk [of D ser a "store_run D ser cs st"] unfolding s by blast
  then show ?case
  proof cases
    case 1
    from snoc.IH show ?thesis
    proof
      assume "\<exists>n\<le>length cs. ts_disk (store_run D ser cs st) = ser (ts_inner (store_run D ser (take n cs) st))"
      then obtain n where "n \<le> length cs"
        "ts_disk (store_run D ser cs st) = ser (ts_inner (store_run D ser (take n cs) st))" by blast
      with 1 show ?thesis by (intro disjI2 exI [of _ n]) simp
    qed (simp add: 1)
  next
    case 2
    then show ?thesis by (intro disjI2 exI [of _ "length (cs @ [a])"]) simp
  qed
qed (simp add: store_run_def)

end
