(* ===== verification/File_Names.thy ===== *)
theory File_Names
  imports Prelude Utf8
begin

text \<open>
  Where an upload lands (\<^verbatim>\<open>server-pc/src/connection.rs\<close>, the path helpers): the download
  directory, the sanitised file name and the choice of a path that is not taken. Paths are strings
  in Windows syntax, which is the platform of the server; \<open>path_join\<close> is \<^verbatim>\<open>Path::join\<close> for a
  plain relative component, the only kind the code joins (the theorem on sanitised names shows that
  a phone cannot supply another kind).
\<close>

section \<open>Paths\<close>

definition is_sep :: "char \<Rightarrow> bool" where
  "is_sep c = (c = CHR 0x5C \<or> c = CHR ''/'')"

definition need_sep :: "string \<Rightarrow> bool" where
  "need_sep dir = (dir \<noteq> [] \<and> \<not> is_sep (last dir) \<and> \<not> (length dir = 2 \<and> last dir = CHR '':''))"

definition path_join :: "string \<Rightarrow> string \<Rightarrow> string" where
  "path_join dir name = dir @ (if need_sep dir then [CHR 0x5C] else []) @ name"

lemma path_join_inject [simp]: "path_join dir a = path_join dir b \<longleftrightarrow> a = b"
  by (simp add: path_join_def)

text \<open>
  \<^verbatim>\<open>downloads_dir\<close>: the environment variable, and what \<^verbatim>\<open>create_dir_all\<close> answers (an
  error text, or success).
\<close>

definition downloads_dir :: "string option \<Rightarrow> string option \<Rightarrow> string + string" where
  "downloads_dir userprofile mkdir_err =
     (case userprofile of
        None \<Rightarrow> Inl ''USERPROFILE not set''
      | Some base \<Rightarrow>
          let dir = path_join (path_join base ''Downloads'') ''RemoteControl''
          in case mkdir_err of Some e \<Rightarrow> Inl e | None \<Rightarrow> Inr dir)"

section \<open>File names\<close>

definition ord :: "char \<Rightarrow> nat" where "ord c = of_char c"

definition bad_name_char :: "nat \<Rightarrow> bool" where
  "bad_name_char c = (c = ord (CHR ''/'') \<or> c = ord (CHR 0x5C) \<or> c = 0 \<or> c = ord (CHR '':'')
     \<or> c = ord (CHR ''*'') \<or> c = ord (CHR ''?'') \<or> c = ord (CHR 0x22) \<or> c = ord (CHR ''<'')
     \<or> c = ord (CHR ''>'') \<or> c = ord (CHR 0x7C))"

definition sanitize_chars :: "nat list \<Rightarrow> nat list" where
  "sanitize_chars raw =
     (let cleaned = filter (\<lambda>c. \<not> bad_name_char c) raw;
          trimmed = trim_chars cleaned
      in if trimmed = [] \<or> trimmed = map ord ''.'' \<or> trimmed = map ord ''..''
         then map ord ''received.bin''
         else if length trimmed > 200 then
           (let (stem, ext) =
                  (case rsplit_once (ord (CHR ''.'')) trimmed of
                     Some (s, e) \<Rightarrow> if length (utf8_enc e) < 32 then (s, ord (CHR ''.'') # e)
                                     else (trimmed, [])
                   | None \<Rightarrow> (trimmed, []));
                tk = 200 - length ext;
                stem_short = take tk stem
            in stem_short @ ext)
         else trimmed)"

definition sanitize_filename :: "string \<Rightarrow> string" where
  "sanitize_filename raw = from_chars (sanitize_chars (chars raw))"

text \<open>
  \<^verbatim>\<open>unique_dest_path\<close>; \<open>meta_ok p\<close> is whether \<^verbatim>\<open>metadata(p)\<close> succeeds.
\<close>

definition numbered :: "string \<Rightarrow> string \<Rightarrow> nat \<Rightarrow> string" where
  "numbered stem ext n = stem @ '' ('' @ show_nat n @ '')'' @ ext"

definition unique_dest_path :: "(string \<Rightarrow> bool) \<Rightarrow> string \<Rightarrow> string \<Rightarrow> string + string" where
  "unique_dest_path meta_ok dir name =
     (let initial = path_join dir name
      in if \<not> meta_ok initial then Inr initial
         else let (stem, ext) =
                (case rsplit_once (CHR ''.'') name of
                   Some (s, e) \<Rightarrow> if s \<noteq> [] then (s, CHR ''.'' # e) else (name, [])
                 | None \<Rightarrow> (name, []))
              in case find (\<lambda>n. \<not> meta_ok (path_join dir (numbered stem ext n))) [1..<1000] of
                   Some n \<Rightarrow> Inr (path_join dir (numbered stem ext n))
                 | None \<Rightarrow> Inl (''no unique path under '' @ dir @ '' for '' @ name))"

section \<open>Facts\<close>

lemma rsplit_once_set: "rsplit_once c s = Some (a, e) \<Longrightarrow> set a \<subseteq> set s \<and> set e \<subseteq> set s"
  using rsplit_once_Some [of c s a e] by auto

lemma enc1_length: "0 < length (enc1 c)"
  by (simp add: enc1_def)

lemma utf8_enc_length: "length cs \<le> length (utf8_enc cs)"
proof (induction cs)
  case (Cons c cs)
  have "Suc 0 \<le> length (enc1 c)" using enc1_length [of c] by linarith
  with Cons show ?case by (simp add: utf8_enc_def)
qed (simp add: utf8_enc_def)

text \<open>The branches of the sanitiser, by the trimmed name.\<close>

definition trimmed_name :: "nat list \<Rightarrow> nat list" where
  "trimmed_name raw = trim_chars (filter (\<lambda>c. \<not> bad_name_char c) raw)"

lemma trimmed_name_set: "set (trimmed_name raw) \<subseteq> {c \<in> set raw. \<not> bad_name_char c}"
  using set_trim_chars [of "filter (\<lambda>c. \<not> bad_name_char c) raw"] by (auto simp: trimmed_name_def)

lemma sanitize_cases:
  obtains (fallback) "sanitize_chars raw = map ord ''received.bin''"
  | (long) s e where "sanitize_chars raw = take (200 - length e) s @ e"
      "length e \<le> 32" "set s \<union> set e \<subseteq> set (trimmed_name raw)"
      "200 < length s + length e"
  | (short) "sanitize_chars raw = trimmed_name raw" "length (trimmed_name raw) \<le> 200"
      "trimmed_name raw \<noteq> []" "trimmed_name raw \<noteq> map ord ''.''" "trimmed_name raw \<noteq> map ord ''..''"
proof -
  let ?t = "trimmed_name raw" and ?dot = "ord (CHR ''.'')"
  consider "?t = [] \<or> ?t = map ord ''.'' \<or> ?t = map ord ''..''"
    | "200 < length ?t" "\<not> (?t = [] \<or> ?t = map ord ''.'' \<or> ?t = map ord ''..'')"
    | "length ?t \<le> 200" "\<not> (?t = [] \<or> ?t = map ord ''.'' \<or> ?t = map ord ''..'')"
    by linarith
  then show thesis
  proof cases
    case 1
    then show ?thesis
      by (intro fallback) (simp add: sanitize_chars_def trimmed_name_def [symmetric] Let_def)
  next
    case 3
    then show ?thesis
      by (intro short) (simp_all add: sanitize_chars_def trimmed_name_def [symmetric] Let_def)
  next
    case 2
    show ?thesis
    proof (cases "\<exists>s e. rsplit_once ?dot ?t = Some (s, e) \<and> length (utf8_enc e) < 32")
      case True
      then obtain s e where se: "rsplit_once ?dot ?t = Some (s, e)" "length (utf8_enc e) < 32" by blast
      have t: "?t = s @ ?dot # e" using rsplit_once_Some [OF se(1)] by simp
      show ?thesis
      proof (rule long [of "?dot # e" s])
        show "sanitize_chars raw = take (200 - length (?dot # e)) s @ ?dot # e"
          using 2 se by (simp add: sanitize_chars_def trimmed_name_def [symmetric] Let_def)
        show "length (?dot # e) \<le> 32" using utf8_enc_length [of e] se(2) by simp
        show "set s \<union> set (?dot # e) \<subseteq> set ?t" "200 < length s + length (?dot # e)"
          using t 2(1) by auto
      qed
    next
      case False
      then have "sanitize_chars raw = take (200 - length ([] :: nat list)) ?t @ []"
        using 2 by (auto simp: sanitize_chars_def trimmed_name_def [symmetric] Let_def split: option.split)
      then show ?thesis using 2 by (intro long [of "[]" ?t]) simp_all
    qed
  qed
qed

lemma fallback_ok: "list_all is_scalar (map ord ''received.bin'')"
    "list_all (\<lambda>c. \<not> bad_name_char c) (map ord ''received.bin'')"
  by (simp_all add: is_scalar_def bad_name_char_def ord_def)

lemma sanitize_set:
  "c \<in> set (sanitize_chars raw) \<Longrightarrow> c \<in> set (trimmed_name raw) \<or> c \<in> set (map ord ''received.bin'')"
  by (rule sanitize_cases [of raw]) (auto dest: in_set_takeD)

lemma sanitize_clean:
  assumes "list_all is_scalar raw"
  shows "list_all is_scalar (sanitize_chars raw) \<and> list_all (\<lambda>c. \<not> bad_name_char c) (sanitize_chars raw)"
proof -
  have "is_scalar c \<and> \<not> bad_name_char c" if "c \<in> set (sanitize_chars raw)" for c
    using sanitize_set [OF that]
  proof
    assume "c \<in> set (trimmed_name raw)"
    then show ?thesis using trimmed_name_set [of raw] assms by (auto simp: list_all_iff)
  next
    assume "c \<in> set (map ord ''received.bin'')"
    then show ?thesis using fallback_ok by (auto simp only: list_all_iff)
  qed
  then show ?thesis by (simp add: list_all_iff)
qed

lemma sanitize_length: "0 < length (sanitize_chars raw) \<and> length (sanitize_chars raw) \<le> 200"
  by (rule sanitize_cases [of raw]) auto

lemma sanitize_not_dots: "sanitize_chars raw \<noteq> map ord ''.'' \<and> sanitize_chars raw \<noteq> map ord ''..''"
proof (rule sanitize_cases [of raw])
  assume "sanitize_chars raw = map ord ''received.bin''"
  then show ?thesis by simp
next
  fix s e assume e: "sanitize_chars raw = take (200 - length e) s @ e" "length e \<le> 32" "200 < length s + length e"
  then have "length (sanitize_chars raw) = 200" by simp
  then show ?thesis by auto
qed simp

text \<open>An ASCII byte of an encoding is an ASCII character of the text.\<close>

lemma enc1_low_byte: "b \<in> set (enc1 c) \<Longrightarrow> b < 0x80 \<Longrightarrow> b = c"
  by (auto simp: enc1_def split: if_splits)

lemma from_chars_low: "list_all is_scalar cs \<Longrightarrow> x \<in> set (from_chars cs) \<Longrightarrow> ord x < 0x80 \<Longrightarrow> ord x \<in> set cs"
proof -
  assume s: "list_all is_scalar cs" and x: "x \<in> set (from_chars cs)" and lo: "ord x < 0x80"
  have "ord x \<in> set (map of_char (from_chars cs))" using x by (simp add: ord_def)
  then have "ord x \<in> set (utf8_enc cs)" using of_from_chars [OF s] by simp
  then obtain c where "c \<in> set cs" "ord x \<in> set (enc1 c)" by (auto simp: utf8_enc_def)
  with enc1_low_byte lo show ?thesis by metis
qed

lemma bad_name_char_low: "bad_name_char c \<Longrightarrow> c < 0x80"
  by (auto simp: bad_name_char_def ord_def)

definition plain_name :: "string \<Rightarrow> bool" where
  "plain_name s = (s \<noteq> [] \<and> s \<noteq> ''.'' \<and> s \<noteq> ''..'' \<and> list_all (\<lambda>c. \<not> bad_name_char (ord c)) s)"

lemma chars_sanitize: "chars (sanitize_filename raw) = sanitize_chars (chars raw)"
  using sanitize_clean [of "chars raw"] chars_scalar by (simp add: sanitize_filename_def chars_from_chars)

lemma sanitize_plain: "plain_name (sanitize_filename raw)"
proof -
  have sc: "list_all is_scalar (sanitize_chars (chars raw))"
    and ok: "list_all (\<lambda>c. \<not> bad_name_char c) (sanitize_chars (chars raw))"
    using sanitize_clean [OF chars_scalar] by simp_all
  have "chars (sanitize_filename raw) \<noteq> []" using sanitize_length [of "chars raw"] by (auto simp: chars_sanitize)
  moreover have "chars (sanitize_filename raw) \<noteq> chars ''.''" "chars (sanitize_filename raw) \<noteq> chars ''..''"
    using sanitize_not_dots [of "chars raw"]
    by (simp_all add: chars_sanitize chars_ascii is_ascii_def ord_def)
  moreover have "chars [] = []" by (simp add: chars_def)
  moreover have "\<not> bad_name_char (ord x)" if "x \<in> set (sanitize_filename raw)" for x
    using from_chars_low [OF sc, of x] that ok bad_name_char_low [of "ord x"]
    by (auto simp: sanitize_filename_def list_all_iff)
  ultimately show ?thesis by (auto simp: plain_name_def list_all_iff)
qed

section \<open>Unique paths\<close>

definition split_ext :: "string \<Rightarrow> string \<times> string" where
  "split_ext name = (case rsplit_once (CHR ''.'') name of
     Some (s, e) \<Rightarrow> if s \<noteq> [] then (s, CHR ''.'' # e) else (name, []) | None \<Rightarrow> (name, []))"

lemma split_ext_append: "split_ext name = (stem, ext) \<Longrightarrow> stem @ ext = name"
  by (auto simp: split_ext_def split: option.splits if_splits dest: rsplit_once_Some)

lemma unique_dest_path_alt: "unique_dest_path meta_ok dir name =
    (if \<not> meta_ok (path_join dir name) then Inr (path_join dir name)
     else let (stem, ext) = split_ext name in
       case find (\<lambda>n. \<not> meta_ok (path_join dir (numbered stem ext n))) [1..<1000] of
         Some n \<Rightarrow> Inr (path_join dir (numbered stem ext n))
       | None \<Rightarrow> Inl (''no unique path under '' @ dir @ '' for '' @ name))"
  unfolding unique_dest_path_def split_ext_def Let_def by (rule refl)

lemma numbered_inject [simp]: "numbered stem ext m = numbered stem ext n \<longleftrightarrow> m = n"
  by (simp add: numbered_def)

lemma unique_dest_path_free: "unique_dest_path meta_ok dir name = Inr p \<Longrightarrow> \<not> meta_ok p"
  by (auto simp: unique_dest_path_alt find_Some_iff split: if_splits prod.splits option.splits)

section \<open>Properties\<close>



text \<open>
  An upload never overwrites: the chosen destination is the directory joined with the name or
  with the name numbered before its extension, and no file answers there; the search fails only when
  the name and all 999 numbered names are taken.
\<close>

theorem unique_dest_path_fresh:
  "(case unique_dest_path meta_ok dir name of
      Inr p \<Rightarrow> \<not> meta_ok p \<and> (p = path_join dir name \<or> (\<exists>stem ext n. stem @ ext = name \<and> n \<in> {1..999}
        \<and> p = path_join dir (stem @ '' ('' @ show_nat n @ '')'' @ ext)))
    | Inl e \<Rightarrow> meta_ok (path_join dir name) \<and> (\<forall>n\<in>{1..999}. meta_ok (path_join dir
        (numbered (fst (split_ext name)) (snd (split_ext name)) n))))"
proof (cases "meta_ok (path_join dir name)")
  case False
  then show ?thesis by (simp add: unique_dest_path_alt)
next
  case True
  obtain stem ext where se: "split_ext name = (stem, ext)" by fastforce
  let ?P = "\<lambda>n. \<not> meta_ok (path_join dir (numbered stem ext n))"
  show ?thesis
  proof (cases "find ?P [1..<1000]")
    case None
    then have "\<forall>n\<in>set [1..<1000]. \<not> ?P n" by (simp add: find_None_iff)
    then show ?thesis using True None se by (simp add: unique_dest_path_alt)
  next
    case (Some n)
    then have "?P n" "n \<in> set [1..<1000]" by (auto simp: find_Some_iff)
    then have "\<exists>stem' ext' n'. stem' @ ext' = name \<and> n' \<in> {1..999}
        \<and> path_join dir (numbered stem ext n) = path_join dir (numbered stem' ext' n')"
      using split_ext_append [OF se] by (intro exI [of _ stem] exI [of _ ext] exI [of _ n]) simp
    with \<open>?P n\<close> show ?thesis using True Some se by (simp add: unique_dest_path_alt numbered_def)
  qed
qed

lemma find_upt_second: "\<not> P 1 \<Longrightarrow> P 2 \<Longrightarrow> 2 < m \<Longrightarrow> find P [1..<m] = Some (2 :: nat)"
  by (simp add: upt_conv_Cons numeral_2_eq_2)

lemma unique_dest_path_fresh_witness:
  "unique_dest_path (\<lambda>p. p \<in> {''d'' @ [CHR 0x5C] @ ''a.txt'', ''d'' @ [CHR 0x5C] @ ''a (1).txt''}) ''d'' ''a.txt''
     = Inr (''d'' @ [CHR 0x5C] @ ''a (2).txt'')
   \<and> \<not> (\<lambda>p. p \<in> {''d'' @ [CHR 0x5C] @ ''a.txt'', ''d'' @ [CHR 0x5C] @ ''a (1).txt''})
        (''d'' @ [CHR 0x5C] @ ''a (2).txt'')"
  (is "?u = Inr ?p \<and> \<not> ?m ?p")
proof
  have s: "rsplit_once CHR ''.'' ''a.txt'' = Some (''a'', ''txt'')" by (simp add: rsplit_once_def)
  have "digit_char 1 = CHR ''1''" "digit_char 2 = CHR ''2''" by code_simp+
  then have n: "show_nat 1 = ''1''" "show_nat 2 = ''2''" by (simp_all add: show_nat.simps)
  have j: "path_join ''d'' x = ''d'' @ [CHR 0x5C] @ x" for x
    by (simp add: path_join_def need_sep_def is_sep_def)
  have "find (\<lambda>n. \<not> ?m (path_join ''d'' (numbered ''a'' ''.txt'' n))) [1..<1000] = Some 2"
    by (rule find_upt_second) (simp_all add: j numbered_def n [unfolded One_nat_def])
  moreover have "split_ext ''a.txt'' = (''a'', ''.txt'')" by (simp add: split_ext_def s)
  moreover have "?m (path_join ''d'' ''a.txt'')" by (simp add: j)
  ultimately show u: "?u = Inr ?p"
    unfolding unique_dest_path_alt by (simp add: j numbered_def n del: upt_rec_numeral)
  show "\<not> ?m ?p" using unique_dest_path_fresh [of ?m "''d''" "''a.txt''"] unfolding u by simp
qed

end
