(* ===== verification/File_Transfer.thy ===== *)
theory File_Transfer
  imports Protocol File_Names Deps Phone
begin

text \<open>
  Phone to PC uploads (\<^verbatim>\<open>server-pc/src/connection.rs\<close>): the per-transfer state, the begin, abort
  and chunk handlers, each with every early return of the code. The file system is a map from paths
  to contents; an open file is named by its path. What the operating system answers to each call is
  an argument. A handler returns the transfers, the file system and the control messages it sent,
  in order.
\<close>

section \<open>State\<close>

type_synonym fs = "string \<rightharpoonup> bytes"

record FileTransferState =
  ft_dest_path :: string
  ft_expected_size :: u64
  ft_bytes_written :: u64
  ft_next_expected_seq :: u32

type_synonym transfers = "u32 \<rightharpoonup> FileTransferState"

section \<open>Begin\<close>

text \<open>The answers of the system to one begin: directory, \<^verbatim>\<open>metadata\<close>, \<^verbatim>\<open>File::create\<close>.\<close>

record begin_io =
  bi_userprofile :: "string option"
  bi_mkdir_err :: "string option"
  bi_meta_ok :: "string \<Rightarrow> bool"
  bi_create_err :: "string option"

definition SIZE_CAP :: u64 where "SIZE_CAP = 16 * 1024 * 1024 * 1024"

definition handle_file_begin :: "begin_io \<Rightarrow> u32 \<Rightarrow> string \<Rightarrow> u64 \<Rightarrow> transfers \<Rightarrow> fs \<Rightarrow>
    transfers \<times> fs \<times> ServerMsg list" where
  "handle_file_begin io tid name fsize transfers fs =
     (if transfers tid \<noteq> None
      then (transfers, fs, [FileTransferFailed tid ''duplicate transfer id''])
      else if fsize > SIZE_CAP
      then (transfers, fs, [FileTransferFailed tid ''file too large (>16 GiB)''])
      else case downloads_dir (bi_userprofile io) (bi_mkdir_err io) of
        Inl e \<Rightarrow> (transfers, fs, [FileTransferFailed tid (''downloads dir: '' @ e)])
      | Inr dest_dir \<Rightarrow>
          let safe_name = sanitize_filename name in
          (case unique_dest_path (bi_meta_ok io) dest_dir safe_name of
             Inl e \<Rightarrow> (transfers, fs, [FileTransferFailed tid (''dest path: '' @ e)])
           | Inr dest_path \<Rightarrow>
               (case bi_create_err io of
                  Some e \<Rightarrow> (transfers, fs,
                    [FileTransferFailed tid (''open '' @ dest_path @ '': '' @ e)])
                | None \<Rightarrow>
                    (transfers(tid \<mapsto> \<lparr> ft_dest_path = dest_path, ft_expected_size = fsize,
                                         ft_bytes_written = 0, ft_next_expected_seq = 0 \<rparr>),
                     fs(dest_path \<mapsto> []),
                     [FileTransferAccepted tid dest_path]))))"

section \<open>Abort\<close>

text \<open>\<open>remove_file\<close> with the system's answer; a failed removal only logs and leaves the file.\<close>

definition remove_file :: "bool \<Rightarrow> string \<Rightarrow> fs \<Rightarrow> fs" where
  "remove_file ok path fs = (if ok then fs(path := None) else fs)"

definition handle_file_abort :: "bool \<Rightarrow> u32 \<Rightarrow> transfers \<Rightarrow> fs \<Rightarrow> transfers \<times> fs" where
  "handle_file_abort rm_ok tid transfers fs =
     (case transfers tid of
        Some state \<Rightarrow> (transfers(tid := None), remove_file rm_ok (ft_dest_path state) fs)
      | None \<Rightarrow> (transfers, fs))"

section \<open>Chunks\<close>

text \<open>
  \<^verbatim>\<open>write_all\<close> and \<^verbatim>\<open>flush\<close> succeed or fail; a failed write carries its error text and
  what the file holds then, a failed flush what reached the disk.
\<close>

datatype write_answer = WriteDone | WriteFailed string bytes

datatype flush_answer = FlushDone | FlushFailed bytes

record chunk_io =
  ci_write :: write_answer
  ci_flush :: flush_answer
  ci_rm_ok :: bool

definition show_u32 :: "u32 \<Rightarrow> string" where "show_u32 w = show_nat (unat w)"

definition contents :: "fs \<Rightarrow> string \<Rightarrow> bytes" where
  "contents fs p = (case fs p of Some b \<Rightarrow> b | None \<Rightarrow> [])"

definition handle_file_chunk :: "chunk_io \<Rightarrow> bytes \<Rightarrow> transfers \<Rightarrow> fs \<Rightarrow>
    transfers \<times> fs \<times> ServerMsg list" where
  "handle_file_chunk io frame transfers fs =
     (case parse_file_chunk frame of
        None \<Rightarrow> (transfers, fs, [])
      | Some (tid, sq, is_last, payload) \<Rightarrow>
          (case transfers tid of
             None \<Rightarrow> (transfers, fs, [])
           | Some state \<Rightarrow>
               let transfers = transfers(tid := None) in
               if sq \<noteq> ft_next_expected_seq state then
                 (transfers, remove_file (ci_rm_ok io) (ft_dest_path state) fs,
                  [FileTransferFailed tid (''chunk out of order: got '' @ show_u32 sq)])
               else case ci_write io of
                 WriteFailed e partial \<Rightarrow>
                   (transfers, remove_file (ci_rm_ok io) (ft_dest_path state)
                      (fs(ft_dest_path state \<mapsto> partial)),
                    [FileTransferFailed tid (''write: '' @ e)])
               | WriteDone \<Rightarrow>
                   let fs = fs(ft_dest_path state \<mapsto> contents fs (ft_dest_path state) @ payload);
                       state = state\<lparr>ft_bytes_written := ft_bytes_written state + word_of_nat (length payload)\<rparr>;
                       state = state\<lparr>ft_next_expected_seq := ft_next_expected_seq state + 1\<rparr>
                   in if is_last then
                        let fs = (case ci_flush io of FlushDone \<Rightarrow> fs
                                  | FlushFailed b \<Rightarrow> fs(ft_dest_path state \<mapsto> b))
                        in (transfers, fs, [FileTransferComplete tid (ft_dest_path state)])
                      else (transfers(tid \<mapsto> state), fs, [])))"

text \<open>The cleanup of the uploads when the connection ends: every partial file is unlinked.\<close>

definition drain_transfers :: "(u32 \<Rightarrow> bool) \<Rightarrow> u32 list \<Rightarrow> transfers \<Rightarrow> fs \<Rightarrow> fs" where
  "drain_transfers rm_ok order transfers fs =
     fold (\<lambda>tid fs. case transfers tid of
       Some state \<Rightarrow> remove_file (rm_ok tid) (ft_dest_path state) fs | None \<Rightarrow> fs) order fs"

section \<open>Invariant\<close>

text \<open>
  Every transfer writes to a file of its own that exists, and distinct transfers write to distinct
  files.
\<close>

definition wf_transfers :: "transfers \<Rightarrow> fs \<Rightarrow> bool" where
  "wf_transfers ts fs \<longleftrightarrow>
     (\<forall>t s. ts t = Some s \<longrightarrow> fs (ft_dest_path s) \<noteq> None) \<and>
     (\<forall>t u s s'. ts t = Some s \<longrightarrow> ts u = Some s' \<longrightarrow> t \<noteq> u \<longrightarrow> ft_dest_path s \<noteq> ft_dest_path s')"

lemma wf_transfers_remove: "wf_transfers ts fs \<Longrightarrow> wf_transfers (ts(t := None)) fs"
  by (auto simp: wf_transfers_def)

lemma wf_transfers_unlink:
  "wf_transfers ts fs \<Longrightarrow> ts t = Some s \<Longrightarrow>
     wf_transfers (ts(t := None)) (remove_file ok (ft_dest_path s) fs)"
  by (auto simp: wf_transfers_def remove_file_def)

lemma wf_transfers_write:
  "wf_transfers ts fs \<Longrightarrow> ts t = Some s \<Longrightarrow> ft_dest_path s' = ft_dest_path s \<Longrightarrow>
     wf_transfers (ts(t := None)) (fs(ft_dest_path s \<mapsto> b)) \<and>
     wf_transfers (ts(t \<mapsto> s')) (fs(ft_dest_path s \<mapsto> b))"
  by (auto simp: wf_transfers_def)

text \<open>The documented meaning of \<^verbatim>\<open>metadata\<close>: it answers for every file that exists.\<close>

definition meta_sound :: "begin_io \<Rightarrow> fs \<Rightarrow> bool" where
  "meta_sound io fs \<longleftrightarrow> (\<forall>p. fs p \<noteq> None \<longrightarrow> bi_meta_ok io p)"

lemma begin_dichotomy:
  "(\<exists>e. handle_file_begin io tid name fsize ts fs = (ts, fs, [FileTransferFailed tid e]))
   \<or> (\<exists>dir p. downloads_dir (bi_userprofile io) (bi_mkdir_err io) = Inr dir
      \<and> unique_dest_path (bi_meta_ok io) dir (sanitize_filename name) = Inr p
      \<and> ts tid = None \<and> fsize \<le> SIZE_CAP \<and> bi_create_err io = None
      \<and> handle_file_begin io tid name fsize ts fs =
         (ts(tid \<mapsto> \<lparr> ft_dest_path = p, ft_expected_size = fsize, ft_bytes_written = 0,
            ft_next_expected_seq = 0 \<rparr>), fs(p \<mapsto> []), [FileTransferAccepted tid p]))"
proof (cases "ts tid = None \<and> fsize \<le> SIZE_CAP")
  case True
  then show ?thesis
    by (cases "downloads_dir (bi_userprofile io) (bi_mkdir_err io)")
       (auto simp: handle_file_begin_def Let_def split: sum.split option.split)
next
  case False
  then show ?thesis by (auto simp: handle_file_begin_def)
qed

lemma begin_cases:
  obtains (refused) e where "handle_file_begin io tid name fsize ts fs = (ts, fs, [FileTransferFailed tid e])"
  | (accepted) dir p where "downloads_dir (bi_userprofile io) (bi_mkdir_err io) = Inr dir"
      "unique_dest_path (bi_meta_ok io) dir (sanitize_filename name) = Inr p"
      "ts tid = None" "fsize \<le> SIZE_CAP"
      "handle_file_begin io tid name fsize ts fs =
         (ts(tid \<mapsto> \<lparr> ft_dest_path = p, ft_expected_size = fsize, ft_bytes_written = 0,
            ft_next_expected_seq = 0 \<rparr>), fs(p \<mapsto> []), [FileTransferAccepted tid p])"
  using begin_dichotomy [of io tid name fsize ts fs] by blast

lemma wf_insert:
  assumes "wf_transfers ts fs" "fs p = None" "ft_dest_path s = p"
  shows "wf_transfers (ts(t \<mapsto> s)) (fs(p \<mapsto> b))"
proof -
  have ne: "ft_dest_path s' \<noteq> p" if "ts u = Some s'" for u s'
  proof -
    have "fs (ft_dest_path s') \<noteq> None" using assms(1) that unfolding wf_transfers_def by blast
    with assms(2) show ?thesis by auto
  qed
  have own: "(fs(p \<mapsto> b)) (ft_dest_path s') \<noteq> None" if "(ts(t \<mapsto> s)) u = Some s'" for u s'
    using assms(1,3) that by (auto simp: wf_transfers_def split: if_splits)
  have apart: "ft_dest_path s1 \<noteq> ft_dest_path s2"
    if "(ts(t \<mapsto> s)) u = Some s1" "(ts(t \<mapsto> s)) v = Some s2" "u \<noteq> v" for u v s1 s2
  proof (cases "u = t \<or> v = t")
    case True
    with that assms(3) show ?thesis using ne by (auto split: if_splits) metis
  next
    case False
    with that assms(1) show ?thesis unfolding wf_transfers_def by (metis fun_upd_other)
  qed
  from own apart show ?thesis unfolding wf_transfers_def by blast
qed

lemma wf_begin:
  assumes "wf_transfers ts fs" "meta_sound io fs"
    "handle_file_begin io tid name fsize ts fs = (ts', fs', out)"
  shows "wf_transfers ts' fs' \<and> (\<forall>p b. fs p = Some b \<longrightarrow> fs' p = Some b)"
proof (cases rule: begin_cases [of io tid name fsize ts fs])
  case (refused e)
  with assms show ?thesis by simp
next
  case (accepted dir p)
  have "fs p = None"
    using unique_dest_path_free [OF accepted(2)] assms(2) by (auto simp: meta_sound_def)
  with accepted assms show ?thesis using wf_insert [OF assms(1)] by auto
qed

lemma wf_abort:
  "wf_transfers ts fs \<Longrightarrow> handle_file_abort ok tid ts fs = (ts', fs') \<Longrightarrow> wf_transfers ts' fs'"
  by (auto simp: handle_file_abort_def wf_transfers_unlink split: option.splits)

section \<open>What a chunk does\<close>

lemma chunk_unknown:
  "parse_file_chunk f = Some (tid, sq, l, p) \<Longrightarrow> ts tid = None \<Longrightarrow>
    handle_file_chunk io f ts fs = (ts, fs, [])"
  by (simp add: handle_file_chunk_def)

lemma chunk_malformed: "parse_file_chunk f = None \<Longrightarrow> handle_file_chunk io f ts fs = (ts, fs, [])"
  by (simp add: handle_file_chunk_def)

lemma chunk_out_of_order:
  "parse_file_chunk f = Some (tid, sq, l, p) \<Longrightarrow> ts tid = Some s \<Longrightarrow> sq \<noteq> ft_next_expected_seq s \<Longrightarrow>
    handle_file_chunk io f ts fs = (ts(tid := None), remove_file (ci_rm_ok io) (ft_dest_path s) fs,
      [FileTransferFailed tid (''chunk out of order: got '' @ show_u32 sq)])"
  by (simp add: handle_file_chunk_def Let_def)

lemma chunk_write_error:
  "parse_file_chunk f = Some (tid, sq, l, p) \<Longrightarrow> ts tid = Some s \<Longrightarrow> sq = ft_next_expected_seq s \<Longrightarrow>
    ci_write io = WriteFailed e b \<Longrightarrow>
    handle_file_chunk io f ts fs = (ts(tid := None),
      remove_file (ci_rm_ok io) (ft_dest_path s) (fs(ft_dest_path s \<mapsto> b)),
      [FileTransferFailed tid (''write: '' @ e)])"
  by (simp add: handle_file_chunk_def Let_def)

lemma chunk_middle:
  "parse_file_chunk f = Some (tid, sq, False, p) \<Longrightarrow> ts tid = Some s \<Longrightarrow> sq = ft_next_expected_seq s \<Longrightarrow>
    ci_write io = WriteDone \<Longrightarrow>
    handle_file_chunk io f ts fs =
      (ts(tid \<mapsto> s\<lparr>ft_bytes_written := ft_bytes_written s + word_of_nat (length p),
                   ft_next_expected_seq := sq + 1\<rparr>),
       fs(ft_dest_path s \<mapsto> contents fs (ft_dest_path s) @ p), [])"
  by (simp add: handle_file_chunk_def Let_def)

lemma chunk_last:
  "parse_file_chunk f = Some (tid, sq, True, p) \<Longrightarrow> ts tid = Some s \<Longrightarrow> sq = ft_next_expected_seq s \<Longrightarrow>
    ci_write io = WriteDone \<Longrightarrow>
    handle_file_chunk io f ts fs =
      (ts(tid := None),
       fs(ft_dest_path s \<mapsto> (case ci_flush io of
            FlushDone \<Rightarrow> contents fs (ft_dest_path s) @ p | FlushFailed b \<Rightarrow> b)),
       [FileTransferComplete tid (ft_dest_path s)])"
  by (simp add: handle_file_chunk_def Let_def split: flush_answer.split)

lemmas chunk_outcomes = chunk_unknown chunk_malformed chunk_out_of_order chunk_write_error
  chunk_middle chunk_last

lemma chunk_cases:
  obtains (ignored) "handle_file_chunk io f ts fs = (ts, fs, [])"
  | (known) tid sq l p s where "parse_file_chunk f = Some (tid, sq, l, p)" "ts tid = Some s"
  using chunk_unknown [of f] chunk_malformed [of f]
  by (cases "parse_file_chunk f") (auto, metis option.exhaust)

lemma wf_chunk:
  assumes wf: "wf_transfers ts fs" and h: "handle_file_chunk io f ts fs = (ts', fs', out)"
  shows "wf_transfers ts' fs'"
proof (cases rule: chunk_cases [of io f ts fs])
  case ignored
  with assms show ?thesis by simp
next
  case (known tid sq l p s)
  note k = known and w = wf_transfers_write [OF wf known(2) refl]
  consider (order) "sq \<noteq> ft_next_expected_seq s"
    | (err) e b where "sq = ft_next_expected_seq s" "ci_write io = WriteFailed e b"
    | (ok) "sq = ft_next_expected_seq s" "ci_write io = WriteDone"
    by (cases "ci_write io") auto
  then show ?thesis
  proof cases
    case order
    with h wf_transfers_unlink [OF wf known(2)] show ?thesis
      using chunk_out_of_order [of f tid sq l p ts s io fs] k order by auto
  next
    case (err e b)
    have "wf_transfers (ts(tid := None)) (remove_file (ci_rm_ok io) (ft_dest_path s) (fs(ft_dest_path s \<mapsto> b)))"
      using wf known(2) by (auto simp: wf_transfers_def remove_file_def)
    with h show ?thesis
      using chunk_write_error [of f tid sq l p ts s io e b fs] k err by auto
  next
    case ok
    show ?thesis
    proof (cases l)
      case True
      with h w k ok show ?thesis by (auto simp: chunk_last [of f tid sq p ts s io])
    next
      case False
      with h k ok wf_transfers_write [OF wf known(2), of "s\<lparr>ft_bytes_written := ft_bytes_written s + word_of_nat (length p),
                   ft_next_expected_seq := sq + 1\<rparr>"]
      show ?thesis by (auto simp: chunk_middle [of f tid sq p ts s io])
    qed
  qed
qed

section \<open>Histories\<close>

text \<open>
  The handlers run one after another on the connection task; a step is one of them with any answers
  of the system, except that \<^verbatim>\<open>metadata\<close> must answer for a file that exists.
\<close>

inductive upload_step :: "transfers \<times> fs \<times> ServerMsg list \<Rightarrow> transfers \<times> fs \<times> ServerMsg list \<Rightarrow> bool" where
  up_begin: "meta_sound io fs \<Longrightarrow> handle_file_begin io tid name fsize ts fs = (ts', fs', out') \<Longrightarrow>
     upload_step (ts, fs, out) (ts', fs', out @ out')"
| up_abort: "handle_file_abort ok tid ts fs = (ts', fs') \<Longrightarrow> upload_step (ts, fs, out) (ts', fs', out)"
| up_chunk: "handle_file_chunk cio f ts fs = (ts', fs', out') \<Longrightarrow>
     upload_step (ts, fs, out) (ts', fs', out @ out')"

inductive_cases upload_stepE: "upload_step (ts, fs, out) s'"

text \<open>What holds of every reachable state, against the file system at the start.\<close>

definition upload_inv :: "fs \<Rightarrow> transfers \<times> fs \<times> ServerMsg list \<Rightarrow> bool" where
  "upload_inv fs0 st = (case st of (ts, fs, out) \<Rightarrow>
     wf_transfers ts fs \<and> (\<forall>p. fs0 p \<noteq> None \<longrightarrow> fs p = fs0 p)
     \<and> (\<forall>t s. ts t = Some s \<longrightarrow> fs0 (ft_dest_path s) = None))"

lemma abort_inv:
  assumes "upload_inv fs0 (ts, fs, out)" "handle_file_abort ok tid ts fs = (ts', fs')"
  shows "upload_inv fs0 (ts', fs', out')"
proof (cases "ts tid")
  case None
  with assms show ?thesis by (simp add: upload_inv_def handle_file_abort_def)
next
  case (Some s)
  with assms have e: "ts' = ts(tid := None)" "fs' = remove_file ok (ft_dest_path s) fs"
    by (simp_all add: handle_file_abort_def)
  have "wf_transfers ts' fs'" using wf_abort [OF _ assms(2)] assms(1) by (simp add: upload_inv_def)
  moreover have "fs0 (ft_dest_path s) = None" using assms(1) Some by (simp add: upload_inv_def)
  ultimately show ?thesis using assms(1) e by (auto simp: upload_inv_def remove_file_def)
qed

lemma begin_inv:
  assumes "upload_inv fs0 (ts, fs, out)" "meta_sound io fs"
    "handle_file_begin io tid name fsize ts fs = (ts', fs', out1)"
  shows "upload_inv fs0 (ts', fs', out')"
proof (cases rule: begin_cases [of io tid name fsize ts fs])
  case (refused e)
  with assms show ?thesis by (simp add: upload_inv_def)
next
  case (accepted dir p)
  have "fs p = None"
    using unique_dest_path_free [OF accepted(2)] assms(2) by (auto simp: meta_sound_def)
  then have "fs0 p = None" using assms(1) by (auto simp: upload_inv_def)
  moreover have "wf_transfers ts' fs'"
    using wf_begin [OF _ assms(2,3)] assms(1) by (simp add: upload_inv_def)
  ultimately show ?thesis using assms(1,3) accepted
    by (auto simp: upload_inv_def split: if_splits)
qed

lemma chunk_effect:
  assumes "handle_file_chunk io f ts fs = (ts', fs', out)"
  obtains (same) "ts' = ts" "fs' = fs"
  | (touched) t s where "ts t = Some s" "\<And>u. u \<noteq> t \<Longrightarrow> ts' u = ts u"
      "\<And>p. p \<noteq> ft_dest_path s \<Longrightarrow> fs' p = fs p"
      "\<And>s'. ts' t = Some s' \<Longrightarrow> ft_dest_path s' = ft_dest_path s"
      "map_option fst (parse_file_chunk f) = Some t"
proof (cases rule: chunk_cases [of io f ts fs])
  case ignored
  with assms same show thesis by simp
next
  case (known tid sq l p s)
  show thesis
    by (rule touched [of tid s])
       (use known assms in \<open>auto simp: handle_file_chunk_def Let_def remove_file_def
         split: if_splits write_answer.splits flush_answer.splits\<close>)
qed

lemma chunk_inv:
  assumes "upload_inv fs0 (ts, fs, out)" "handle_file_chunk io f ts fs = (ts', fs', out1)"
  shows "upload_inv fs0 (ts', fs', out')"
proof -
  have wf: "wf_transfers ts' fs'" using wf_chunk [OF _ assms(2)] assms(1) by (simp add: upload_inv_def)
  from assms(2) show ?thesis
  proof (cases rule: chunk_effect)
    case same
    with assms(1) show ?thesis by (simp add: upload_inv_def)
  next
    case (touched t s)
    have new: "fs0 (ft_dest_path s) = None" using touched(1) assms(1) by (simp add: upload_inv_def)
    have "fs0 (ft_dest_path s') = None" if "ts' u = Some s'" for u s'
    proof (cases "u = t")
      case True
      with touched(4) [of s'] that new show ?thesis by simp
    next
      case False
      with touched(2) [of u] that have "ts u = Some s'" by simp
      with assms(1) show ?thesis by (auto simp: upload_inv_def)
    qed
    moreover have "fs' p = fs0 p" if "fs0 p \<noteq> None" for p
    proof -
      have "p \<noteq> ft_dest_path s" using that new by auto
      then have "fs' p = fs p" by (rule touched(3))
      with that assms(1) show ?thesis by (simp add: upload_inv_def)
    qed
    ultimately show ?thesis using wf by (simp add: upload_inv_def)
  qed
qed

lemma upload_step_inv: "upload_step s s' \<Longrightarrow> upload_inv fs0 s \<Longrightarrow> upload_inv fs0 s'"
  by (induction rule: upload_step.induct) (blast intro: begin_inv abort_inv chunk_inv)+

section \<open>A whole upload\<close>

text \<open>Binary frames handled one after another, for any number of transfers at once.\<close>

fun chunk_run :: "(chunk_io \<times> bytes) list \<Rightarrow> transfers \<Rightarrow> fs \<Rightarrow> transfers \<times> fs \<times> ServerMsg list" where
  "chunk_run [] ts fs = (ts, fs, [])"
| "chunk_run ((io, f) # rest) ts fs =
     (let (ts, fs, out1) = handle_file_chunk io f ts fs; (ts, fs, out2) = chunk_run rest ts fs
      in (ts, fs, out1 @ out2))"

definition own_frame :: "u32 \<Rightarrow> chunk_io \<times> bytes \<Rightarrow> bool" where
  "own_frame tid = (\<lambda>(io, f). map_option fst (parse_file_chunk f) = Some tid)"

lemma own_frame_pair [simp]:
  "own_frame tid (io, f) \<longleftrightarrow> map_option fst (parse_file_chunk f) = Some tid"
  by (simp add: own_frame_def)

definition io_fine :: "chunk_io \<Rightarrow> bool" where
  "io_fine io = (ci_write io = WriteDone \<and> ci_flush io = FlushDone)"

text \<open>A message about a transfer other than \<open>tid\<close>, or of another kind.\<close>

definition about :: "u32 \<Rightarrow> ServerMsg \<Rightarrow> bool" where
  "about tid m = (case m of FileTransferComplete t p \<Rightarrow> t = tid | FileTransferFailed t e \<Rightarrow> t = tid | _ \<Rightarrow> False)"

lemma about_simps [simp]:
  "about tid (FileTransferComplete t p) = (t = tid)" "about tid (FileTransferFailed t e) = (t = tid)"
  "about tid (FileTransferAccepted t p) = False"
  by (simp_all add: about_def)

lemma quiet_frame:
  assumes own: "\<not> own_frame tid (io, f)" and h: "handle_file_chunk io f ts fs = (ts', fs', out)"
  shows "filter (about tid) out = []"
proof (cases rule: chunk_cases [of io f ts fs])
  case ignored
  with h show ?thesis by simp
next
  case (known t sq l p s)
  then have "t \<noteq> tid" using own by (auto simp: own_frame_def)
  moreover have "\<exists>p e. out = [] \<or> out = [FileTransferComplete t p] \<or> out = [FileTransferFailed t e]"
    using h known
    by (cases "sq = ft_next_expected_seq s"; cases "ci_write io"; cases l)
       (auto simp: handle_file_chunk_def Let_def)
  ultimately show ?thesis by (auto simp: about_def)
qed

lemma foreign_frame:
  assumes wf: "wf_transfers ts fs" and own: "\<not> own_frame tid (io, f)" and s: "ts tid = Some s"
    and h: "handle_file_chunk io f ts fs = (ts', fs', out)"
  shows "ts' tid = Some s \<and> fs' (ft_dest_path s) = fs (ft_dest_path s) \<and> filter (about tid) out = []"
proof -
  from h have "ts' tid = Some s \<and> fs' (ft_dest_path s) = fs (ft_dest_path s)"
  proof (cases rule: chunk_effect)
    case (touched t s2)
    have "t \<noteq> tid" using touched(5) own by (auto simp: own_frame_def)
    moreover from this have "ft_dest_path s \<noteq> ft_dest_path s2"
      using wf s touched(1) unfolding wf_transfers_def by metis
    ultimately show ?thesis using touched(2,3) s by metis
  qed (simp_all add: s)
  with quiet_frame [OF own h] show ?thesis by simp
qed

text \<open>The state of transfer \<open>tid\<close> while it writes \<open>d\<close>: the bytes on disk and the next number.\<close>

definition receiving :: "u32 \<Rightarrow> string \<Rightarrow> bytes \<Rightarrow> u32 \<Rightarrow> transfers \<Rightarrow> fs \<Rightarrow> bool" where
  "receiving tid d b sq ts fs \<longleftrightarrow> wf_transfers ts fs \<and> fs d = Some b \<and>
     (\<exists>s. ts tid = Some s \<and> ft_dest_path s = d \<and> ft_next_expected_seq s = sq)"

lemma receiving_foreign:
  assumes "receiving tid d b sq ts fs" "\<not> own_frame tid (io, f)"
    "handle_file_chunk io f ts fs = (ts', fs', out)"
  shows "receiving tid d b sq ts' fs' \<and> filter (about tid) out = []"
  using assms foreign_frame [of ts fs tid io f _ ts' fs' out] wf_chunk [of ts fs io f ts' fs' out]
  by (auto simp: receiving_def)

lemma receiving_middle:
  assumes "receiving tid d b sq ts fs" "io_fine io"
    "handle_file_chunk io (build_file_chunk_frame tid sq False p) ts fs = (ts', fs', out)"
  shows "receiving tid d (b @ p) (sq + 1) ts' fs' \<and> out = []"
proof -
  obtain s where s: "ts tid = Some s" "ft_dest_path s = d" "ft_next_expected_seq s = sq" "fs d = Some b"
    using assms(1) by (auto simp: receiving_def)
  have "wf_transfers ts' fs'" using wf_chunk [OF _ assms(3)] assms(1) by (simp add: receiving_def)
  moreover have "handle_file_chunk io (build_file_chunk_frame tid sq False p) ts fs =
      (ts(tid \<mapsto> s\<lparr>ft_bytes_written := ft_bytes_written s + word_of_nat (length p),
                   ft_next_expected_seq := sq + 1\<rparr>),
       fs(ft_dest_path s \<mapsto> contents fs (ft_dest_path s) @ p), [])"
    using assms(2)
    by (intro chunk_middle [where tid = tid and ts = ts and s = s]) (simp_all add: s io_fine_def)
  then have "ts' = ts(tid \<mapsto> s\<lparr>ft_bytes_written := ft_bytes_written s + word_of_nat (length p),
                   ft_next_expected_seq := sq + 1\<rparr>)" "fs' = fs(d \<mapsto> b @ p)" "out = []"
    unfolding assms(3) by (simp_all add: contents_def s(2,4))
  ultimately show ?thesis by (simp add: receiving_def s(2))
qed

lemma receiving_last:
  assumes "receiving tid d b sq ts fs" "io_fine io"
    "handle_file_chunk io (build_file_chunk_frame tid sq True p) ts fs = (ts', fs', out)"
  shows "ts' tid = None \<and> fs' d = Some (b @ p) \<and> out = [FileTransferComplete tid d]
    \<and> (\<forall>u s. ts' u = Some s \<longrightarrow> ft_dest_path s \<noteq> d) \<and> wf_transfers ts' fs'"
proof -
  obtain s where s: "ts tid = Some s" "ft_dest_path s = d" "ft_next_expected_seq s = sq" "fs d = Some b"
    using assms(1) by (auto simp: receiving_def)
  have "wf_transfers ts' fs'" using wf_chunk [OF _ assms(3)] assms(1) by (simp add: receiving_def)
  moreover have "ft_dest_path s' \<noteq> d" if "ts u = Some s'" "u \<noteq> tid" for u s'
    using assms(1) that s unfolding receiving_def wf_transfers_def by blast
  moreover have "handle_file_chunk io (build_file_chunk_frame tid sq True p) ts fs =
      (ts(tid := None), fs(ft_dest_path s \<mapsto> (case ci_flush io of
            FlushDone \<Rightarrow> contents fs (ft_dest_path s) @ p | FlushFailed b \<Rightarrow> b)),
       [FileTransferComplete tid (ft_dest_path s)])"
    using assms(2) by (intro chunk_last [where sq = sq and s = s]) (simp_all add: s io_fine_def)
  then have "ts' = ts(tid := None)" "fs' = fs(d \<mapsto> b @ p)" "out = [FileTransferComplete tid d]"
    using assms(2) unfolding assms(3) by (simp_all add: contents_def s(2,4) io_fine_def)
  ultimately show ?thesis by simp
qed

text \<open>Once a transfer is over, frames of the others leave its file alone.\<close>

lemma finished_stays:
  assumes "wf_transfers ts fs" "\<forall>u s. ts u = Some s \<longrightarrow> ft_dest_path s \<noteq> d" "ts tid = None"
    "\<forall>x\<in>set rest. \<not> own_frame tid x" "chunk_run rest ts fs = (ts', fs', out)"
  shows "ts' tid = None \<and> fs' d = fs d \<and> filter (about tid) out = []"
  using assms
proof (induction rest arbitrary: ts fs out)
  case (Cons x rest)
  obtain io f where x: "x = (io, f)" by fastforce
  obtain ts1 fs1 o1 where h: "handle_file_chunk io f ts fs = (ts1, fs1, o1)" by (metis prod_cases3)
  obtain o2 where r: "chunk_run rest ts1 fs1 = (ts', fs', o2)" "out = o1 @ o2"
    using Cons.prems(5) by (auto simp: x h split: prod.splits)
  have own: "\<not> own_frame tid (io, f)" using Cons.prems(4) x by simp
  from h have "ts1 tid = None \<and> fs1 d = fs d \<and> (\<forall>u s. ts1 u = Some s \<longrightarrow> ft_dest_path s \<noteq> d)"
  proof (cases rule: chunk_effect)
    case same
    with Cons.prems(2,3) show ?thesis by simp
  next
    case (touched t s)
    have ne: "t \<noteq> tid" "ft_dest_path s \<noteq> d" using touched(1) Cons.prems(2,3) by auto
    have "ft_dest_path s' \<noteq> d" if "ts1 u = Some s'" for u s'
    proof (cases "u = t")
      case True
      with that touched(4) [of s'] ne show ?thesis by simp
    next
      case False
      with that touched(2) [of u] have "ts u = Some s'" by simp
      with Cons.prems(2) show ?thesis by blast
    qed
    moreover have "ts1 tid = None" using touched(2) ne Cons.prems(3) by metis
    moreover have "fs1 d = fs d" using touched(3) ne by metis
    ultimately show ?thesis by blast
  qed
  moreover have "filter (about tid) o1 = []"
    by (rule quiet_frame [OF own h])
  moreover have "wf_transfers ts1 fs1" using wf_chunk [OF Cons.prems(1) h] .
  ultimately show ?case using Cons.IH [of ts1 fs1 o2] Cons.prems(4) r by simp
qed simp

lemma upload_frames_own: "f \<in> set (upload_frames tid sq cs) \<Longrightarrow> own_frame tid (io, f)"
  by (induction tid sq cs rule: upload_frames.induct) (auto simp: own_frame_def)

lemma upload_frames_run:
  assumes "receiving tid d b sq ts fs" "filter (own_frame tid) rest = map2 Pair ios (upload_frames tid sq cs)"
    "length ios = Suc (length cs)" "list_all io_fine ios" "chunk_run rest ts fs = (ts', fs', out)"
  shows "ts' tid = None \<and> fs' d = Some (b @ concat cs) \<and> filter (about tid) out = [FileTransferComplete tid d]"
  using assms
proof (induction rest arbitrary: ts fs b sq cs ios out)
  case Nil
  then show ?case by (cases ios; cases cs) auto
next
  case (Cons x rest)
  obtain io f where x: "x = (io, f)" by fastforce
  obtain ts1 fs1 o1 where h: "handle_file_chunk io f ts fs = (ts1, fs1, o1)" by (metis prod_cases3)
  obtain o2 where r: "chunk_run rest ts1 fs1 = (ts', fs', o2)" "out = o1 @ o2"
    using Cons.prems(5) by (auto simp: x h split: prod.splits)
  show ?case
  proof (cases "own_frame tid (io, f)")
    case False
    with receiving_foreign [OF Cons.prems(1) False h] Cons.prems x
    have "receiving tid d b sq ts1 fs1" "filter (about tid) o1 = []"
      "filter (own_frame tid) rest = map2 Pair ios (upload_frames tid sq cs)" by simp_all
    with Cons.IH [OF _ _ Cons.prems(3,4) r(1)] r(2) show ?thesis by simp
  next
    case True
    obtain i ios' where ios: "ios = i # ios'" using Cons.prems(3) by (cases ios) auto
    show ?thesis
    proof (cases cs)
      case Nil
      then have f: "io = i" "f = build_file_chunk_frame tid sq True []"
        "filter (own_frame tid) rest = []"
        using Cons.prems(2,3) True ios by (auto simp: x)
      have fine: "io_fine io" using Cons.prems(4) ios f by simp
      have l: "ts1 tid = None \<and> fs1 d = Some b \<and> o1 = [FileTransferComplete tid d]
          \<and> (\<forall>u s. ts1 u = Some s \<longrightarrow> ft_dest_path s \<noteq> d) \<and> wf_transfers ts1 fs1"
        using receiving_last [OF Cons.prems(1) fine, of "[]" ts1 fs1 o1] h f by simp
      have "ts' tid = None \<and> fs' d = fs1 d \<and> filter (about tid) o2 = []"
        by (rule finished_stays [OF _ _ _ _ r(1)]) (use l f in \<open>auto simp: filter_empty_conv\<close>)
      with l r Nil show ?thesis by simp
    next
      case (Cons c cs')
      have f: "io = i" "f = build_file_chunk_frame tid sq False c"
        "filter (own_frame tid) rest = map2 Pair ios' (upload_frames tid (sq + 1) cs')"
        using Cons.prems(2) True ios Cons by (auto simp: x)
      have fine: "io_fine io" "list_all io_fine ios'" "length ios' = Suc (length cs')"
        using Cons.prems(3,4) ios f Cons by simp_all
      have m: "receiving tid d (b @ c) (sq + 1) ts1 fs1 \<and> o1 = []"
        using receiving_middle [OF Cons.prems(1) fine(1), of c ts1 fs1 o1] h f by simp
      from Cons.IH [OF conjunct1 [OF m] f(3) fine(3,2) r(1)] r(2) m Cons show ?thesis by simp
    qed
  qed
qed

lemma begin_receiving:
  assumes "wf_transfers ts fs" "meta_sound io fs"
    "handle_file_begin io tid name fsize ts fs = (ts', fs', [FileTransferAccepted tid d])"
  shows "receiving tid d [] 0 ts' fs'"
proof (cases rule: begin_cases [of io tid name fsize ts fs])
  case (refused e)
  with assms show ?thesis by simp
next
  case (accepted dir p)
  with assms(3) have "ts' = ts(tid \<mapsto> \<lparr>ft_dest_path = d, ft_expected_size = fsize,
      ft_bytes_written = 0, ft_next_expected_seq = 0\<rparr>)" "fs' = fs(d \<mapsto> [])" by auto
  with wf_begin [OF assms] show ?thesis by (simp add: receiving_def)
qed

section \<open>Properties\<close>


definition demo_begin :: begin_io where
  "demo_begin = \<lparr> bi_userprofile = Some ''C:'', bi_mkdir_err = None,
     bi_meta_ok = (\<lambda>p. p = ''keep''), bi_create_err = None \<rparr>"


text \<open>
  C12. A whole upload arrives: when the server accepted the transfer and the phone's upload loop
  ended normally, and the server has handled the loop's frames in order, between any frames of other
  transfers, with successful writes for its own, then the destination holds exactly the bytes the
  phone read, the transfer is forgotten, and the server has sent one message about it: completion
  with that path. The number of chunks is not bounded (both sides wrap the sequence number) and the
  declared size plays no part.
\<close>

theorem upload_delivers:
  assumes "wf_transfers ts0 fs0" "meta_sound io fs0"
    and accepted: "handle_file_begin io tid name fsize ts0 fs0 = (ts, fs, [FileTransferAccepted tid d])"
    and phone: "upload_loop tid 0 ks = (frames, UploadDone)"
    and wire: "filter (own_frame tid) received = map2 Pair ios frames" "length ios = length frames"
    and writes: "list_all io_fine ios"
    and run: "chunk_run received ts fs = (ts', fs', out)"
  shows "fs' d = Some (file_read ks) \<and> ts' tid = None
    \<and> filter (about tid) out = [FileTransferComplete tid d]"
proof -
  obtain cs where cs: "frames = upload_frames tid 0 cs" "concat cs = file_read ks"
    using upload_loop_done [OF phone] by blast
  have "receiving tid d [] 0 ts fs" by (rule begin_receiving [OF assms(1,2) accepted])
  from upload_frames_run [OF this wire(1) [unfolded cs(1)] _ writes run] wire(2)
  show ?thesis by (simp add: cs)
qed

lemma upload_delivers_witness:
  "\<exists>ts fs ts' fs' out d. fs' d = Some [1, 2 :: u8] \<and> ts' 1 = None
     \<and> filter (about 1) out = [FileTransferComplete 1 d]
     \<and> handle_file_begin (demo_begin\<lparr>bi_meta_ok := \<lambda>p. False\<rparr>) 1 ''a'' 2 Map.empty Map.empty
         = (ts, fs, [FileTransferAccepted 1 d])
     \<and> chunk_run (map (Pair \<lparr>ci_write = WriteDone, ci_flush = FlushDone, ci_rm_ok = True\<rparr>)
         [buildFileChunkFrame 1 0 False [1, 2], buildFileChunkFrame 1 1 True []]) ts fs = (ts', fs', out)"
proof -
  let ?bio = "demo_begin\<lparr>bi_meta_ok := \<lambda>p. False\<rparr>"
  let ?io = "\<lparr>ci_write = WriteDone, ci_flush = FlushDone, ci_rm_ok = True\<rparr>"
  let ?ks = "[\<lparr>ut_cancel = False, ut_read = Some [1, 2], ut_send_ok = True\<rparr>,
    \<lparr>ut_cancel = False, ut_read = Some [], ut_send_ok = True\<rparr>]"
  let ?fr = "[buildFileChunkFrame 1 0 False [1, 2], buildFileChunkFrame 1 1 True []]"
  have "\<exists>ts fs d. handle_file_begin ?bio 1 ''a'' 2 Map.empty Map.empty = (ts, fs, [FileTransferAccepted 1 d])"
    by (simp add: handle_file_begin_def SIZE_CAP_def demo_begin_def downloads_dir_def Let_def
        unique_dest_path_def)
  then obtain ts fs d where b: "handle_file_begin ?bio 1 ''a'' 2 Map.empty Map.empty =
      (ts, fs, [FileTransferAccepted 1 d])" by blast
  obtain ts' fs' out where run: "chunk_run (map (Pair ?io) ?fr) ts fs = (ts', fs', out)"
    by (metis prod_cases3)
  have wf: "wf_transfers Map.empty Map.empty" "meta_sound ?bio Map.empty"
    by (simp_all add: wf_transfers_def meta_sound_def)
  have loop: "upload_loop 1 0 ?ks = (?fr, UploadDone)" by simp
  have own: "filter (own_frame 1) (map (Pair ?io) ?fr) = map2 Pair [?io, ?io] ?fr"
    by (simp add: same_file_frame del: One_nat_def)
  have "fs' d = Some (file_read ?ks) \<and> ts' 1 = None \<and> filter (about 1) out = [FileTransferComplete 1 d]"
    by (rule upload_delivers [OF wf b loop own _ _ run]) (simp_all add: io_fine_def)
  then have "fs' d = Some [1, 2] \<and> ts' 1 = None \<and> filter (about 1) out = [FileTransferComplete 1 d]"
    by (simp add: file_read_def)
  with b run show ?thesis by blast
qed

text \<open>
  C13. A broken upload leaves nothing behind: a chunk out of order, or one that cannot be written,
  ends the transfer with exactly one failure message, unlinks the partial file, and touches no other
  file and no other transfer; and every later chunk of that transfer is ignored, until it is begun
  again.
\<close>

theorem broken_upload_cleanup:
  assumes "parse_file_chunk f = Some (tid, sq, l, p)" "ts tid = Some s"
    and "sq \<noteq> ft_next_expected_seq s \<or> (\<exists>e b. ci_write io = WriteFailed e b)"
    and "ci_rm_ok io" and "handle_file_chunk io f ts fs = (ts', fs', out)"
  shows "(\<exists>e. out = [FileTransferFailed tid e]) \<and> ts' = ts(tid := None)
    \<and> fs' = fs(ft_dest_path s := None)
    \<and> (\<forall>io2 g. own_frame tid (io2, g) \<longrightarrow> handle_file_chunk io2 g ts' fs' = (ts', fs', []))"
proof -
  have r: "(\<exists>e. out = [FileTransferFailed tid e]) \<and> ts' = ts(tid := None) \<and> fs' = fs(ft_dest_path s := None)"
  proof (cases "sq = ft_next_expected_seq s")
    case True
    with assms(3) obtain e b where "ci_write io = WriteFailed e b" by blast
    from chunk_write_error [OF assms(1), of ts s io e b fs] this True assms
    show ?thesis by (auto simp: remove_file_def)
  next
    case False
    from chunk_out_of_order [OF assms(1), of ts s io fs] this assms
    show ?thesis by (auto simp: remove_file_def)
  qed
  have "handle_file_chunk io2 g ts' fs' = (ts', fs', [])" if "own_frame tid (io2, g)" for io2 g
    using that r by (auto simp: own_frame_def chunk_unknown)
  with r show ?thesis by blast
qed

lemma broken_upload_cleanup_witness:
  "\<exists>e. snd (snd (handle_file_chunk \<lparr>ci_write = WriteDone, ci_flush = FlushDone, ci_rm_ok = True\<rparr>
     (build_file_chunk_frame 3 9 False [1])
     [3 \<mapsto> \<lparr>ft_dest_path = ''f'', ft_expected_size = 9, ft_bytes_written = 0, ft_next_expected_seq = 0\<rparr>]
     [''f'' \<mapsto> []])) = [FileTransferFailed 3 e]"
proof -
  let ?io = "\<lparr>ci_write = WriteDone, ci_flush = FlushDone, ci_rm_ok = True\<rparr>"
  let ?s = "\<lparr>ft_dest_path = ''f'', ft_expected_size = 9, ft_bytes_written = 0, ft_next_expected_seq = 0\<rparr>"
  obtain ts' fs' out where h: "handle_file_chunk ?io (build_file_chunk_frame 3 9 False [1]) [3 \<mapsto> ?s]
      [''f'' \<mapsto> []] = (ts', fs', out)" by (metis prod_cases3)
  have "\<exists>e. out = [FileTransferFailed 3 e]"
    using broken_upload_cleanup [OF _ _ _ _ h, of 3 9 False "[1]" ?s] by simp
  with h show ?thesis by simp
qed

end
