(* ===== verification/File_Sender.thy ===== *)
theory File_Sender
  imports Protocol Phone
begin

text \<open>
  PC to phone file delivery: the streamer task \<^verbatim>\<open>spawn_file_sender\<close>
  (\<^verbatim>\<open>server-pc/src/connection.rs\<close>) and the phone's receiver \<^verbatim>\<open>handleIncomingFileChunk\<close>
  (\<^verbatim>\<open>ConnectionClient.kt\<close>). The loop of the task is a recursion over its iterations; each
  carries what the cancel flag, the file system, the queue and the clock answer in it.
\<close>

section \<open>The streamer\<close>

definition CHUNK_BYTES :: nat where "CHUNK_BYTES = 256 * 1024"

text \<open>640 ms, in nanoseconds.\<close>

definition TARGET_CHUNK_INTERVAL :: nat where "TARGET_CHUNK_INTERVAL = 640 * 1000000"

text \<open>
  One iteration: the flag, the read (an error, or at most the given number of bytes; a read that
  does not fail returns at least one byte unless the file is at its end), whether the queue takes
  the frame, and the time the iteration took.
\<close>

record send_tick =
  sk_cancel :: bool
  sk_read :: "nat option"
  sk_send_ok :: bool
  sk_elapsed :: nat

datatype sender_end = Streaming | SenderCancelled | SenderEof | SenderReadErr | SenderClosed | SenderDone

text \<open>
  The remaining file is the list \<open>rest\<close>. The result lists, per frame sent, the frame with the
  sleep that followed it, and how the loop ended (\<open>Streaming\<close>: the iterations given were not
  enough).
\<close>

fun sender_loop :: "u32 \<Rightarrow> u64 \<Rightarrow> u32 \<Rightarrow> u64 \<Rightarrow> bytes \<Rightarrow> send_tick list \<Rightarrow> (bytes \<times> nat) list \<times> sender_end" where
  "sender_loop tid expected_size chunk_seq sent_bytes rest [] = ([], Streaming)"
| "sender_loop tid expected_size chunk_seq sent_bytes rest (k # ks) =
     (if sk_cancel k then ([], SenderCancelled)
      else case sk_read k of
        None \<Rightarrow> ([], SenderReadErr)
      | Some want \<Rightarrow>
          let n = min (max 1 want) (min CHUNK_BYTES (length rest)) in
          if n = 0 then ([], SenderEof)
          else
            let sent_bytes = sent_bytes + word_of_nat n;
                is_last = (expected_size \<le> sent_bytes);
                frame = build_file_chunk_frame tid chunk_seq is_last (take n rest)
            in if \<not> sk_send_ok k then ([], SenderClosed)
               else if is_last then ([(frame, 0)], SenderDone)
               else let slp = (if sk_elapsed k < TARGET_CHUNK_INTERVAL
                               then TARGET_CHUNK_INTERVAL - sk_elapsed k else 0);
                        (fs, e) = sender_loop tid expected_size (chunk_seq + 1) sent_bytes (drop n rest) ks
                    in ((frame, slp) # fs, e))"

definition file_sender :: "u32 \<Rightarrow> u64 \<Rightarrow> bytes option \<Rightarrow> send_tick list \<Rightarrow> (bytes \<times> nat) list \<times> sender_end" where
  "file_sender tid expected_size opened ks =
     (case opened of None \<Rightarrow> ([], SenderReadErr)
      | Some content \<Rightarrow> sender_loop tid expected_size 0 0 content ks)"

section \<open>The phone's receiver\<close>

record IncomingFile =
  if_dest :: string
  if_bytesWritten :: u64
  if_nextSeq :: u32

type_synonym phone_files = "(u32 \<rightharpoonup> IncomingFile) \<times> (string \<rightharpoonup> bytes)"

record recv_io =
  rv_write_ok :: bool
  rv_close_ok :: bool

definition failIncoming :: "u32 \<Rightarrow> IncomingFile \<Rightarrow> string \<Rightarrow> phone_files \<Rightarrow> phone_files \<times> ClientMsg list" where
  "failIncoming tid st reason = (\<lambda>(inc, pfs).
     ((inc(tid := None), pfs(if_dest st := None)), [FileSendFailed tid reason]))"

definition handleIncomingFileChunk :: "recv_io \<Rightarrow> VideoFrame \<Rightarrow> phone_files \<Rightarrow> phone_files \<times> ClientMsg list" where
  "handleIncomingFileChunk io frame = (\<lambda>(inc, pfs).
     (let (transferId, chunkSeq, isLast, payload) = file_fields frame in
      case inc transferId of
        None \<Rightarrow> ((inc, pfs), [])
      | Some st \<Rightarrow>
          if chunkSeq \<noteq> if_nextSeq st
          then failIncoming transferId st (''out-of-order chunk '' @ show_nat (unat chunkSeq)) (inc, pfs)
          else if payload \<noteq> [] \<and> \<not> rv_write_ok io
          then failIncoming transferId st ''write'' (inc, pfs)
          else let pfs = pfs(if_dest st \<mapsto> (case pfs (if_dest st) of Some b \<Rightarrow> b | None \<Rightarrow> []) @ payload);
                   st = st\<lparr>if_bytesWritten := if_bytesWritten st + word_of_nat (length payload)\<rparr>;
                   st = st\<lparr>if_nextSeq := if_nextSeq st + 1\<rparr>;
                   inc = inc(transferId \<mapsto> st)
               in if isLast then
                    (if \<not> rv_close_ok io then failIncoming transferId st ''close'' (inc, pfs)
                     else ((inc(transferId := None), pfs), [FileSendComplete transferId (if_dest st)]))
                  else ((inc, pfs), [])))"

text \<open>The binary branch of \<^verbatim>\<open>onMessage\<close>, as far as files are concerned.\<close>

definition phone_on_binary :: "recv_io \<Rightarrow> bytes \<Rightarrow> phone_files \<Rightarrow> phone_files \<times> ClientMsg list" where
  "phone_on_binary io b st =
     (case FrameParser_parse b of None \<Rightarrow> (st, [])
      | Some frame \<Rightarrow> if vf_type frame = frame_FILE then handleIncomingFileChunk io frame st else (st, []))"

fun phone_run :: "(recv_io \<times> bytes) list \<Rightarrow> phone_files \<Rightarrow> phone_files \<times> ClientMsg list" where
  "phone_run [] st = (st, [])"
| "phone_run ((io, b) # bs) st =
     (let (st, out1) = phone_on_binary io b st; (st, out2) = phone_run bs st in (st, out1 @ out2))"

section \<open>What the streamer sends\<close>

text \<open>The frames of a list of pieces, the last of them flagged when \<open>flag\<close> is set.\<close>

fun send_frames :: "u32 \<Rightarrow> bool \<Rightarrow> u32 \<Rightarrow> bytes list \<Rightarrow> bytes list" where
  "send_frames tid flag sq [] = []"
| "send_frames tid flag sq (c # cs) =
     build_file_chunk_frame tid sq (flag \<and> cs = []) c # send_frames tid flag (sq + 1) cs"

lemma sender_loop_step:
  assumes "sender_loop tid ex sq sent rest (k # ks) = (out, e)"
  obtains (stop) "out = []" "e \<in> {SenderCancelled, SenderEof, SenderReadErr, SenderClosed}"
  | (final) n where "0 < n" "n \<le> CHUNK_BYTES" "n \<le> length rest" "ex \<le> sent + word_of_nat n"
      "out = [(build_file_chunk_frame tid sq True (take n rest), 0)]" "e = SenderDone"
  | (more) n slp out' where "0 < n" "n \<le> CHUNK_BYTES" "n \<le> length rest" "\<not> ex \<le> sent + word_of_nat n"
      "TARGET_CHUNK_INTERVAL \<le> sk_elapsed k + slp"
      "out = (build_file_chunk_frame tid sq False (take n rest), slp) # out'"
      "sender_loop tid ex (sq + 1) (sent + word_of_nat n) (drop n rest) ks = (out', e)"
proof (cases "sk_cancel k \<or> sk_read k = None")
  case True
  with assms stop show thesis by (auto split: if_splits)
next
  case False
  then obtain want where w: "\<not> sk_cancel k" "sk_read k = Some want" by auto
  define n where "n = min (max (Suc 0) want) (min CHUNK_BYTES (length rest))"
  have n: "n \<le> CHUNK_BYTES" "n \<le> length rest" by (simp_all add: n_def)
  show thesis
  proof (cases "n = 0 \<or> \<not> sk_send_ok k")
    case True
    with assms w stop show thesis by (auto simp: n_def [symmetric] Let_def split: if_splits)
  next
    case ok: False
    obtain out' e' where r: "sender_loop tid ex (sq + 1) (sent + word_of_nat n) (drop n rest) ks = (out', e')"
      by fastforce
    show thesis
    proof (cases "ex \<le> sent + word_of_nat n")
      case True
      with assms w ok n show thesis by (intro final [of n]) (auto simp: n_def [symmetric] Let_def)
    next
      case False
      with assms w ok r n show thesis
        by (intro more [of n]) (auto simp: n_def [symmetric] Let_def)
    qed
  qed
qed

lemma sender_frames:
  assumes "sender_loop tid ex sq sent rest ks = (out, e)"
  shows "\<exists>cs. map fst out = send_frames tid (e = SenderDone) sq cs \<and> (\<exists>r. rest = concat cs @ r)
    \<and> (\<forall>c\<in>set cs. c \<noteq> [] \<and> length c \<le> CHUNK_BYTES) \<and> (e = SenderDone \<longrightarrow> cs \<noteq> [])"
  using assms
proof (induction ks arbitrary: sq sent rest out)
  case Nil
  then show ?case by (intro exI [of _ "[]"]) auto
next
  case (Cons k ks)
  from Cons.prems show ?case
  proof (cases rule: sender_loop_step)
    case stop
    then show ?thesis by (intro exI [of _ "[]"]) auto
  next
    case (final n)
    then have "take n rest \<noteq> []" by auto
    with final show ?thesis by (intro exI [of _ "[take n rest]"]) (auto intro: exI [of _ "drop n rest"])
  next
    case (more n slp out')
    from Cons.IH [OF more(7)] obtain cs r where cs:
      "map fst out' = send_frames tid (e = SenderDone) (sq + 1) cs" "drop n rest = concat cs @ r"
      "\<forall>c\<in>set cs. c \<noteq> [] \<and> length c \<le> CHUNK_BYTES" "e = SenderDone \<longrightarrow> cs \<noteq> []" by blast
    have "take n rest \<noteq> []" using more(1,3) by auto
    moreover have "rest = concat (take n rest # cs) @ r"
      using cs(2) append_take_drop_id [of n rest] by simp
    ultimately show ?thesis using more cs
      by (intro exI [of _ "take n rest # cs"]) auto
  qed
qed

text \<open>The loop ends: every iteration that does not stop it consumes at least one byte.\<close>

lemma sender_terminates:
  "length rest < length ks \<Longrightarrow> snd (sender_loop tid ex sq sent rest ks) \<noteq> Streaming"
proof (induction ks arbitrary: sq sent rest)
  case (Cons k ks)
  obtain out e where oe: "sender_loop tid ex sq sent rest (k # ks) = (out, e)" by fastforce
  then show ?case
  proof (cases rule: sender_loop_step)
    case (more n slp out')
    then have "length (drop n rest) < length ks" using Cons.prems by simp
    from Cons.IH [OF this, of "sq + 1" "sent + word_of_nat n"] more oe show ?thesis by simp
  qed (use oe in auto)
qed simp

definition tick_fine :: "send_tick \<Rightarrow> bool" where
  "tick_fine k = (\<not> sk_cancel k \<and> sk_read k \<noteq> None \<and> sk_send_ok k)"

lemma sender_completes:
  assumes "list_all tick_fine ks" "length rest \<le> length ks" "rest \<noteq> []"
    and "unat sent + length rest = unat ex"
    and "sender_loop tid ex sq sent rest ks = (out, e)"
  shows "e = SenderDone \<and> (\<exists>cs. map fst out = send_frames tid True sq cs \<and> concat cs = rest)"
  using assms
proof (induction ks arbitrary: sq sent rest out)
  case Nil
  then show ?case by simp
next
  case (Cons k ks)
  have ub: "unat ex < 2 ^ 64" using unsigned_less [of ex] by simp
  have add: "unat (sent + word_of_nat n) = unat sent + n" if "n \<le> length rest" for n
  proof -
    have lt: "unat sent + n < 2 ^ 64" using that Cons.prems(4) ub by linarith
    then have "unat (word_of_nat n :: u64) = n" by (simp add: unat_of_nat take_bit_nat_eq_self)
    with lt show ?thesis by (simp add: unat_word_ariths)
  qed
  from Cons.prems(5) show ?case
  proof (cases rule: sender_loop_step)
    case stop
    then have False using Cons.prems(1,3,5)
      by (auto simp: tick_fine_def Let_def CHUNK_BYTES_def min_def max_def split: if_splits prod.splits)
    then show ?thesis ..
  next
    case (final n)
    have "n = length rest"
      using final(3,4) add [OF final(3)] Cons.prems(4) by (simp add: word_le_nat_alt)
    with final show ?thesis by (intro conjI exI [of _ "[rest]"]) auto
  next
    case (more n slp out')
    have lt: "n < length rest"
      using more(3,4) add [OF more(3)] Cons.prems(4) by (simp add: word_le_nat_alt)
    have "e = SenderDone \<and> (\<exists>cs. map fst out' = send_frames tid True (sq + 1) cs \<and> concat cs = drop n rest)"
      by (rule Cons.IH [OF _ _ _ _ more(7)])
         (use Cons.prems lt more(1) add [OF more(3)] in auto)
    then obtain cs where cs: "e = SenderDone" "map fst out' = send_frames tid True (sq + 1) cs"
      "concat cs = drop n rest" by blast
    then have "cs \<noteq> []" using lt by auto
    with cs more show ?thesis by (intro conjI exI [of _ "take n rest # cs"]) auto
  qed
qed

section \<open>What the phone makes of it\<close>

definition recv_fine :: "recv_io \<Rightarrow> bool" where
  "recv_fine io = (rv_write_ok io \<and> rv_close_ok io)"

lemma phone_on_file_chunk:
  assumes "inc tid = Some st" "pfs (if_dest st) = Some b" "if_nextSeq st = sq" "recv_fine io"
  shows "phone_on_binary io (build_file_chunk_frame tid sq l p) (inc, pfs) =
    (if l then ((inc(tid := None), pfs(if_dest st \<mapsto> b @ p)), [FileSendComplete tid (if_dest st)])
     else ((inc(tid \<mapsto> st\<lparr>if_bytesWritten := if_bytesWritten st + word_of_nat (length p),
              if_nextSeq := sq + 1\<rparr>), pfs(if_dest st \<mapsto> b @ p)), []))"
  using assms
  by (simp add: phone_on_binary_def parse_file_frame handleIncomingFileChunk_def file_fields_def
      split_pts Let_def recv_fine_def)

lemma phone_assembles:
  assumes "inc tid = Some st" "pfs (if_dest st) = Some b" "if_nextSeq st = sq" "cs \<noteq> []"
    and "list_all recv_fine ios" "length ios = length cs"
    and "phone_run (map2 Pair ios (send_frames tid True sq cs)) (inc, pfs) = ((inc', pfs'), out)"
  shows "inc' tid = None \<and> pfs' (if_dest st) = Some (b @ concat cs)
    \<and> out = [FileSendComplete tid (if_dest st)]"
  using assms
proof (induction cs arbitrary: ios inc pfs b sq st out)
  case (Cons c cs)
  obtain io ios' where ios: "ios = io # ios'" "recv_fine io" "list_all recv_fine ios'"
    "length ios' = length cs"
    using Cons.prems(5,6) by (cases ios) auto
  note on = phone_on_file_chunk [of inc tid st pfs b sq io, OF Cons.prems(1,2,3) ios(2)]
  show ?case
  proof (cases "cs = []")
    case True
    with Cons.prems(7) show ?thesis by (auto simp: ios(1) on)
  next
    case False
    define st1 where "st1 = st\<lparr>if_bytesWritten := if_bytesWritten st + word_of_nat (length c), if_nextSeq := sq + 1\<rparr>"
    have r: "phone_run (map2 Pair ios' (send_frames tid True (sq + 1) cs))
        (inc(tid \<mapsto> st1), pfs(if_dest st \<mapsto> b @ c)) = ((inc', pfs'), out)"
      using Cons.prems(7) False by (auto simp: ios(1) on st1_def split: prod.splits)
    have "inc' tid = None \<and> pfs' (if_dest st1) = Some ((b @ c) @ concat cs)
        \<and> out = [FileSendComplete tid (if_dest st1)]"
      by (rule Cons.IH [OF _ _ _ False ios(3,4) r]) (simp_all add: st1_def)
    then show ?thesis by (simp add: st1_def)
  qed
qed simp

lemma length_send_frames [simp]: "length (send_frames tid l sq cs) = length cs"
  by (induction cs arbitrary: sq) auto

lemma send_frames_nth: "i < length cs \<Longrightarrow> send_frames tid l sq cs ! i =
    build_file_chunk_frame tid (sq + word_of_nat i) (l \<and> Suc i = length cs) (cs ! i)"
proof (induction cs arbitrary: sq i)
  case (Cons c cs)
  then show ?case by (cases i) (auto simp: algebra_simps)
qed simp

lemma sender_rate:
  assumes "sender_loop tid ex sq sent rest ks = (out, e)"
  shows "(length out - 1) * TARGET_CHUNK_INTERVAL \<le>
    sum_list (map (\<lambda>(k, f, s). sk_elapsed k + s) (zip ks out))"
  using assms
proof (induction ks arbitrary: sq sent rest out)
  case Nil
  then show ?case by simp
next
  case (Cons k ks)
  from Cons.prems show ?case
  proof (cases rule: sender_loop_step)
    case (more n slp out')
    from Cons.IH [OF more(7)] more(5,6) show ?thesis by (cases out') auto
  qed auto
qed

section \<open>Properties\<close>

text \<open>
  A file sent from the PC arrives on the phone: when the phone has opened the destination for
  the announced id, the declared size is the file's (positive) length and no iteration is cancelled
  or fails, then the streamer ends with all bytes sent after at most one iteration per byte, and the
  phone, handling its frames in order with working storage, ends with exactly the file's bytes at
  the destination, forgets the transfer and answers one completion.
\<close>

theorem send_delivers:
  assumes "content \<noteq> []" "length content < 2 ^ 64" "list_all tick_fine ks" "length content \<le> length ks"
    and sent: "file_sender tid (word_of_nat (length content)) (Some content) ks = (out, e)"
    and "inc tid = Some \<lparr>if_dest = d, if_bytesWritten = 0, if_nextSeq = 0\<rparr>" "pfs d = Some []"
    and "list_all recv_fine ios" "length ios = length out"
    and run: "phone_run (map2 Pair ios (map fst out)) (inc, pfs) = ((inc', pfs'), answers)"
  shows "e = SenderDone \<and> pfs' d = Some content \<and> inc' tid = None \<and> answers = [FileSendComplete tid d]"
proof -
  have "unat (word_of_nat (length content) :: u64) = length content"
    using assms(2) by (simp add: unat_of_nat take_bit_nat_eq_self)
  then have "e = SenderDone \<and> (\<exists>cs. map fst out = send_frames tid True 0 cs \<and> concat cs = content)"
    using sender_completes [OF assms(3,4,1), of 0 "word_of_nat (length content)" tid 0 out e] sent
    by (simp add: file_sender_def)
  then obtain cs where cs: "e = SenderDone" "map fst out = send_frames tid True 0 cs" "concat cs = content"
    by blast
  then have "cs \<noteq> []" using assms(1) by auto
  moreover have "length ios = length cs" using assms(9) arg_cong [OF cs(2), of length] by simp
  ultimately show ?thesis
    using phone_assembles [of inc tid "\<lparr>if_dest = d, if_bytesWritten = 0, if_nextSeq = 0\<rparr>" pfs "[]" 0
        cs ios inc' pfs' answers] assms(6,7,8) run cs
    by simp
qed

definition fine_tick :: send_tick where
  "fine_tick = \<lparr>sk_cancel = False, sk_read = Some 2, sk_send_ok = True, sk_elapsed = 0\<rparr>"

lemma send_delivers_witness:
  "\<exists>out inc' pfs' answers. pfs' ''d'' = Some [5, 6, 7 :: u8]
     \<and> answers = [FileSendComplete 4 ''d'']
     \<and> file_sender 4 3 (Some [5, 6, 7])
         [fine_tick, fine_tick, fine_tick]
         = (out, SenderDone)
     \<and> phone_run (map2 Pair [\<lparr>rv_write_ok = True, rv_close_ok = True\<rparr>, \<lparr>rv_write_ok = True, rv_close_ok = True\<rparr>] (map fst out))
         ([4 \<mapsto> \<lparr>if_dest = ''d'', if_bytesWritten = 0, if_nextSeq = 0\<rparr>], [''d'' \<mapsto> []])
         = ((inc', pfs'), answers)"
proof -
  let ?ks = "[fine_tick, fine_tick, fine_tick]"
  let ?out = "[(build_file_chunk_frame 4 0 False [5, 6], TARGET_CHUNK_INTERVAL),
    (build_file_chunk_frame 4 1 True [7], 0)]"
  let ?ios = "[\<lparr>rv_write_ok = True, rv_close_ok = True\<rparr>, \<lparr>rv_write_ok = True, rv_close_ok = True\<rparr>]"
  let ?inc = "[4 \<mapsto> \<lparr>if_dest = ''d'', if_bytesWritten = 0, if_nextSeq = 0\<rparr>]"
  have s: "file_sender 4 (word_of_nat (length [5, 6, 7 :: u8])) (Some [5, 6, 7]) ?ks = (?out, SenderDone)"
    by (simp add: file_sender_def CHUNK_BYTES_def TARGET_CHUNK_INTERVAL_def fine_tick_def min_def max_def)
  obtain inc' pfs' answers where run:
    "phone_run (map2 Pair ?ios (map fst ?out)) (?inc, [''d'' \<mapsto> []]) = ((inc', pfs'), answers)"
    by (metis prod.exhaust)
  have "SenderDone = SenderDone \<and> pfs' ''d'' = Some [5, 6, 7] \<and> inc' 4 = None
      \<and> answers = [FileSendComplete 4 ''d'']"
    by (rule send_delivers [OF _ _ _ _ s _ _ _ _ run])
       (simp_all add: tick_fine_def recv_fine_def fine_tick_def)
  with s run show ?thesis by auto
qed

text \<open>
  The streamer is well-behaved whatever the environment answers: it stops after at most one
  iteration more than the file has bytes; its frames carry consecutive sequence numbers from 0 and
  pieces of at most 256 KiB that are a prefix of the file; the last-chunk flag is on exactly the
  final frame of a stream that ended with everything sent, and on no frame of one that was cancelled
  or failed, so the phone never takes a truncated file for a complete one.
\<close>

theorem sender_stream_shape:
  assumes "length content < length ks"
  shows "snd (file_sender tid ex (Some content) ks) \<noteq> Streaming
   \<and> (\<exists>cs. map fst (fst (file_sender tid ex (Some content) ks)) =
       map (\<lambda>i. build_file_chunk_frame tid (word_of_nat i)
          (snd (file_sender tid ex (Some content) ks) = SenderDone \<and> Suc i = length cs) (cs ! i)) [0..<length cs]
     \<and> (\<exists>r. content = concat cs @ r) \<and> list_all (\<lambda>c. c \<noteq> [] \<and> length c \<le> CHUNK_BYTES) cs)"
proof -
  obtain out e where r: "sender_loop tid ex 0 0 content ks = (out, e)" by fastforce
  from sender_frames [OF r] obtain cs where cs: "map fst out = send_frames tid (e = SenderDone) 0 cs"
    "\<exists>r. content = concat cs @ r" "\<forall>c\<in>set cs. c \<noteq> [] \<and> length c \<le> CHUNK_BYTES" by blast
  have "map fst out = map (\<lambda>i. build_file_chunk_frame tid (word_of_nat i)
      (e = SenderDone \<and> Suc i = length cs) (cs ! i)) [0..<length cs]"
    unfolding cs(1) by (rule nth_equalityI) (simp_all add: send_frames_nth)
  with cs r sender_terminates [OF assms, of tid ex 0 0] show ?thesis
    by (intro conjI exI [of _ cs]) (simp_all add: file_sender_def list_all_iff)
qed

lemma sender_stream_shape_witness:
  "snd (file_sender 1 2 (Some [5, 6])
     (replicate 3 \<lparr>sk_cancel = True, sk_read = None, sk_send_ok = False, sk_elapsed = 0\<rparr>)) \<noteq> Streaming"
  using sender_stream_shape [of "[5, 6]"
    "replicate 3 \<lparr>sk_cancel = True, sk_read = None, sk_send_ok = False, sk_elapsed = 0\<rparr>" 1 2] by simp

text \<open>
  The rate limit holds: however fast the iterations are, the time from the first to the last
  frame of a stream, sleeps included, is at least 640 ms for every frame but one, so at most 256 KiB
  per 640 ms leave for the phone.
\<close>

theorem sender_rate_limit:
  "(length (fst (file_sender tid ex opened ks)) - 1) * TARGET_CHUNK_INTERVAL \<le>
     sum_list (map (\<lambda>(k, f, s). sk_elapsed k + s) (zip ks (fst (file_sender tid ex opened ks))))"
proof (cases opened)
  case None
  then show ?thesis by (simp add: file_sender_def)
next
  case (Some content)
  obtain out e where "sender_loop tid ex 0 0 content ks = (out, e)" by fastforce
  with sender_rate [OF this] Some show ?thesis by (simp add: file_sender_def)
qed

end
