(* ===== verification/Stream.thy ===== *)
theory Stream
  imports Protocol Deps
begin

text \<open>
  Starting a stream (\<^verbatim>\<open>server-pc/src/stream.rs\<close>, with the Opus header of
  \<^verbatim>\<open>audio/encoder.rs\<close> and the profile names of \<^verbatim>\<open>video.rs\<close>): the capture retry loop, the
  negotiated parameters, the encoder fallback chain, the audio metadata and \<^verbatim>\<open>start_stream\<close>
  composed of them. Screen capture, the encoders and the audio device are the operating system's;
  whether each of them comes up is an argument.
\<close>

section \<open>Types\<close>

datatype RequestedCodec = H264 | Hevc

datatype H264Profile = Baseline | MainProfile | High

fun profile_as_str :: "H264Profile \<Rightarrow> string" where
  "profile_as_str Baseline = ''baseline''"
| "profile_as_str MainProfile = ''main''"
| "profile_as_str High = ''high''"

text \<open>The CPU slot holds one of the two Media Foundation encoders and its wire name.\<close>

datatype cpu_encoder = NvencMftH264 | NvencMftHevc | MfSoftware

datatype EncoderSlot = Cpu cpu_encoder string | GpuSdk

fun codec_wire :: "EncoderSlot \<Rightarrow> string" where
  "codec_wire (Cpu e w) = w"
| "codec_wire GpuSdk = ''h264''"

record StreamRequestParams =
  rp_codec :: RequestedCodec
  rp_max_bitrate_kbps :: "u32 option"
  rp_max_fps :: "u32 option"
  rp_keyframe_interval_ms :: "u32 option"

record EncoderConfig =
  ec_width :: u32
  ec_height :: u32
  ec_fps :: u32
  ec_bitrate_kbps :: u32
  ec_keyframe_interval_frames :: u32
  ec_profile :: H264Profile

record StreamHandle =
  sh_stream_id :: string
  sh_width :: u32
  sh_height :: u32
  sh_fps :: u32
  sh_bitrate_kbps :: u32
  sh_keyframe_interval_frames :: u32
  sh_profile :: H264Profile
  sh_codec_wire_name :: string
  sh_started_at_unix_ms :: u64
  sh_audio_metadata :: "AudioMetadata option"

section \<open>Capture\<close>

definition ATTEMPTS :: nat where "ATTEMPTS = 15"

text \<open>
  The retry loop; \<open>try_capture a\<close> is what attempt \<open>a\<close> yields (the dimensions, or an error text).
  The result is the capture or the last error, and the number of 300 ms sleeps.
\<close>

fun capture_loop :: "(nat \<Rightarrow> string + (u32 \<times> u32)) \<Rightarrow> nat \<Rightarrow> nat \<Rightarrow> string option \<Rightarrow> nat \<Rightarrow>
    (string + (u32 \<times> u32)) \<times> nat" where
  "capture_loop try_capture attempt 0 last_err sleeps =
     (Inl (case last_err of Some e \<Rightarrow> e | None \<Rightarrow> ''DxgiCapture::new failed (no error)''), sleeps)"
| "capture_loop try_capture attempt (Suc left) last_err sleeps =
     (case try_capture attempt of
        Inr c \<Rightarrow> (Inr c, sleeps)
      | Inl e \<Rightarrow> capture_loop try_capture (attempt + 1) left (Some e)
          (if attempt < ATTEMPTS - 1 then sleeps + 1 else sleeps))"

definition acquire_capture :: "(nat \<Rightarrow> string + (u32 \<times> u32)) \<Rightarrow> (string + (u32 \<times> u32)) \<times> nat" where
  "acquire_capture try_capture = capture_loop try_capture 0 ATTEMPTS None 0"

section \<open>Parameters\<close>

definition clamp :: "u32 \<Rightarrow> u32 \<Rightarrow> u32 \<Rightarrow> u32" where
  "clamp lo hi x = (if x < lo then lo else if x > hi then hi else x)"

definition unwrap_or :: "'a option \<Rightarrow> 'a \<Rightarrow> 'a" where
  "unwrap_or x d = (case x of Some v \<Rightarrow> v | None \<Rightarrow> d)"

definition negotiate :: "StreamRequestParams \<Rightarrow> u32 \<times> u32 \<Rightarrow> EncoderConfig" where
  "negotiate req dims =
     (let (cap_w, cap_h) = dims;
          (width, height) = (cap_w, cap_h);
          fps = clamp 15 60 (unwrap_or (rp_max_fps req) 60);
          bitrate_kbps = clamp 1000 50000 (unwrap_or (rp_max_bitrate_kbps req) 16000);
          kf_interval_ms = clamp 200 10000 (unwrap_or (rp_keyframe_interval_ms req) 1000);
          keyframe_interval_frames = max ((kf_interval_ms * fps) div 1000) 1
      in \<lparr> ec_width = width, ec_height = height, ec_fps = fps, ec_bitrate_kbps = bitrate_kbps,
           ec_keyframe_interval_frames = keyframe_interval_frames, ec_profile = High \<rparr>)"

section \<open>Encoder fallback chain\<close>

text \<open>Which backends come up for a configuration; a failure is an error text.\<close>

record backends =
  be_sdk :: "EncoderConfig \<Rightarrow> bool"
  be_mft_h264 :: "EncoderConfig \<Rightarrow> bool"
  be_mft_hevc :: "EncoderConfig \<Rightarrow> bool"
  be_software :: "EncoderConfig \<Rightarrow> string option"     \<comment> \<open>the error, if it fails\<close>

definition software_or_fail :: "backends \<Rightarrow> EncoderConfig \<Rightarrow> string + EncoderSlot" where
  "software_or_fail be cfg =
     (case be_software be cfg of None \<Rightarrow> Inr (Cpu MfSoftware ''h264'') | Some e \<Rightarrow> Inl e)"

definition choose_encoder :: "backends \<Rightarrow> RequestedCodec \<Rightarrow> EncoderConfig \<Rightarrow> string + EncoderSlot" where
  "choose_encoder be req_codec cfg =
     (case req_codec of
        H264 \<Rightarrow>
          if be_sdk be cfg then Inr GpuSdk
          else if be_mft_h264 be cfg then Inr (Cpu NvencMftH264 ''h264'')
          else software_or_fail be cfg
      | Hevc \<Rightarrow>
          if be_mft_hevc be cfg then Inr (Cpu NvencMftHevc ''hevc'')
          else if be_sdk be cfg then Inr GpuSdk
          else if be_mft_h264 be cfg then Inr (Cpu NvencMftH264 ''h264'')
          else software_or_fail be cfg)"

section \<open>Audio\<close>

definition OPUS_PRE_SKIP_SAMPLES :: u32 where "OPUS_PRE_SKIP_SAMPLES = 312"
definition OPUS_SEEK_PREROLL_NS :: u64 where "OPUS_SEEK_PREROLL_NS = 80000000"

definition build_opus_id_header :: "u8 \<Rightarrow> u16 \<Rightarrow> u32 \<Rightarrow> bytes" where
  "build_opus_id_header channels pre_skip sample_rate =
     as_bytes ''OpusHead'' @ [1] @ [channels] @ le_bytes 2 pre_skip @ le_bytes 4 sample_rate
     @ le_bytes 2 (0 :: u16) @ [0]"

definition audio_meta :: "deps \<Rightarrow> AudioMetadata" where
  "audio_meta D = \<lparr> am_codec = ''opus'', am_sample_rate = 48000, am_channels = 2,
     am_frame_size_ms = 20, am_bitrate_kbps = 64,
     am_csd_0_b64 = d_b64std D (build_opus_id_header 2 (ucast OPUS_PRE_SKIP_SAMPLES) 48000),
     am_csd_1_b64 = d_b64std D (le_bytes 8 ((ucast OPUS_PRE_SKIP_SAMPLES :: u64) * 1000000000 div 48000)),
     am_csd_2_b64 = d_b64std D (le_bytes 8 OPUS_SEEK_PREROLL_NS) \<rparr>"

section \<open>Start\<close>

text \<open>What the machine answers while a stream starts.\<close>

record stream_io =
  si_capture :: "nat \<Rightarrow> string + (u32 \<times> u32)"
  si_backends :: backends
  si_wasapi_ok :: bool
  si_opus_ok :: bool
  si_uuid :: string
  si_unix_ms :: u64
  si_spawn_video_err :: "string option"
  si_spawn_audio_err :: "string option"

definition start_stream :: "deps \<Rightarrow> stream_io \<Rightarrow> StreamRequestParams \<Rightarrow> string + StreamHandle" where
  "start_stream D io req =
     (case fst (acquire_capture (si_capture io)) of
        Inl e \<Rightarrow> Inl e
      | Inr dims \<Rightarrow>
          let cfg = negotiate req dims in
          (case choose_encoder (si_backends io) (rp_codec req) cfg of
             Inl e \<Rightarrow> Inl e
           | Inr encoder \<Rightarrow>
               let audio = si_wasapi_ok io \<and> si_opus_ok io;
                   audio_metadata = (if audio then Some (audio_meta D) else None)
               in case si_spawn_video_err io of Some e \<Rightarrow> Inl e
                | None \<Rightarrow>
                    if audio \<and> si_spawn_audio_err io \<noteq> None then Inl (the (si_spawn_audio_err io))
                    else Inr \<lparr> sh_stream_id = si_uuid io, sh_width = ec_width cfg,
                           sh_height = ec_height cfg, sh_fps = ec_fps cfg,
                           sh_bitrate_kbps = ec_bitrate_kbps cfg,
                           sh_keyframe_interval_frames = ec_keyframe_interval_frames cfg,
                           sh_profile = High, sh_codec_wire_name = codec_wire encoder,
                           sh_started_at_unix_ms = si_unix_ms io,
                           sh_audio_metadata = audio_metadata \<rparr>))"

section \<open>Facts\<close>

lemma clamp_bounds: "lo \<le> hi \<Longrightarrow> lo \<le> clamp lo hi x \<and> clamp lo hi x \<le> hi"
  by (auto simp: clamp_def)

lemma clamp_id: "lo \<le> x \<Longrightarrow> x \<le> hi \<Longrightarrow> clamp lo hi x = x"
  by (auto simp: clamp_def)

lemma clamp_le: "lo \<le> u \<Longrightarrow> x \<le> u \<Longrightarrow> clamp lo hi x \<le> u"
  by (auto simp: clamp_def)

lemma clamp_ge: "l \<le> x \<Longrightarrow> l \<le> hi \<Longrightarrow> l \<le> clamp lo hi x"
  by (auto simp: clamp_def)

lemma capture_loop_result:
  "capture_loop f a n e s = (r, s') \<Longrightarrow>
    (case r of Inr c \<Rightarrow> \<exists>i<n. f (a + i) = Inr c \<and> (\<forall>j<i. \<exists>e. f (a + j) = Inl e)
     | Inl e' \<Rightarrow> \<forall>i<n. \<exists>e. f (a + i) = Inl e)"
proof (induction n arbitrary: a e s)
  case 0
  then show ?case by auto
next
  case (Suc n)
  show ?case
  proof (cases "f a")
    case (Inl e1)
    with Suc.prems have rec: "capture_loop f (a + 1) n (Some e1)
        (if a < ATTEMPTS - 1 then s + 1 else s) = (r, s')" by simp
    from Suc.IH [OF rec] show ?thesis
    proof (cases r)
      case Inl': (Inl e')
      with Suc.IH [OF rec] have "\<forall>i<n. \<exists>e. f (a + 1 + i) = Inl e" by simp
      then have "\<exists>e. f (a + i) = Inl e" if "i < Suc n" for i
        using that Inl by (cases i) auto
      with Inl' show ?thesis by simp
    next
      case (Inr c)
      with Suc.IH [OF rec] obtain i where i: "i < n" "f (a + 1 + i) = Inr c"
        "\<forall>j<i. \<exists>e. f (a + 1 + j) = Inl e" by auto
      have "\<exists>e. f (a + j) = Inl e" if "j < Suc i" for j
        using that i(3) Inl by (cases j) auto
      with i Inr show ?thesis by (auto intro!: exI [of _ "Suc i"])
    qed
  next
    case (Inr c)
    with Suc.prems have "r = Inr c" by simp
    with Inr show ?thesis by (auto intro!: exI [of _ 0])
  qed
qed

lemma negotiate_bounds:
  fixes req dims
  defines "c \<equiv> negotiate req dims"
  shows "15 \<le> ec_fps c \<and> ec_fps c \<le> 60" "1000 \<le> ec_bitrate_kbps c \<and> ec_bitrate_kbps c \<le> 50000"
    "3 \<le> ec_keyframe_interval_frames c \<and> ec_keyframe_interval_frames c \<le> 600"
    "(ec_width c, ec_height c) = dims"
proof -
  let ?fps = "clamp 15 60 (unwrap_or (rp_max_fps req) 60)"
  let ?kf = "clamp 200 10000 (unwrap_or (rp_keyframe_interval_ms req) 1000)"
  have f: "15 \<le> ?fps \<and> ?fps \<le> 60" by (rule clamp_bounds) simp
  show "15 \<le> ec_fps c \<and> ec_fps c \<le> 60"
    using f by (simp add: c_def negotiate_def Let_def split: prod.split)
  show "1000 \<le> ec_bitrate_kbps c \<and> ec_bitrate_kbps c \<le> 50000"
    unfolding c_def negotiate_def Let_def by (simp add: clamp_bounds split: prod.split)
  have k: "200 \<le> ?kf \<and> ?kf \<le> 10000" by (rule clamp_bounds) simp
  have "unat ?fps \<le> 60" "unat ?kf \<le> 10000" using f k by (simp_all add: word_le_nat_alt)
  then have p: "unat ?kf * unat ?fps \<le> 600000"
    using mult_le_mono [of "unat ?kf" 10000 "unat ?fps" 60] by simp
  then have "unat (?kf * ?fps) = unat ?kf * unat ?fps" by (simp add: unat_word_ariths)
  then have "unat (?kf * ?fps div 1000) \<le> 600" using p by (simp add: unat_div)
  then have "?kf * ?fps div 1000 \<le> 600" by (simp add: word_le_nat_alt)
  then have "max (?kf * ?fps div 1000) 1 \<le> 600" by (simp add: max_def)
  moreover have "3 \<le> max (?kf * ?fps div 1000) 1"
  proof -
    have "200 \<le> unat ?kf" "15 \<le> unat ?fps" using f k by (simp_all add: word_le_nat_alt)
    then have "3000 \<le> unat ?kf * unat ?fps"
      using mult_le_mono [of 200 "unat ?kf" 15 "unat ?fps"] by simp
    then have "3 \<le> unat (?kf * ?fps div 1000)"
      using \<open>unat (?kf * ?fps) = unat ?kf * unat ?fps\<close> by (simp add: unat_div)
    then have "3 \<le> ?kf * ?fps div 1000" by (simp add: word_le_nat_alt)
    then show ?thesis by (simp add: le_max_iff_disj)
  qed
  ultimately show "3 \<le> ec_keyframe_interval_frames c \<and> ec_keyframe_interval_frames c \<le> 600"
    by (simp add: c_def negotiate_def Let_def split: prod.split)
  show "(ec_width c, ec_height c) = dims" by (simp add: c_def negotiate_def Let_def split: prod.split)
qed

lemma start_stream_Inr:
  assumes "start_stream D io req = Inr h"
  shows "\<exists>dims enc. (\<exists>i<15. si_capture io i = Inr dims)
    \<and> choose_encoder (si_backends io) (rp_codec req) (negotiate req dims) = Inr enc
    \<and> (sh_width h, sh_height h) = dims \<and> sh_codec_wire_name h = codec_wire enc
    \<and> sh_fps h = ec_fps (negotiate req dims) \<and> sh_bitrate_kbps h = ec_bitrate_kbps (negotiate req dims)
    \<and> sh_keyframe_interval_frames h = ec_keyframe_interval_frames (negotiate req dims)
    \<and> sh_stream_id h = si_uuid io"
proof -
  obtain r s where r: "capture_loop (si_capture io) 0 ATTEMPTS None 0 = (r, s)" by fastforce
  with assms obtain dims where d: "r = Inr dims"
    by (auto simp: start_stream_def acquire_capture_def split: sum.splits)
  have cap: "\<exists>i<15. si_capture io i = Inr dims"
    using capture_loop_result [OF r] d by (auto simp: ATTEMPTS_def)
  from assms r d obtain enc where e: "choose_encoder (si_backends io) (rp_codec req) (negotiate req dims) = Inr enc"
    by (auto simp: start_stream_def acquire_capture_def Let_def split: sum.splits)
  have "(ec_width (negotiate req dims), ec_height (negotiate req dims)) = dims"
    by (rule negotiate_bounds)
  with assms r d e cap show ?thesis
    by (intro exI [of _ dims] exI [of _ enc])
       (auto simp: start_stream_def acquire_capture_def Let_def split: option.splits if_splits)
qed

section \<open>Properties\<close>


definition demo_stream_io :: stream_io where
  "demo_stream_io = \<lparr> si_capture = (\<lambda>a. if a < 2 then Inl ''busy'' else Inr (1920, 1080)),
     si_backends = \<lparr> be_sdk = (\<lambda>c. False), be_mft_h264 = (\<lambda>c. True), be_mft_hevc = (\<lambda>c. False),
       be_software = (\<lambda>c. None) \<rparr>,
     si_wasapi_ok = False, si_opus_ok = False, si_uuid = ''s1'', si_unix_ms = 5,
     si_spawn_video_err = None, si_spawn_audio_err = None \<rparr>"


text \<open>
  The encoder fallback chain: a stream fails for want of an encoder only when the software
  encoder, the last resort, fails too and none of the hardware paths that the request admits came
  up; \<^verbatim>\<open>hevc\<close> goes on the wire only if it was requested and its encoder came up, and every
  other choice is announced as \<^verbatim>\<open>h264\<close>; an H.264 request never gets HEVC.
\<close>

theorem encoder_fallback:
  "(case choose_encoder be req_codec cfg of
      Inl e \<Rightarrow> be_software be cfg = Some e \<and> \<not> be_sdk be cfg \<and> \<not> be_mft_h264 be cfg
        \<and> \<not> (req_codec = Hevc \<and> be_mft_hevc be cfg)
    | Inr enc \<Rightarrow> codec_wire enc = (if req_codec = Hevc \<and> be_mft_hevc be cfg then ''hevc'' else ''h264'')
        \<and> (enc = GpuSdk \<longleftrightarrow> be_sdk be cfg \<and> \<not> (req_codec = Hevc \<and> be_mft_hevc be cfg)))"
  by (cases req_codec) (auto simp: choose_encoder_def software_or_fail_def split: option.split)

end
