(* ===== verification/Connection.thy ===== *)
theory Connection
  imports Protocol Deps Pairing Trusted_Devices File_Send File_Transfer Stream
begin

text \<open>
  One peer connection of the PC server (\<^verbatim>\<open>server-pc/src/connection.rs\<close>):
  \<^verbatim>\<open>handle_client_msg\<close> with every arm, and \<^verbatim>\<open>run_connection\<close> as a step function over the
  events its \<^verbatim>\<open>select!\<close> can take, with the cleanup after the loop. The state of the task is the
  record \<open>conn\<close>; what it shares with other tasks (pairing store, trust store, bridge, disk) is the
  record \<open>world\<close>. Everything the code does to the outside is listed as effects, in order; what the
  outside answers within one event is the record \<open>env\<close>.
\<close>

section \<open>State, events, effects\<close>

record FileSendState =
  se_name :: string
  se_temp_path :: string
  se_expected_size :: u64
  se_dest_path :: "string option"

record conn =
  cn_authenticated :: bool
  cn_stream :: "StreamHandle option"
  cn_transfers :: transfers
  cn_sends :: "u32 \<rightharpoonup> FileSendState"
  cn_registration :: "u64 option"

definition new_conn :: conn where
  "new_conn = \<lparr> cn_authenticated = False, cn_stream = None, cn_transfers = Map.empty,
     cn_sends = Map.empty, cn_registration = None \<rparr>"

text \<open>A command queue of a connection is named by the connection's number.\<close>

record world =
  wd_pairing :: Inner
  wd_trusted :: TrustedDevicesStore
  wd_bridge :: "nat FileSendBridge"
  wd_fs :: fs

record Config =
  cf_server_name :: string
  cf_os :: string
  cf_version :: string

datatype Message = MText string | MBinary bytes | MPing bytes | MPong bytes | MClose

datatype try_send = SendOk | SendFull | SendClosed

text \<open>
  The arms of the \<^verbatim>\<open>select!\<close>: the idle timer, a message or the end of the inbox, a packet or
  the end of the stream worker, a command from the bridge.
\<close>

datatype conn_event =
    EvIdle
  | EvInbox "Message option"
  | EvPacket "bytes option" try_send
  | EvCmd "FileSendCmd option"

datatype effect =
    Sent ServerMsg
  | SentPong bytes
  | SentVideo bytes
  | InputEvent ClientMsg
  | ClipboardWritten string
  | StopStream string                    \<comment> \<open>the stream's stop flag is set\<close>
  | ForceKeyframe string
  | SpawnSender u32 string string u64    \<comment> \<open>id, name, temp_path, size\<close>
  | CancelSender u32                     \<comment> \<open>the send's cancel flag is set\<close>
  | Unlink string

datatype flow = Proceed | Continue | Break

record env =
  en_now :: nat
  en_key :: bytes             \<comment> \<open>what \<open>pairing.key()\<close> returns after the verification\<close>
  en_token_bytes :: bytes
  en_device_uuid :: string
  en_session_uuid :: string
  en_unix_ms :: u64
  en_save :: save_io
  en_stream_io :: stream_io
  en_begin :: begin_io
  en_chunk :: chunk_io
  en_rm_ok :: bool
  en_clipboard :: "string option"

text \<open>What stays fixed for the process: the libraries, serde for the trust file, the configuration.\<close>

record server_setup =
  su_deps :: deps
  su_ser :: "TrustedDevicesFile \<Rightarrow> bytes option"
  su_cfg :: Config

type_synonym outcome = "conn \<times> world \<times> effect list"

section \<open>handle_client_msg, arm by arm\<close>

definition send_error :: "ErrorCode \<Rightarrow> string \<Rightarrow> effect" where
  "send_error code m = Sent (Error code m)"

definition version_ok :: "u32 \<Rightarrow> bool" where
  "version_ok v = (MIN_SUPPORTED_VERSION \<le> v \<and> v \<le> PROTOCOL_VERSION)"

definition version_error :: "u32 \<Rightarrow> effect" where
  "version_error v = send_error VersionMismatch
     (''server accepts v='' @ show_u32 MIN_SUPPORTED_VERSION @ ''..='' @ show_u32 PROTOCOL_VERSION
      @ '', got v='' @ show_u32 v)"

definition server_info :: "Config \<Rightarrow> ServerInfo" where
  "server_info cfg = \<lparr> si_name = cf_server_name cfg, si_os = cf_os cfg, si_version = cf_version cfg \<rparr>"

definition handle_hello :: "server_setup \<Rightarrow> env \<Rightarrow> u32 \<Rightarrow> string \<Rightarrow> string \<Rightarrow> ClientInfo \<Rightarrow> conn \<Rightarrow> world \<Rightarrow>
    bool \<times> outcome" where
  "handle_hello su en v c nonce client cn wd =
     (if \<not> version_ok v then (False, cn, wd, [version_error v])
      else
        let (vr, pairing) = verify_and_consume c (en_now en) (wd_pairing wd);
            wd = wd\<lparr>wd_pairing := pairing\<rparr>
        in case vr of
          VOk \<Rightarrow>
            (case d_b64url_dec (su_deps su) nonce of
               None \<Rightarrow> (False, cn, wd, [send_error Malformed ''nonce not base64url''])
             | Some nonce_bytes \<Rightarrow>
                 let hmac_hex = hex_encode (d_hmac_sha256 (su_deps su) (en_key en) nonce_bytes);
                     session = en_session_uuid en;
                     (minted, trusted) = mint (su_deps su) (su_ser su) (en_token_bytes en)
                        (en_device_uuid en) (en_unix_ms en) (en_save en) (ci_name client) (wd_trusted wd);
                     wd = wd\<lparr>wd_trusted := trusted\<rparr>;
                     (trust_token, device_id) =
                       (case minted of Inr (dev_id, tok) \<Rightarrow> (Some tok, Some dev_id) | Inl e \<Rightarrow> (None, None))
                 in (True, cn\<lparr>cn_authenticated := True\<rparr>, wd,
                     [Sent (Welcome session (server_info (su_cfg su)) hmac_hex trust_token device_id)]))
        | VBadCode \<Rightarrow> (False, cn, wd, [send_error BadPairingCode ''wrong code''])
        | VExpired \<Rightarrow> (False, cn, wd, [send_error CodeExpired ''code expired''])
        | VUsed \<Rightarrow> (False, cn, wd, [send_error CodeUsed ''code already used'']))"

definition handle_trusted_hello :: "server_setup \<Rightarrow> env \<Rightarrow> u32 \<Rightarrow> string \<Rightarrow> string \<Rightarrow> conn \<Rightarrow> world \<Rightarrow>
    bool \<times> outcome" where
  "handle_trusted_hello su en v device_id token cn wd =
     (if \<not> version_ok v then (False, cn, wd, [version_error v])
      else
        let (vo, trusted) = verify (su_deps su) (su_ser su) (en_unix_ms en) (en_save en)
              device_id token (wd_trusted wd);
            wd = wd\<lparr>wd_trusted := trusted\<rparr>
        in case vo of
          TOk device_name \<Rightarrow>
            (True, cn\<lparr>cn_authenticated := True\<rparr>, wd,
             [Sent (Welcome (en_session_uuid en) (server_info (su_cfg su)) '''' None None)])
        | TUnknownDevice \<Rightarrow>
            (False, cn, wd, [send_error UnknownDevice ''device not trusted; please re-pair via QR''])
        | TBadToken \<Rightarrow> (False, cn, wd, [send_error BadTrustToken ''trust token mismatch'']))"

definition ascii_lower :: "char \<Rightarrow> char" where
  "ascii_lower c = (let n = (of_char c :: nat) in if 65 \<le> n \<and> n \<le> 90 then char_of (n + 32) else c)"

definition parse_codec :: "string \<Rightarrow> RequestedCodec option" where
  "parse_codec s = (let l = map ascii_lower s in
     if l = ''h264'' then Some H264
     else if l = ''hevc'' \<or> l = ''h265'' then Some Hevc else None)"

definition stream_params :: "string \<Rightarrow> RequestedCodec \<Rightarrow> u32 option \<Rightarrow> u32 option \<Rightarrow> u32 option \<Rightarrow>
    StreamRequestParams" where
  "stream_params peer_label req_codec max_bitrate_kbps max_fps prefer_keyframe_interval_ms =
     (let on_relay = starts_with peer_label ''relay/'';
          max_bitrate_kbps = (if on_relay then Some (min (unwrap_or max_bitrate_kbps 30000) 3000)
                              else max_bitrate_kbps);
          prefer_keyframe_interval_ms =
            (if on_relay then Some (max (unwrap_or prefer_keyframe_interval_ms 1000) 2000)
             else prefer_keyframe_interval_ms)
      in \<lparr> rp_codec = req_codec, rp_max_bitrate_kbps = max_bitrate_kbps, rp_max_fps = max_fps,
           rp_keyframe_interval_ms = prefer_keyframe_interval_ms \<rparr>)"

definition stream_info :: "StreamHandle \<Rightarrow> StreamInfo" where
  "stream_info h = \<lparr> st_stream_id = sh_stream_id h, st_codec = sh_codec_wire_name h,
     st_profile = profile_as_str (sh_profile h), st_level = ''4.2'', st_width = sh_width h,
     st_height = sh_height h, st_fps = sh_fps h, st_bitrate_kbps = sh_bitrate_kbps h,
     st_keyframe_interval_frames = sh_keyframe_interval_frames h, st_pixel_format = ''yuv420p'',
     st_started_at_unix_ms = sh_started_at_unix_ms h, st_audio = sh_audio_metadata h \<rparr>"

definition handle_stream_request :: "server_setup \<Rightarrow> env \<Rightarrow> string \<Rightarrow> string \<Rightarrow> u32 option \<Rightarrow> u32 option \<Rightarrow>
    u32 option \<Rightarrow> conn \<Rightarrow> world \<Rightarrow> bool \<times> outcome" where
  "handle_stream_request su en peer_label codec_name br fps kf cn wd =
     (if \<not> cn_authenticated cn then (False, cn, wd, [send_error NotAuthenticated ''hello first''])
      else case parse_codec codec_name of
        None \<Rightarrow> (True, cn, wd,
          [send_error StreamUnavailable (''only h264/hevc supported, got '' @ codec_name)])
      | Some req_codec \<Rightarrow>
          if cn_stream cn \<noteq> None
          then (True, cn, wd, [send_error StreamAlreadyRunning ''stop the current stream first''])
          else case start_stream (su_deps su) (en_stream_io en)
                      (stream_params peer_label req_codec br fps kf) of
            Inr handle \<Rightarrow> (True, cn\<lparr>cn_stream := Some handle\<rparr>, wd, [Sent (StreamStarted (stream_info handle))])
          | Inl e \<Rightarrow> (True, cn, wd,
              [send_error StreamUnavailable (''could not start stream: '' @ e)]))"

definition handle_stream_stop :: "conn \<Rightarrow> world \<Rightarrow> bool \<times> outcome" where
  "handle_stream_stop cn wd =
     (case cn_stream cn of
        Some handle \<Rightarrow> (True, cn\<lparr>cn_stream := None\<rparr>, wd,
          [StopStream (sh_stream_id handle), Sent (StreamStopped (sh_stream_id handle) ClientRequested '''')])
      | None \<Rightarrow> (True, cn, wd, []))"

fun handle_client_msg :: "server_setup \<Rightarrow> env \<Rightarrow> string \<Rightarrow> ClientMsg \<Rightarrow> conn \<Rightarrow> world \<Rightarrow> bool \<times> outcome" where
  "handle_client_msg su en peer_label (Hello v c nonce client) cn wd =
     handle_hello su en v c nonce client cn wd"
| "handle_client_msg su en peer_label (TrustedHello v device_id token client) cn wd =
     handle_trusted_hello su en v device_id token cn wd"
| "handle_client_msg su en peer_label (Ping ts) cn wd =
     (if \<not> cn_authenticated cn then (False, cn, wd, [send_error NotAuthenticated ''hello first''])
      else (True, cn, wd, [Sent (Pong ts)]))"
| "handle_client_msg su en peer_label (StreamRequest codec_name br fps kf) cn wd =
     handle_stream_request su en peer_label codec_name br fps kf cn wd"
| "handle_client_msg su en peer_label (StreamStop sid) cn wd = handle_stream_stop cn wd"
| "handle_client_msg su en peer_label (KeyframeRequest sid) cn wd =
     (True, cn, wd, case cn_stream cn of Some s \<Rightarrow> [ForceKeyframe (sh_stream_id s)] | None \<Rightarrow> [])"
| "handle_client_msg su en peer_label (ClipboardSet txt) cn wd = (True, cn, wd, [ClipboardWritten txt])"
| "handle_client_msg su en peer_label ClipboardGet cn wd =
     (True, cn, wd, [Sent (ClipboardText (unwrap_or (en_clipboard en) ''''))])"
| "handle_client_msg su en peer_label (MouseMove x y) cn wd = (True, cn, wd, [InputEvent (MouseMove x y)])"
| "handle_client_msg su en peer_label (MouseButton b down) cn wd =
     (True, cn, wd, [InputEvent (MouseButton b down)])"
| "handle_client_msg su en peer_label (MouseScroll dx dy) cn wd =
     (True, cn, wd, [InputEvent (MouseScroll dx dy)])"
| "handle_client_msg su en peer_label (KeyText txt) cn wd = (True, cn, wd, [InputEvent (KeyText txt)])"
| "handle_client_msg su en peer_label (KeyEvent vk down) cn wd =
     (True, cn, wd, [InputEvent (KeyEvent vk down)])"
| "handle_client_msg su en peer_label (FileTransferBegin tid name fsize) cn wd = (True, cn, wd, [])"
| "handle_client_msg su en peer_label (FileTransferAbort tid reason) cn wd = (True, cn, wd, [])"
| "handle_client_msg su en peer_label (FileSendAccepted tid dest) cn wd = (True, cn, wd, [])"
| "handle_client_msg su en peer_label (FileSendComplete tid dest) cn wd = (True, cn, wd, [])"
| "handle_client_msg su en peer_label (FileSendFailed tid reason) cn wd = (True, cn, wd, [])"

end
