(* ===== verification/Run_Connection.thy ===== *)
theory Run_Connection
  imports Connection
begin

text \<open>
  The loop of \<^verbatim>\<open>run_connection\<close> (\<^verbatim>\<open>server-pc/src/connection.rs\<close>): one function per arm
  of the \<^verbatim>\<open>select!\<close>, the lazy claim of the bridge slot at the end of an iteration, the fold
  over a sequence of events and the cleanup after the loop. \<^verbatim>\<open>Proceed\<close> is an iteration that
  reaches its end, \<^verbatim>\<open>Continue\<close> and \<^verbatim>\<open>Break\<close> are the keywords.
\<close>

type_synonym step_result = "flow \<times> conn \<times> world \<times> effect list"

section \<open>The file messages handled inline\<close>

definition unlink :: "bool \<Rightarrow> string \<Rightarrow> world \<Rightarrow> world" where
  "unlink ok path wd = wd\<lparr>wd_fs := remove_file ok path (wd_fs wd)\<rparr>"

definition on_file_begin :: "env \<Rightarrow> u32 \<Rightarrow> string \<Rightarrow> u64 \<Rightarrow> conn \<Rightarrow> world \<Rightarrow> step_result" where
  "on_file_begin en tid name fsize cn wd =
     (if \<not> cn_authenticated cn
      then (Continue, cn, wd, [Sent (FileTransferFailed tid ''not authenticated'')])
      else let (ts, fs, out) = handle_file_begin (en_begin en) tid name fsize (cn_transfers cn) (wd_fs wd)
           in (Proceed, cn\<lparr>cn_transfers := ts\<rparr>, wd\<lparr>wd_fs := fs\<rparr>, map Sent out))"

definition on_file_abort :: "env \<Rightarrow> u32 \<Rightarrow> conn \<Rightarrow> world \<Rightarrow> step_result" where
  "on_file_abort en tid cn wd =
     (let (ts, fs) = handle_file_abort (en_rm_ok en) tid (cn_transfers cn) (wd_fs wd)
      in (Proceed, cn\<lparr>cn_transfers := ts\<rparr>, wd\<lparr>wd_fs := fs\<rparr>, []))"

definition on_send_accepted :: "u32 \<Rightarrow> string \<Rightarrow> conn \<Rightarrow> world \<Rightarrow> step_result" where
  "on_send_accepted tid dest_path cn wd =
     (case cn_sends cn tid of
        Some st \<Rightarrow> (Proceed, cn\<lparr>cn_sends := (cn_sends cn)(tid \<mapsto> st\<lparr>se_dest_path := Some dest_path\<rparr>)\<rparr>, wd, [])
      | None \<Rightarrow> (Proceed, cn, wd, []))"

definition on_send_complete :: "env \<Rightarrow> u32 \<Rightarrow> conn \<Rightarrow> world \<Rightarrow> step_result" where
  "on_send_complete en tid cn wd =
     (case cn_sends cn tid of
        Some st \<Rightarrow> (Proceed, cn\<lparr>cn_sends := (cn_sends cn)(tid := None)\<rparr>,
          unlink (en_rm_ok en) (se_temp_path st) wd, [Unlink (se_temp_path st)])
      | None \<Rightarrow> (Proceed, cn, wd, []))"

text \<open>A phone-reported failure and a cancel from the browser do the same to the send.\<close>

definition drop_send :: "env \<Rightarrow> u32 \<Rightarrow> conn \<Rightarrow> world \<Rightarrow> step_result" where
  "drop_send en tid cn wd =
     (case cn_sends cn tid of
        Some st \<Rightarrow> (Proceed, cn\<lparr>cn_sends := (cn_sends cn)(tid := None)\<rparr>,
          unlink (en_rm_ok en) (se_temp_path st) wd, [CancelSender tid, Unlink (se_temp_path st)])
      | None \<Rightarrow> (Proceed, cn, wd, []))"

section \<open>The arms of the loop\<close>

definition on_text :: "server_setup \<Rightarrow> env \<Rightarrow> string \<Rightarrow> string \<Rightarrow> conn \<Rightarrow> world \<Rightarrow> step_result" where
  "on_text su en peer_label txt cn wd =
     (case d_from_json (su_deps su) txt of
        None \<Rightarrow> (Break, cn, wd, [send_error Malformed ''cannot parse message''])
      | Some (FileTransferBegin tid name fsize) \<Rightarrow> on_file_begin en tid name fsize cn wd
      | Some (FileTransferAbort tid reason) \<Rightarrow> on_file_abort en tid cn wd
      | Some (FileSendAccepted tid dest_path) \<Rightarrow> on_send_accepted tid dest_path cn wd
      | Some (FileSendComplete tid dest_path) \<Rightarrow> on_send_complete en tid cn wd
      | Some (FileSendFailed tid reason) \<Rightarrow> drop_send en tid cn wd
      | Some other \<Rightarrow>
          let (cont, cn, wd, out) = handle_client_msg su en peer_label other cn wd
          in (if cont then Proceed else Break, cn, wd, out))"

definition on_binary :: "env \<Rightarrow> bytes \<Rightarrow> conn \<Rightarrow> world \<Rightarrow> step_result" where
  "on_binary en b cn wd =
     (if \<not> cn_authenticated cn then (Continue, cn, wd, [])
      else case peek_frame_header b of
        Some (t, flags) \<Rightarrow>
          if t = frame_FILE then
            (let (ts, fs, out) = handle_file_chunk (en_chunk en) b (cn_transfers cn) (wd_fs wd)
             in (Proceed, cn\<lparr>cn_transfers := ts\<rparr>, wd\<lparr>wd_fs := fs\<rparr>, map Sent out))
          else (Proceed, cn, wd, [])
      | None \<Rightarrow> (Proceed, cn, wd, []))"

definition on_inbox :: "server_setup \<Rightarrow> env \<Rightarrow> string \<Rightarrow> Message option \<Rightarrow> conn \<Rightarrow> world \<Rightarrow> step_result" where
  "on_inbox su en peer_label m cn wd =
     (case m of
        None \<Rightarrow> (Break, cn, wd, [])
      | Some (MText txt) \<Rightarrow> on_text su en peer_label txt cn wd
      | Some (MBinary b) \<Rightarrow> on_binary en b cn wd
      | Some MClose \<Rightarrow> (Break, cn, wd, [])
      | Some (MPing p) \<Rightarrow> (Proceed, cn, wd, [SentPong p])
      | Some (MPong p) \<Rightarrow> (Proceed, cn, wd, []))"

text \<open>Without a stream the packet arm is pending for ever: the event does not happen.\<close>

definition on_packet :: "bytes option \<Rightarrow> try_send \<Rightarrow> conn \<Rightarrow> world \<Rightarrow> step_result" where
  "on_packet maybe_pkt answer cn wd =
     (case cn_stream cn of
        None \<Rightarrow> (Continue, cn, wd, [])
      | Some handle \<Rightarrow>
          (case maybe_pkt of
             None \<Rightarrow> (Continue, cn\<lparr>cn_stream := None\<rparr>, wd,
               [Sent (StreamStopped (sh_stream_id handle) EncoderError ''stream worker exited''),
                StopStream (sh_stream_id handle)])
           | Some bin \<Rightarrow>
               (case answer of
                  SendOk \<Rightarrow> (Proceed, cn, wd, [SentVideo bin])
                | SendFull \<Rightarrow> (Proceed, cn, wd, [])
                | SendClosed \<Rightarrow> (Break, cn, wd, []))))"

definition dispatch_file_send_cmd :: "u32 \<Rightarrow> string \<Rightarrow> u64 \<Rightarrow> string \<Rightarrow> conn \<Rightarrow> conn \<times> effect list" where
  "dispatch_file_send_cmd tid name fsize temp_path cn =
     (cn\<lparr>cn_sends := (cn_sends cn)(tid \<mapsto> \<lparr> se_name = name, se_temp_path = temp_path,
            se_expected_size = fsize, se_dest_path = None \<rparr>)\<rparr>,
      [Sent (FileSendBegin tid name fsize), SpawnSender tid name temp_path fsize])"

definition on_cmd :: "env \<Rightarrow> FileSendCmd option \<Rightarrow> conn \<Rightarrow> world \<Rightarrow> step_result" where
  "on_cmd en cmd cn wd =
     (case cmd of
        None \<Rightarrow> (Continue, cn, wd, [])
      | Some c \<Rightarrow>
          if \<not> cn_authenticated cn then
            (case c of
               SendFile tid name fsize temp_path \<Rightarrow>
                 (Continue, cn, unlink (en_rm_ok en) temp_path wd, [Unlink temp_path])
             | CancelFile tid \<Rightarrow> (Continue, cn, wd, []))
          else
            (case c of
               SendFile tid name fsize temp_path \<Rightarrow>
                 (let (cn, out) = dispatch_file_send_cmd tid name fsize temp_path cn
                  in (Proceed, cn, wd, out))
             | CancelFile tid \<Rightarrow> drop_send en tid cn wd))"

definition select_arm :: "server_setup \<Rightarrow> string \<Rightarrow> env \<Rightarrow> conn_event \<Rightarrow> conn \<Rightarrow> world \<Rightarrow> step_result" where
  "select_arm su peer_label en ev cn wd =
     (case ev of
        EvIdle \<Rightarrow> (Break, cn, wd, [])
      | EvInbox m \<Rightarrow> on_inbox su en peer_label m cn wd
      | EvPacket p answer \<Rightarrow> on_packet p answer cn wd
      | EvCmd cmd \<Rightarrow> on_cmd en cmd cn wd)"

text \<open>The lazy registration; \<open>me\<close> names this connection's command queue.\<close>

definition register_once :: "nat \<Rightarrow> conn \<Rightarrow> world \<Rightarrow> conn \<times> world" where
  "register_once me cn wd =
     (if cn_authenticated cn \<and> cn_registration cn = None then
        (let (inst, bridge) = register me (wd_bridge wd)
         in (cn\<lparr>cn_registration := Some inst\<rparr>, wd\<lparr>wd_bridge := bridge\<rparr>))
      else (cn, wd))"

definition conn_step :: "server_setup \<Rightarrow> string \<Rightarrow> nat \<Rightarrow> env \<Rightarrow> conn_event \<Rightarrow> conn \<Rightarrow> world \<Rightarrow>
    bool \<times> conn \<times> world \<times> effect list" where
  "conn_step su peer_label me en ev cn wd =
     (let (fl, cn, wd, out) = select_arm su peer_label en ev cn wd
      in case fl of
           Break \<Rightarrow> (False, cn, wd, out)
         | Continue \<Rightarrow> (True, cn, wd, out)
         | Proceed \<Rightarrow> (let (cn, wd) = register_once me cn wd in (True, cn, wd, out)))"

section \<open>The whole connection\<close>

text \<open>
  The cleanup; the two maps are drained in an order the hash map chooses, and every removal has its
  own answer.
\<close>

definition drain_sends :: "(u32 \<Rightarrow> bool) \<Rightarrow> u32 list \<Rightarrow> (u32 \<rightharpoonup> FileSendState) \<Rightarrow> fs \<Rightarrow> fs \<times> effect list" where
  "drain_sends rm_ok order sends fs =
     fold (\<lambda>tid (fs, out). case sends tid of
        Some st \<Rightarrow> (remove_file (rm_ok tid) (se_temp_path st) fs,
                    out @ [CancelSender tid, Unlink (se_temp_path st)])
      | None \<Rightarrow> (fs, out)) order (fs, [])"

definition cleanup :: "(u32 \<Rightarrow> bool) \<Rightarrow> u32 list \<Rightarrow> u32 list \<Rightarrow> conn \<Rightarrow> world \<Rightarrow> world \<times> effect list" where
  "cleanup rm_ok torder sorder cn wd =
     (let out1 = (case cn_stream cn of Some h \<Rightarrow> [StopStream (sh_stream_id h)] | None \<Rightarrow> []);
          fs = drain_transfers rm_ok torder (cn_transfers cn) (wd_fs wd);
          (fs, out2) = drain_sends rm_ok sorder (cn_sends cn) fs;
          bridge = (case cn_registration cn of
                      Some reg \<Rightarrow> deregister reg (wd_bridge wd) | None \<Rightarrow> wd_bridge wd)
      in (wd\<lparr>wd_fs := fs, wd_bridge := bridge\<rparr>, out1 @ out2))"

text \<open>
  Other tasks share the world: between two events of this connection it may change. An entry of the
  run is that change, the answers, and the event.
\<close>

type_synonym entry = "(world \<Rightarrow> world) \<times> env \<times> conn_event"

fun loop_run :: "server_setup \<Rightarrow> string \<Rightarrow> nat \<Rightarrow> entry list \<Rightarrow> conn \<Rightarrow> world \<Rightarrow>
    bool \<times> conn \<times> world \<times> effect list" where
  "loop_run su peer_label me [] cn wd = (True, cn, wd, [])"
| "loop_run su peer_label me ((other, en, ev) # es) cn wd =
     (let (go, cn, wd, out) = conn_step su peer_label me en ev cn (other wd)
      in if go then (let (go, cn, wd, out2) = loop_run su peer_label me es cn wd in (go, cn, wd, out @ out2))
         else (False, cn, wd, out))"

definition run_connection :: "server_setup \<Rightarrow> string \<Rightarrow> nat \<Rightarrow> entry list \<Rightarrow>
    (u32 \<Rightarrow> bool) \<Rightarrow> u32 list \<Rightarrow> u32 list \<Rightarrow> world \<Rightarrow> world \<times> effect list" where
  "run_connection su peer_label me es rm_ok torder sorder wd =
     (let (go, cn, wd, out) = loop_run su peer_label me es new_conn wd;
          (wd, out2) = cleanup rm_ok torder sorder cn wd
      in (wd, out @ out2))"

lemmas arm_defs [step_defs] = on_text_def on_binary_def on_inbox_def on_packet_def on_cmd_def
  on_file_begin_def on_file_abort_def on_send_accepted_def on_send_complete_def drop_send_def
  dispatch_file_send_cmd_def select_arm_def

section \<open>Before authentication\<close>

text \<open>What an unauthenticated peer can make the server do to the outside.\<close>

fun harmless :: "effect \<Rightarrow> bool" where
  "harmless (Sent (Error code m)) = True"
| "harmless (Sent (FileTransferFailed tid e)) = True"
| "harmless (Sent (ClipboardText txt)) = True"
| "harmless (SentPong p) = True"
| "harmless (InputEvent m) = True"
| "harmless (ClipboardWritten txt) = True"
| "harmless e = False"

definition stays_new :: "conn \<times> world \<times> effect list \<Rightarrow> world \<Rightarrow> bool" where
  "stays_new r wd = (case r of (cn', wd', out) \<Rightarrow>
     \<not> cn_authenticated cn' \<longrightarrow> cn' = new_conn \<and> wd_bridge wd' = wd_bridge wd \<and> list_all harmless out)"

lemma new_conn_simps [simp]:
  "cn_authenticated new_conn = False" "cn_stream new_conn = None" "cn_transfers new_conn = Map.empty"
  "cn_sends new_conn = Map.empty" "cn_registration new_conn = None"
  by (simp_all add: new_conn_def)

lemma hello_new: "stays_new (snd (handle_hello su en v c nonce client new_conn wd)) wd"
  by (auto simp: stays_new_def handle_hello_def send_error_def version_error_def Let_def
      split: prod.split VerifyResult.split option.split)

lemma trusted_hello_new: "stays_new (snd (handle_trusted_hello su en v i tok new_conn wd)) wd"
  by (auto simp: stays_new_def handle_trusted_hello_def send_error_def version_error_def Let_def
      split: prod.split VerifyOutcome.split)

lemma handle_client_msg_new: "stays_new (snd (handle_client_msg su en pl m new_conn wd)) wd"
proof (cases m)
  case (Hello v c nonce client)
  then show ?thesis using hello_new by simp
next
  case (TrustedHello v i tok client)
  then show ?thesis using trusted_hello_new by simp
qed (simp_all add: stays_new_def handle_stream_request_def handle_stream_stop_def send_error_def)

lemma on_text_new: "stays_new (snd (on_text su en pl txt new_conn wd)) wd"
proof (cases "d_from_json (su_deps su) txt")
  case None
  then show ?thesis by (simp add: on_text_def stays_new_def send_error_def)
next
  case (Some m)
  then show ?thesis
    using handle_client_msg_new [of su en pl m wd]
    by (cases m) (auto simp: on_text_def stays_new_def on_file_begin_def on_file_abort_def
        handle_file_abort_def on_send_accepted_def on_send_complete_def drop_send_def Let_def
        simp del: handle_client_msg.simps split: prod.splits)
qed

lemma on_inbox_new: "stays_new (snd (on_inbox su en pl m new_conn wd)) wd"
  using on_text_new [of su en pl]
  by (auto simp: on_inbox_def on_binary_def stays_new_def split: option.split Message.split)

lemma on_cmd_new: "cmd = None \<Longrightarrow> stays_new (snd (on_cmd en cmd new_conn wd)) wd"
  by (simp add: on_cmd_def stays_new_def)

lemma select_arm_new:
  "(\<And>c. ev \<noteq> EvCmd (Some c)) \<Longrightarrow> stays_new (snd (select_arm su pl en ev new_conn wd)) wd"
  using on_inbox_new [of su en pl _ wd]
  by (cases ev) (auto simp: select_arm_def on_packet_def on_cmd_def stays_new_def split: option.split)

lemma conn_step_new:
  assumes "conn_step su pl me en ev new_conn wd = (go, cn, wd', out)" "\<not> cn_authenticated cn"
    and "\<And>c. ev \<noteq> EvCmd (Some c)"
  shows "cn = new_conn \<and> wd_bridge wd' = wd_bridge wd \<and> list_all harmless out"
  using select_arm_new [OF assms(3), of su pl en wd] assms(1,2)
  by (auto simp: conn_step_def stays_new_def register_once_def Let_def
      split: prod.splits flow.splits if_splits)

section \<open>Authentication is for good\<close>

lemma hello_mono: "cn_authenticated cn \<Longrightarrow> cn_authenticated (fst (snd (handle_hello su en v c nonce client cn wd)))"
  by (simp add: handle_hello_def Let_def split: prod.split VerifyResult.split option.split)

lemma trusted_hello_mono:
  "cn_authenticated cn \<Longrightarrow> cn_authenticated (fst (snd (handle_trusted_hello su en v i tok cn wd)))"
  by (simp add: handle_trusted_hello_def Let_def split: prod.split VerifyOutcome.split)

lemma client_msg_mono:
  "cn_authenticated cn \<Longrightarrow> cn_authenticated (fst (snd (handle_client_msg su en pl m cn wd)))"
  by (cases m) (simp_all add: hello_mono trusted_hello_mono handle_stream_request_def
      handle_stream_stop_def split: option.split sum.split)

lemma select_arm_mono:
  "cn_authenticated cn \<Longrightarrow> cn_authenticated (fst (snd (select_arm su pl en ev cn wd)))"
proof (cases ev)
  case EvIdle
  assume "cn_authenticated cn"
  with EvIdle show ?thesis by (simp add: select_arm_def)
next
  case (EvInbox m)
  assume a: "cn_authenticated cn"
  have "cn_authenticated (fst (snd (on_text su en pl s cn wd)))" for s
  proof (cases "d_from_json (su_deps su) s")
    case None
    with a show ?thesis by (simp add: on_text_def)
  next
    case (Some m)
    then show ?thesis
      using a client_msg_mono [OF a, of su en pl m wd]
      by (cases m) (auto simp: on_text_def on_file_begin_def on_file_abort_def on_send_accepted_def
        on_send_complete_def drop_send_def Let_def simp del: handle_client_msg.simps
        split: option.split prod.split)
  qed
  then show ?thesis using a EvInbox
    by (auto simp: select_arm_def on_inbox_def on_binary_def Let_def split: option.split Message.split prod.split)
next
  case (EvPacket p answer)
  assume "cn_authenticated cn"
  with EvPacket show ?thesis
    by (auto simp: select_arm_def on_packet_def split: option.split try_send.split)
next
  case (EvCmd cmd)
  assume "cn_authenticated cn"
  with EvCmd show ?thesis
    by (auto simp: select_arm_def on_cmd_def drop_send_def dispatch_file_send_cmd_def
        split: option.split FileSendCmd.split)
qed

lemma conn_step_mono:
  assumes "conn_step su pl me en ev cn wd = (go, cn', wd', out)" "cn_authenticated cn"
  shows "cn_authenticated cn'"
  using select_arm_mono [OF assms(2), of su pl en ev wd] assms(1)
  by (auto simp: conn_step_def register_once_def Let_def split: prod.splits flow.splits if_splits)

lemma loop_run_mono:
  "loop_run su pl me es cn wd = (go, cn', wd', out) \<Longrightarrow> cn_authenticated cn \<Longrightarrow> cn_authenticated cn'"
proof (induction es arbitrary: cn wd out)
  case (Cons e es)
  obtain other en ev where e: "e = (other, en, ev)" by (cases e)
  obtain g1 cn1 wd1 out1 where s: "conn_step su pl me en ev cn (other wd) = (g1, cn1, wd1, out1)"
    by (metis prod_cases4)
  from Cons.prems(2) have "cn_authenticated cn1" by (rule conn_step_mono [OF s])
  with Cons.prems(1) e s Cons.IH show ?case by (auto split: if_splits prod.splits)
qed simp

text \<open>The first iteration that authenticates.\<close>

definition valid_handshake :: "server_setup \<Rightarrow> env \<Rightarrow> ClientMsg \<Rightarrow> world \<Rightarrow> bool" where
  "valid_handshake su en m wd = (case m of
     Hello v c nonce client \<Rightarrow> version_ok v \<and> ticket (wd_pairing wd) (en_now en) = Some c
       \<and> d_b64url_dec (su_deps su) nonce \<noteq> None
   | TrustedHello v i tok client \<Rightarrow> version_ok v
       \<and> (\<exists>nm. fst (verify (su_deps su) (su_ser su) (en_unix_ms en) (en_save en) i tok (wd_trusted wd)) = TOk nm)
   | _ \<Rightarrow> False)"

lemma verify_cases: "(fst (verify_and_consume c now g) = VOk) = (ticket g now = Some c)"
  by (rule verify_ticket)

lemma hello_auth:
  "\<not> cn_authenticated cn \<Longrightarrow> cn_authenticated (fst (snd (handle_hello su en v c nonce client cn wd)))
     \<longleftrightarrow> valid_handshake su en (Hello v c nonce client) wd"
  using verify_ticket [of c "en_now en" "wd_pairing wd"]
  by (auto simp: handle_hello_def valid_handshake_def Let_def
      split: prod.splits VerifyResult.splits option.splits)

lemma trusted_hello_auth:
  "\<not> cn_authenticated cn \<Longrightarrow> cn_authenticated (fst (snd (handle_trusted_hello su en v i tok cn wd)))
     \<longleftrightarrow> valid_handshake su en (TrustedHello v i tok client) wd"
  by (auto simp: handle_trusted_hello_def valid_handshake_def Let_def
      split: prod.splits VerifyOutcome.splits)

lemma client_msg_auth:
  "\<not> cn_authenticated cn \<Longrightarrow> cn_authenticated (fst (snd (handle_client_msg su en pl m cn wd)))
     \<longleftrightarrow> valid_handshake su en m wd"
  by (cases m) (simp_all add: hello_auth trusted_hello_auth, simp_all add: valid_handshake_def
      handle_stream_request_def handle_stream_stop_def split: option.split)

lemma conn_step_auth:
  assumes "conn_step su pl me en ev new_conn wd = (go, cn, wd', out)"
  shows "cn_authenticated cn \<longleftrightarrow>
    (\<exists>txt m. ev = EvInbox (Some (MText txt)) \<and> d_from_json (su_deps su) txt = Some m \<and> valid_handshake su en m wd)"
proof -
  have "cn_authenticated cn = cn_authenticated (fst (snd (select_arm su pl en ev new_conn wd)))"
    using assms by (auto simp: conn_step_def register_once_def Let_def split: prod.splits flow.splits if_splits)
  also have "\<dots> \<longleftrightarrow> (\<exists>txt m. ev = EvInbox (Some (MText txt)) \<and> d_from_json (su_deps su) txt = Some m
      \<and> valid_handshake su en m wd)"
  proof (cases "\<exists>txt m. ev = EvInbox (Some (MText txt)) \<and> d_from_json (su_deps su) txt = Some m")
    case True
    then obtain s m where tm: "ev = EvInbox (Some (MText s))" "d_from_json (su_deps su) s = Some m" by blast
    show ?thesis
      using client_msg_auth [of new_conn su en pl m wd] tm
      by (cases m) (auto simp: select_arm_def on_inbox_def on_text_def on_file_begin_def on_file_abort_def
        handle_file_abort_def on_send_accepted_def on_send_complete_def drop_send_def Let_def
        valid_handshake_def simp del: handle_client_msg.simps split: prod.splits)
  next
    case False
    then show ?thesis
      by (auto simp: select_arm_def on_inbox_def on_text_def on_binary_def on_packet_def on_cmd_def
          split: conn_event.split option.splits Message.split FileSendCmd.split)
  qed
  finally show ?thesis .
qed

section \<open>Streams are started and stopped in turn\<close>

fun is_start :: "effect \<Rightarrow> bool" where
  "is_start (Sent (StreamStarted i)) = True"
| "is_start e = False"

fun is_stop :: "effect \<Rightarrow> bool" where
  "is_stop (StopStream i) = True"
| "is_stop e = False"

definition active :: "conn \<Rightarrow> nat" where
  "active cn = (case cn_stream cn of None \<Rightarrow> 0 | Some h \<Rightarrow> 1)"

definition balanced :: "conn \<Rightarrow> conn \<times> world \<times> effect list \<Rightarrow> bool" where
  "balanced cn r = (case r of (cn', wd', out) \<Rightarrow>
     active cn + length (filter is_start out) = active cn' + length (filter is_stop out))"

lemma not_start_Sent [simp]:
  "filter is_start (map Sent (ms :: ServerMsg list)) = [] \<longleftrightarrow> (\<forall>m\<in>set ms. \<not> is_start (Sent m))"
  by (auto simp: filter_empty_conv)

lemma begin_quiet: "handle_file_begin io tid name fsize ts fs = (ts', fs', out) \<Longrightarrow>
    filter is_start (map Sent out) = [] \<and> filter is_stop (map Sent out) = []"
  using begin_dichotomy [of io tid name fsize ts fs] by auto

lemma chunk_quiet: "handle_file_chunk io b ts fs = (ts', fs', out) \<Longrightarrow>
    filter is_start (map Sent out) = [] \<and> filter is_stop (map Sent out) = []"
  by (auto simp: handle_file_chunk_def Let_def split: option.splits prod.splits if_splits write_answer.splits)

lemma client_msg_balanced: "balanced cn (snd (handle_client_msg su en pl m cn wd))"
proof (cases m)
  case (Hello v c nonce client)
  then show ?thesis
    by (auto simp: balanced_def handle_hello_def active_def send_error_def version_error_def Let_def
        split: prod.split VerifyResult.split option.split)
next
  case (TrustedHello v i tok client)
  then show ?thesis
    by (auto simp: balanced_def handle_trusted_hello_def active_def send_error_def version_error_def Let_def
        split: prod.split VerifyOutcome.split)
next
  case (StreamRequest a b c d)
  then show ?thesis
    by (auto simp: balanced_def handle_stream_request_def active_def send_error_def
        split: option.split sum.split)
qed (auto simp: balanced_def handle_stream_stop_def active_def send_error_def split: option.split)

lemma select_arm_balanced: "balanced cn (snd (select_arm su pl en ev cn wd))"
proof (cases "\<exists>s m. ev = EvInbox (Some (MText s)) \<and> d_from_json (su_deps su) s = Some m")
  case True
  then obtain s m where tm: "ev = EvInbox (Some (MText s))" "d_from_json (su_deps su) s = Some m" by blast
  show ?thesis
    using client_msg_balanced [of cn su en pl m wd] begin_quiet tm
    by (cases m) (auto simp: balanced_def active_def select_arm_def on_inbox_def on_text_def on_file_begin_def
        on_file_abort_def on_send_accepted_def on_send_complete_def drop_send_def Let_def
        simp del: handle_client_msg.simps split: prod.splits option.splits)
next
  case False
  then show ?thesis
    using chunk_quiet
    by (auto simp: balanced_def active_def select_arm_def on_inbox_def on_text_def on_binary_def on_packet_def
        on_cmd_def drop_send_def dispatch_file_send_cmd_def send_error_def
        split: conn_event.split option.splits Message.split FileSendCmd.split try_send.split prod.splits)
qed

lemma conn_step_balanced:
  assumes "conn_step su pl me en ev cn wd = (go, cn', wd', out)"
  shows "active cn + length (filter is_start out) = active cn' + length (filter is_stop out)"
  using select_arm_balanced [of cn su pl en ev wd] assms
  by (auto simp: balanced_def conn_step_def register_once_def active_def Let_def
      split: prod.splits flow.splits if_splits)

lemma loop_run_balanced:
  "loop_run su pl me es cn wd = (go, cn', wd', out) \<Longrightarrow>
    active cn + length (filter is_start out) = active cn' + length (filter is_stop out)"
proof (induction es arbitrary: cn wd out)
  case (Cons e es)
  obtain other en ev where e: "e = (other, en, ev)" by (cases e)
  obtain g1 cn1 wd1 out1 where s: "conn_step su pl me en ev cn (other wd) = (g1, cn1, wd1, out1)"
    by (metis prod_cases4)
  note b = conn_step_balanced [OF s]
  show ?case
  proof (cases g1)
    case False
    with Cons.prems e s b show ?thesis by simp
  next
    case True
    obtain out2 where r: "loop_run su pl me es cn1 wd1 = (go, cn', wd', out2)" "out = out1 @ out2"
      using Cons.prems e s True by (auto split: prod.splits)
    from Cons.IH [OF r(1)] b r(2) show ?thesis by simp
  qed
qed simp

section \<open>Cleanup\<close>

lemma remove_file_None: "fs p = None \<Longrightarrow> remove_file ok q fs p = None"
  by (simp add: remove_file_def)

lemma drain_transfers_keeps: "fs p = None \<Longrightarrow> drain_transfers rm_ok order ts fs p = None"
  unfolding drain_transfers_def
  by (induction order arbitrary: fs) (auto simp: remove_file_None split: option.split)

lemma drain_transfers_removes:
  "tid \<in> set order \<Longrightarrow> ts tid = Some s \<Longrightarrow> rm_ok tid \<Longrightarrow> drain_transfers rm_ok order ts fs (ft_dest_path s) = None"
proof (induction order arbitrary: fs)
  case (Cons t order)
  show ?case
  proof (cases "t = tid")
    case True
    then show ?thesis using Cons.prems drain_transfers_keeps [of "remove_file True (ft_dest_path s) fs" "ft_dest_path s" rm_ok order ts]
      by (simp add: drain_transfers_def remove_file_def)
  next
    case False
    with Cons show ?thesis by (simp add: drain_transfers_def)
  qed
qed simp

lemma drain_sends_fs: "fst (drain_sends rm_ok order sends fs) =
    fold (\<lambda>tid fs. case sends tid of Some st \<Rightarrow> remove_file (rm_ok tid) (se_temp_path st) fs | None \<Rightarrow> fs) order fs"
proof -
  have "fst (fold (\<lambda>tid (fs, out). case sends tid of
        Some st \<Rightarrow> (remove_file (rm_ok tid) (se_temp_path st) fs,
                    out @ [CancelSender tid, Unlink (se_temp_path st)])
      | None \<Rightarrow> (fs, out)) order (fs, acc)) =
    fold (\<lambda>tid fs. case sends tid of Some st \<Rightarrow> remove_file (rm_ok tid) (se_temp_path st) fs | None \<Rightarrow> fs) order fs"
    for acc :: "effect list"
    by (induction order arbitrary: fs acc) (auto split: option.split)
  then show ?thesis by (simp add: drain_sends_def)
qed

lemma drain_sends_out: "snd (drain_sends rm_ok order sends fs) =
    concat (map (\<lambda>tid. case sends tid of Some st \<Rightarrow> [CancelSender tid, Unlink (se_temp_path st)] | None \<Rightarrow> []) order)"
proof -
  have "snd (fold (\<lambda>tid (fs, out). case sends tid of
        Some st \<Rightarrow> (remove_file (rm_ok tid) (se_temp_path st) fs,
                    out @ [CancelSender tid, Unlink (se_temp_path st)])
      | None \<Rightarrow> (fs, out)) order (fs, acc)) = acc @
    concat (map (\<lambda>tid. case sends tid of Some st \<Rightarrow> [CancelSender tid, Unlink (se_temp_path st)] | None \<Rightarrow> []) order)"
    for acc :: "effect list"
    by (induction order arbitrary: fs acc) (auto split: option.split)
  then show ?thesis by (simp add: drain_sends_def)
qed

lemma fold_remove_keeps: "fs p = None \<Longrightarrow>
    fold (\<lambda>tid fs. case sends tid of Some st \<Rightarrow> remove_file (rm_ok tid) (se_temp_path st) fs | None \<Rightarrow> fs) order fs p = None"
  by (induction order arbitrary: fs) (auto simp: remove_file_None split: option.split)

lemma drain_sends_removes:
  "tid \<in> set order \<Longrightarrow> sends tid = Some s \<Longrightarrow> rm_ok tid \<Longrightarrow> fst (drain_sends rm_ok order sends fs) (se_temp_path s) = None"
  unfolding drain_sends_fs
proof (induction order arbitrary: fs)
  case (Cons t order)
  show ?case
  proof (cases "t = tid")
    case True
    then show ?thesis using Cons.prems by (simp add: fold_remove_keeps remove_file_def)
  next
    case False
    with Cons show ?thesis by simp
  qed
qed simp

section \<open>The bridge slot is claimed once\<close>

lemma select_arm_registration:
  "cn_registration (fst (snd (select_arm su pl en ev cn wd))) = cn_registration cn"
proof (cases "\<exists>s m. ev = EvInbox (Some (MText s)) \<and> d_from_json (su_deps su) s = Some m")
  case True
  then obtain s m where tm: "ev = EvInbox (Some (MText s))" "d_from_json (su_deps su) s = Some m" by blast
  have "cn_registration (fst (snd (handle_client_msg su en pl m cn wd))) = cn_registration cn"
    by (cases m) (simp_all add: handle_hello_def handle_trusted_hello_def handle_stream_request_def
        handle_stream_stop_def Let_def
        split: prod.split VerifyResult.split VerifyOutcome.split option.split sum.split)
  then show ?thesis
    using tm by (cases m) (auto simp: select_arm_def on_inbox_def on_text_def on_file_begin_def
        on_file_abort_def on_send_accepted_def on_send_complete_def drop_send_def Let_def
        simp del: handle_client_msg.simps split: prod.splits option.splits)
next
  case False
  then show ?thesis
    by (auto simp: select_arm_def on_inbox_def on_text_def on_binary_def on_packet_def on_cmd_def
        drop_send_def dispatch_file_send_cmd_def Let_def
        split: conn_event.split option.splits Message.split FileSendCmd.split try_send.split prod.splits)
qed

text \<open>Only an iteration that reaches its end authenticates.\<close>

lemma client_msg_auth_cont:
  assumes "\<not> cn_authenticated cn" "handle_client_msg su en pl m cn wd = (cont, cn', wd', out)" "cn_authenticated cn'"
  shows "cont"
  using assms
  by (cases m) (auto simp: handle_hello_def handle_trusted_hello_def handle_stream_request_def
      handle_stream_stop_def Let_def
      split: prod.splits VerifyResult.splits VerifyOutcome.splits option.splits sum.splits if_splits)

lemma select_arm_auth_proceeds:
  assumes "\<not> cn_authenticated cn" "select_arm su pl en ev cn wd = (fl, cn', wd', out)" "cn_authenticated cn'"
  shows "fl = Proceed"
proof (cases "\<exists>s m. ev = EvInbox (Some (MText s)) \<and> d_from_json (su_deps su) s = Some m")
  case True
  then obtain s m where tm: "ev = EvInbox (Some (MText s))" "d_from_json (su_deps su) s = Some m" by blast
  show ?thesis
    using assms tm client_msg_auth_cont [OF assms(1), of su en pl m wd]
    by (cases m) (auto simp: select_arm_def on_inbox_def on_text_def on_file_begin_def
        on_file_abort_def on_send_accepted_def on_send_complete_def drop_send_def Let_def
        simp del: handle_client_msg.simps split: prod.splits option.splits if_splits)
next
  case False
  then show ?thesis
    using assms
    by (auto simp: select_arm_def on_inbox_def on_text_def on_binary_def on_packet_def on_cmd_def
        drop_send_def dispatch_file_send_cmd_def Let_def
        split: conn_event.splits option.splits Message.splits FileSendCmd.splits try_send.splits prod.splits if_splits)
qed

definition registered_iff_auth :: "conn \<Rightarrow> bool" where
  "registered_iff_auth cn = (cn_authenticated cn \<longleftrightarrow> cn_registration cn \<noteq> None)"

lemma conn_step_registered:
  assumes "conn_step su pl me en ev cn wd = (go, cn', wd', out)" "registered_iff_auth cn"
  shows "registered_iff_auth cn'"
proof -
  obtain fl cn1 wd1 out1 where s: "select_arm su pl en ev cn wd = (fl, cn1, wd1, out1)"
    by (metis prod_cases4)
  have reg: "cn_registration cn1 = cn_registration cn"
    using select_arm_registration [of su pl en ev cn wd] s by simp
  have up: "cn_authenticated cn \<Longrightarrow> cn_authenticated cn1"
    using select_arm_mono [of cn su pl en ev wd] s by simp
  show ?thesis
  proof (cases fl)
    case Proceed
    with assms s reg up show ?thesis
      by (auto simp: conn_step_def registered_iff_auth_def register_once_def split: if_splits prod.splits)
  next
    case Continue
    then have "cn_authenticated cn1 = cn_authenticated cn"
      using select_arm_auth_proceeds [OF _ s] up by auto
    with Continue assms s reg show ?thesis by (simp add: conn_step_def registered_iff_auth_def)
  next
    case Break
    then have "cn_authenticated cn1 = cn_authenticated cn"
      using select_arm_auth_proceeds [OF _ s] up by auto
    with Break assms s reg show ?thesis by (simp add: conn_step_def registered_iff_auth_def)
  qed
qed

lemma loop_run_registered:
  "loop_run su pl me es cn wd = (go, cn', wd', out) \<Longrightarrow> registered_iff_auth cn \<Longrightarrow> registered_iff_auth cn'"
proof (induction es arbitrary: cn wd out)
  case (Cons e es)
  obtain other en ev where e: "e = (other, en, ev)" by (cases e)
  obtain g1 cn1 wd1 out1 where s: "conn_step su pl me en ev cn (other wd) = (g1, cn1, wd1, out1)"
    by (metis prod_cases4)
  from Cons.prems(2) have "registered_iff_auth cn1" by (rule conn_step_registered [OF s])
  with Cons.prems(1) e s Cons.IH show ?case by (auto split: if_splits prod.splits)
qed simp

text \<open>Concrete values for evaluation.\<close>

definition demo_client :: ClientInfo where
  "demo_client = \<lparr> ci_name = ''phone'', ci_os = ''android'', ci_app_version = ''1'' \<rparr>"

definition demo_setup :: server_setup where
  "demo_setup = \<lparr> su_deps = toy_deps\<lparr>d_from_json := (\<lambda>s.
       if s = ''hello'' then Some (Hello 6 ''123456'' ''n'' demo_client)
       else if s = ''badnonce'' then Some (Hello 6 ''123456'' ''!'' demo_client)
       else if s = ''move'' then Some (MouseMove 1 2)
       else if s = ''stream'' then Some (StreamRequest ''H264'' None None None) else None)\<rparr>,
     su_ser = (\<lambda>f. Some []),
     su_cfg = \<lparr> cf_server_name = ''pc'', cf_os = ''Windows'', cf_version = ''1'' \<rparr> \<rparr>"

definition demo_env :: env where
  "demo_env = \<lparr> en_now = 1, en_key = [9], en_token_bytes = [7], en_device_uuid = ''dev'',
     en_session_uuid = ''ses'', en_unix_ms = 3, en_save = \<lparr>io_write = WriteOk, io_rename_ok = True\<rparr>,
     en_stream_io = demo_stream_io, en_begin = demo_begin,
     en_chunk = \<lparr>ci_write = WriteDone, ci_flush = FlushDone, ci_rm_ok = True\<rparr>, en_rm_ok = True,
     en_clipboard = None \<rparr>"

definition demo_world :: world where
  "demo_world = \<lparr> wd_pairing = \<lparr>p_code = ''123456'', p_key = [9], p_created = 0, p_consumed = False\<rparr>,
     wd_trusted = \<lparr>ts_inner = default_file, ts_disk = None, ts_tmp = None\<rparr>,
     wd_bridge = new_bridge, wd_fs = Map.empty \<rparr>"

section \<open>Properties\<close>



text \<open>
  C16. A connection authenticates exactly by a valid handshake: an iteration of an unauthenticated
  connection ends authenticated if and only if its event is a text message that parses to a
  \<^verbatim>\<open>hello\<close> with an accepted version, the code that is currently valid and a decodable nonce, or
  to a \<^verbatim>\<open>trusted_hello\<close> with an accepted version and a pair the trust store verifies; the
  connection then goes on, answers one welcome, and at that very moment holds the bridge slot under a
  fresh instance number; and before and after, it holds a claim exactly when it is authenticated.
\<close>

theorem authentication_exact:
  assumes "conn_step su pl me en ev new_conn wd = (go, cn, wd', out)"
  shows "(cn_authenticated cn \<longleftrightarrow>
      (\<exists>s m. ev = EvInbox (Some (MText s)) \<and> d_from_json (su_deps su) s = Some m \<and> valid_handshake su en m wd))
    \<and> (cn_authenticated cn \<longrightarrow> go \<and> (\<exists>ses h tt di. out = [Sent (Welcome ses (server_info (su_cfg su)) h tt di)])
        \<and> cn_registration cn = Some (fb_next_instance (wd_bridge wd))
        \<and> fb_inner (wd_bridge wd') = Some (fb_next_instance (wd_bridge wd), me))
    \<and> (\<not> cn_authenticated cn \<longrightarrow> cn_registration cn = None)"
proof -
  note iff = conn_step_auth [OF assms]
  have "go \<and> (\<exists>ses h tt di. out = [Sent (Welcome ses (server_info (su_cfg su)) h tt di)])
        \<and> cn_registration cn = Some (fb_next_instance (wd_bridge wd))
        \<and> fb_inner (wd_bridge wd') = Some (fb_next_instance (wd_bridge wd), me)"
    if a: "cn_authenticated cn"
  proof -
    obtain s m where tm: "ev = EvInbox (Some (MText s))" "d_from_json (su_deps su) s = Some m"
      "valid_handshake su en m wd" using iff a by blast
    show ?thesis
    proof (cases m)
      case (Hello v c nonce client)
      with assms a tm show ?thesis
        by (auto simp: conn_step_def select_arm_def on_inbox_def on_text_def handle_hello_def
            register_once_def register_def fetch_add_instance_def occupy_def Let_def send_error_def
            version_error_def split: prod.splits VerifyResult.splits option.splits if_splits)
    next
      case (TrustedHello v i tok client)
      with assms a tm show ?thesis
        by (auto simp: conn_step_def select_arm_def on_inbox_def on_text_def handle_trusted_hello_def
            register_once_def register_def fetch_add_instance_def occupy_def Let_def send_error_def
            version_error_def split: prod.splits VerifyOutcome.splits if_splits)
    qed (use tm in \<open>simp_all add: valid_handshake_def\<close>)
  qed
  moreover have "registered_iff_auth cn"
    by (rule conn_step_registered [OF assms]) (simp add: registered_iff_auth_def)
  ultimately show ?thesis using iff by (auto simp: registered_iff_auth_def)
qed

lemma authentication_exact_witness:
  "\<exists>go cn wd' out. conn_step demo_setup ''p'' 4 demo_env (EvInbox (Some (MText ''hello''))) new_conn demo_world
       = (go, cn, wd', out) \<and> go \<and> cn_authenticated cn \<and> fb_inner (wd_bridge wd') = Some (0, 4)"
proof -
  let ?ev = "EvInbox (Some (MText ''hello''))"
  obtain go cn wd' out where r: "conn_step demo_setup ''p'' 4 demo_env ?ev new_conn demo_world = (go, cn, wd', out)"
    by (metis prod_cases4)
  have j: "d_from_json (su_deps demo_setup) ''hello'' = Some (Hello 6 ''123456'' ''n'' demo_client)"
    by (simp add: demo_setup_def)
  have v: "valid_handshake demo_setup demo_env (Hello 6 ''123456'' ''n'' demo_client) demo_world"
    by (simp add: valid_handshake_def version_ok_def MIN_SUPPORTED_VERSION_def PROTOCOL_VERSION_def
        ticket_def demo_world_def demo_env_def demo_setup_def toy_deps_def)
  have b: "fb_next_instance (wd_bridge demo_world) = 0" by (simp add: demo_world_def new_bridge_def)
  have a: "cn_authenticated cn" using authentication_exact [OF r] j v by blast
  then have "go \<and> fb_inner (wd_bridge wd') = Some (0, 4)"
    using authentication_exact [OF r] by (simp add: b)
  with a r show ?thesis by blast
qed



text \<open>
  C18. Every screen capture that is started is stopped exactly once, and there is never more than
  one: over a whole connection, with its cleanup, and for any events and answers, the number of
  streams announced equals the number of stop flags set, and at any moment inside the loop the
  difference is 0 or 1.
\<close>

theorem streams_balanced:
  "length (filter is_start (snd (run_connection su pl me es rm_ok torder sorder wd))) =
     length (filter is_stop (snd (run_connection su pl me es rm_ok torder sorder wd)))
   \<and> (let (go, cn, wd', out) = loop_run su pl me es new_conn wd in
        length (filter is_start out) = length (filter is_stop out) + active cn \<and> active cn \<le> 1)"
proof -
  obtain go cn wd1 out where r: "loop_run su pl me es new_conn wd = (go, cn, wd1, out)"
    by (metis prod_cases4)
  have b: "length (filter is_start out) = active cn + length (filter is_stop out)"
    using loop_run_balanced [OF r] by (simp add: active_def)
  obtain fs2 out2 where d: "drain_sends rm_ok sorder (cn_sends cn)
      (drain_transfers rm_ok torder (cn_transfers cn) (wd_fs wd1)) = (fs2, out2)" by fastforce
  have q: "filter is_start out2 = []" "filter is_stop out2 = []"
    using drain_sends_out [of rm_ok sorder "cn_sends cn" "drain_transfers rm_ok torder (cn_transfers cn) (wd_fs wd1)"] d
    by (auto simp: filter_empty_conv split: option.splits)
  show ?thesis
    using b q by (simp add: run_connection_def cleanup_def r d Let_def active_def split: option.split)
qed



text \<open>
  Streams through the relay stay inside its budget: whatever the phone asks for on a connection
  labelled \<^verbatim>\<open>relay/...\<close>, a stream that starts has at most 3,000 kbit/s and, at the frame rate it
  got, a key frame interval of at least two seconds; on a direct connection the request itself is
  negotiated. A second stream is refused while one runs, and the running one is left alone.
\<close>

theorem relay_stream_budget:
  "let (cont, cn', wd', out) = handle_stream_request su en pl codec_name br fps kf cn wd in
   wd' = wd
   \<and> (cn_stream cn \<noteq> None \<longrightarrow> cn' = cn)
   \<and> (\<forall>h. cn_stream cn = None \<longrightarrow> cn_stream cn' = Some h \<longrightarrow> out = [Sent (StreamStarted (stream_info h))]
        \<and> cn_authenticated cn
        \<and> (starts_with pl ''relay/'' \<longrightarrow> sh_bitrate_kbps h \<le> 3000
             \<and> 2 * sh_fps h \<le> sh_keyframe_interval_frames h))"
proof -
  define P where "P c = stream_params pl c br fps kf" for c
  have budget: "sh_bitrate_kbps h \<le> 3000 \<and> 2 * sh_fps h \<le> sh_keyframe_interval_frames h"
    if r: "starts_with pl ''relay/''" and s: "start_stream (su_deps su) (en_stream_io en) (P c) = Inr h" for c h
  proof -
    obtain dims where d: "sh_fps h = ec_fps (negotiate (P c) dims)"
      "sh_bitrate_kbps h = ec_bitrate_kbps (negotiate (P c) dims)"
      "sh_keyframe_interval_frames h = ec_keyframe_interval_frames (negotiate (P c) dims)"
      using start_stream_Inr [OF s] by blast
    have br: "rp_max_bitrate_kbps (P c) = Some (min (unwrap_or br 30000) 3000)"
      "rp_keyframe_interval_ms (P c) = Some (max (unwrap_or kf 1000) 2000)"
      using r by (simp_all add: P_def stream_params_def Let_def)
    let ?f = "clamp 15 60 (unwrap_or (rp_max_fps (P c)) 60)"
    let ?k = "clamp 200 10000 (max (unwrap_or kf 1000) 2000)"
    have "clamp 1000 50000 (min (unwrap_or br 30000) 3000) \<le> 3000"
      by (rule clamp_le) simp_all
    then have b: "sh_bitrate_kbps h \<le> 3000"
      by (simp add: d(2) negotiate_def br unwrap_or_def [of "Some x" for x] Let_def split: prod.split)
    have k: "2000 \<le> ?k \<and> ?k \<le> 10000"
      by (intro conjI clamp_ge clamp_bounds [THEN conjunct2]) simp_all
    have f: "15 \<le> ?f \<and> ?f \<le> 60" by (rule clamp_bounds) simp
    have n: "2000 \<le> unat ?k" "unat ?k \<le> 10000" "unat ?f \<le> 60" using k f by (simp_all add: word_le_nat_alt)
    have "unat ?k * unat ?f \<le> 600000" using mult_le_mono [OF n(2,3)] by simp
    then have kf: "unat (?k * ?f) = unat ?k * unat ?f" by (simp add: unat_word_ariths)
    have m: "2000 * unat ?f \<le> unat ?k * unat ?f" using mult_le_mono1 [OF n(1)] .
    have "2000 * unat ?f div 1000 = 2 * unat ?f" by simp
    with div_le_mono [OF m, of 1000] have "2 * unat ?f \<le> unat (?k * ?f div 1000)"
      by (simp only: kf unat_div) simp
    moreover have "unat (2 * ?f) = 2 * unat ?f" using n(3) by (simp add: unat_word_ariths)
    ultimately have "2 * ?f \<le> ?k * ?f div 1000" by (simp add: word_le_nat_alt)
    then have "2 * sh_fps h \<le> sh_keyframe_interval_frames h"
      by (simp add: d(1,3) negotiate_def br unwrap_or_def [of "Some x" for x] Let_def le_max_iff_disj split: prod.split)
    with b show ?thesis ..
  qed
  show ?thesis
    using budget unfolding P_def
    by (auto simp: handle_stream_request_def send_error_def split: option.split sum.split)
qed

lemma relay_stream_budget_witness:
  "let (cont, cn', wd', out) = handle_stream_request demo_setup demo_env ''relay/1'' ''H264'' (Some 50000) None None
        (new_conn\<lparr>cn_authenticated := True\<rparr>) demo_world
   in \<exists>h. cn_stream cn' = Some h \<and> sh_bitrate_kbps h \<le> 3000"
proof -
  let ?cn = "new_conn\<lparr>cn_authenticated := True\<rparr>"
  have "fst (acquire_capture (si_capture demo_stream_io)) = Inr (1920, 1080)"
    by (simp add: acquire_capture_def ATTEMPTS_def demo_stream_io_def eval_nat_numeral)
  then have "\<exists>h. start_stream (su_deps demo_setup) (en_stream_io demo_env)
      (stream_params ''relay/1'' H264 (Some 50000) None None) = Inr h"
    by (simp add: start_stream_def demo_env_def choose_encoder_def demo_stream_io_def stream_params_def Let_def)
  then obtain h where h: "start_stream (su_deps demo_setup) (en_stream_io demo_env)
      (stream_params ''relay/1'' H264 (Some 50000) None None) = Inr h" ..
  have c: "parse_codec ''H264'' = Some H264" by code_simp
  show ?thesis
    using relay_stream_budget [of demo_setup demo_env "''relay/1''" "''H264''" "Some 50000" None None ?cn demo_world]
    by (auto simp: handle_stream_request_def c h starts_with_def)
qed

section \<open>What is not gated\<close>

text \<open>
  The input arms do not look at the authentication flag: a peer that never sent a handshake moves
  the mouse (\<^verbatim>\<open>docs/PROTOCOL.md\<close> says it cannot).
\<close>

lemma input_before_authentication:
  assumes "d_from_json (su_deps su) s = Some (MouseMove x y)"
  shows "conn_step su pl me en (EvInbox (Some (MText s))) new_conn wd =
    (True, new_conn, wd, [InputEvent (MouseMove x y)])"
  using assms by (simp add: conn_step_def select_arm_def on_inbox_def on_text_def register_once_def)

end
