(* ===== verification/Relay_Server.thy ===== *)
theory Relay_Server
  imports Tunnel Deps Phone
begin

text \<open>
  The handlers of the relay (\<^verbatim>\<open>relay/src/main.rs\<close>), one definition per operation: the host
  registry with its file, registration and the token check, the reader of a host's WebSocket with its
  routing policy, the reader and the biased writer of a phone's WebSocket, and the conversion of one
  queued message. Theory Relay_System puts them together as interleaved tasks.
\<close>

section \<open>Registry\<close>

record HostRecord =
  hr_token_hash :: string
  hr_name :: string

type_synonym registry = "string \<rightharpoonup> HostRecord"

datatype disk_read = DiskBytes bytes | DiskNotFound | DiskError

definition load_hosts_from_disk :: "(bytes \<Rightarrow> registry option) \<Rightarrow> disk_read \<Rightarrow> registry" where
  "load_hosts_from_disk parse rd =
     (case rd of
        DiskBytes b \<Rightarrow> (case parse b of Some m \<Rightarrow> m | None \<Rightarrow> Map.empty)
      | DiskNotFound \<Rightarrow> Map.empty
      | DiskError \<Rightarrow> Map.empty)"

text \<open>
  The registry file and its temporary sibling; \<open>left_over\<close> is what a failed write leaves behind.
\<close>

record hosts_disk =
  hd_file :: "bytes option"
  hd_tmp :: "bytes option"

record persist_io =
  pi_write_ok :: bool
  pi_left_over :: "bytes option"
  pi_rename_ok :: bool

definition persist_hosts_to_disk :: "(registry \<Rightarrow> bytes option) \<Rightarrow> persist_io \<Rightarrow> registry \<Rightarrow>
    hosts_disk \<Rightarrow> hosts_disk" where
  "persist_hosts_to_disk ser io snapshot d =
     (case ser snapshot of
        None \<Rightarrow> d
      | Some json \<Rightarrow>
          if \<not> pi_write_ok io then d\<lparr>hd_tmp := pi_left_over io\<rparr>
          else let d = d\<lparr>hd_tmp := Some json\<rparr>
               in if pi_rename_ok io then d\<lparr>hd_file := hd_tmp d, hd_tmp := None\<rparr> else d)"

definition host_register :: "deps \<Rightarrow> bytes \<Rightarrow> string \<Rightarrow> string \<Rightarrow> registry \<Rightarrow>
    registry \<times> string \<times> string" where
  "host_register D token_bytes uuid name hosts =
     (let host_token = base64_url_no_pad D token_bytes;
          host_id = uuid;
          token_hash = sha256_hex D (as_bytes host_token);
          hosts = hosts(host_id \<mapsto> \<lparr> hr_token_hash = token_hash, hr_name = name \<rparr>)
      in (hosts, host_id, host_token))"

text \<open>The check of \<^verbatim>\<open>host_ws\<close>; refused means 401.\<close>

definition host_ws_allowed :: "deps \<Rightarrow> registry \<Rightarrow> string \<Rightarrow> string \<Rightarrow> bool" where
  "host_ws_allowed D hosts host_id host_token =
     (let token_hash = sha256_hex D (as_bytes host_token) in
      case hosts host_id of Some rec \<Rightarrow> hr_token_hash rec = token_hash | None \<Rightarrow> False)"

section \<open>WebSocket messages and queues\<close>

datatype ws_message = WsText string | WsBinary bytes | WsPing bytes | WsPong bytes | WsClose

text \<open>An item of a WebSocket stream: the end, an error or a message.\<close>

datatype ws_item = WsEnd | WsErr | WsMsg ws_message

record PhoneOut =
  po_bytes :: bytes
  po_text :: bool

text \<open>What a handler does with the queues; whether a send succeeds is the channel's answer.\<close>

datatype relay_action =
    BulkSend string PhoneOut          \<comment> \<open>\<open>bulk.send(out).await\<close>: waits for room\<close>
  | FastTrySend string PhoneOut       \<comment> \<open>\<open>fast.try_send(out)\<close>: dropped when full\<close>
  | ToHost TunnelFrame
  | PongQueued bytes

section \<open>Host reader\<close>

definition FRAME_TYPE_FILE :: u8 where "FRAME_TYPE_FILE = 0x03"

definition must_deliver :: "bool \<Rightarrow> bytes \<Rightarrow> bool" where
  "must_deliver txt payload =
     (let frame_type = (case payload of [] \<Rightarrow> 0 | b # bs \<Rightarrow> b) in txt \<or> frame_type = FRAME_TYPE_FILE)"

definition route_frame :: "string set \<Rightarrow> TunnelFrame \<Rightarrow> relay_action list" where
  "route_frame clients frame =
     (case frame of
        Data client_id txt payload \<Rightarrow>
          if client_id \<in> clients then
            (let out = \<lparr> po_bytes = payload, po_text = txt \<rparr> in
             if must_deliver txt payload then [BulkSend client_id out] else [FastTrySend client_id out])
          else []
      | ClientOpen client_id \<Rightarrow> []
      | ClientClose client_id \<Rightarrow> [])"

text \<open>One item of the host's stream: the actions, or the end of the loop.\<close>

definition host_reader_item :: "string set \<Rightarrow> ws_item \<Rightarrow> relay_action list option" where
  "host_reader_item clients item =
     (case item of
        WsEnd \<Rightarrow> None
      | WsErr \<Rightarrow> None
      | WsMsg msg \<Rightarrow>
          (case msg of
             WsBinary b \<Rightarrow>
               (case relay_decode b of Some f \<Rightarrow> Some (route_frame clients f) | None \<Rightarrow> Some [])
           | WsClose \<Rightarrow> None
           | _ \<Rightarrow> Some []))"

section \<open>Phone reader\<close>

definition client_reader_item :: "string \<Rightarrow> ws_item \<Rightarrow> relay_action option option" where
  "client_reader_item client_id item =
     (case item of
        WsEnd \<Rightarrow> None
      | WsErr \<Rightarrow> None
      | WsMsg msg \<Rightarrow>
          (case msg of
             WsText t \<Rightarrow> Some (Some (ToHost (Data client_id True (as_bytes t))))
           | WsBinary b \<Rightarrow> Some (Some (ToHost (Data client_id False b)))
           | WsClose \<Rightarrow> None
           | WsPing p \<Rightarrow> Some (Some (PongQueued p))
           | WsPong p \<Rightarrow> Some None))"

section \<open>Phone writer\<close>

text \<open>
  What the biased \<^verbatim>\<open>select!\<close> of the writer sees: each receiver has items, is empty, or is
  closed and empty.
\<close>

datatype 'a recv_state = Item 'a | Pending | Closed

datatype writer_choice = SendPong bytes | SendOut PhoneOut | WriterBreak | WriterWait

definition writer_select :: "bytes recv_state \<Rightarrow> PhoneOut recv_state \<Rightarrow> PhoneOut recv_state \<Rightarrow> writer_choice" where
  "writer_select pong fast bulk =
     (case pong of
        Item p \<Rightarrow> SendPong p
      | Closed \<Rightarrow> WriterBreak
      | Pending \<Rightarrow>
          (case fast of
             Item out \<Rightarrow> SendOut out
           | Closed \<Rightarrow> WriterBreak
           | Pending \<Rightarrow>
               (case bulk of Item out \<Rightarrow> SendOut out | Closed \<Rightarrow> WriterBreak | Pending \<Rightarrow> WriterWait)))"

text \<open>
  \<^verbatim>\<open>send_to_phone\<close>: the message put on the wire, if any, and whether the writer goes on.
  \<open>sent\<close> is what the sink answers within the 15 s.
\<close>

definition send_to_phone :: "bool \<Rightarrow> PhoneOut \<Rightarrow> ws_message option \<times> bool" where
  "send_to_phone sent out =
     (if po_text out then
        (case from_utf8 (po_bytes out) of
           Some s \<Rightarrow> (Some (WsText s), sent)
         | None \<Rightarrow> (None, True))
      else (Some (WsBinary (po_bytes out)), sent))"

section \<open>Facts\<close>

lemma must_deliver_text [simp]: "must_deliver True p"
  by (simp add: must_deliver_def)

lemma must_deliver_binary: "must_deliver False p \<longleftrightarrow> p \<noteq> [] \<and> hd p = 0x03"
  by (cases p) (simp_all add: must_deliver_def FRAME_TYPE_FILE_def)

lemma host_reader_data:
  "wf_frame (Data cid txt p) \<Longrightarrow> host_reader_item clients (WsMsg (WsBinary (pc_encode (Data cid txt p)))) =
    Some (if cid \<in> clients then
      [if must_deliver txt p then BulkSend cid \<lparr>po_bytes = p, po_text = txt\<rparr>
       else FastTrySend cid \<lparr>po_bytes = p, po_text = txt\<rparr>] else [])"
  by (simp add: host_reader_item_def tunnel.b_to_a route_frame_def Let_def del: pc_encode.simps)

lemma send_to_phone_text: "rust_str s \<Longrightarrow>
    send_to_phone ok \<lparr>po_bytes = as_bytes s, po_text = True\<rparr> = (Some (WsText s), ok)"
  by (simp add: send_to_phone_def)

lemma send_to_phone_binary:
  "send_to_phone ok \<lparr>po_bytes = b, po_text = False\<rparr> = (Some (WsBinary b), ok)"
  by (simp add: send_to_phone_def)

section \<open>Properties\<close>

text \<open>
  Only the holder of the token opens a host's tunnel: for a registered host id, the relay
  admits the very token it returned, and any other token only if it has the same SHA-256 hash;
  registering another host changes no earlier host's credentials; an unregistered id is refused. The
  registry kept is the hash, and the file on disk is at every moment the old or the complete new
  registry.
\<close>

theorem host_token_check:
  assumes "host_register D tb uuid name hosts = (hosts', hid, tok)"
  shows "hid = uuid \<and> host_ws_allowed D hosts' hid tok
    \<and> (host_ws_allowed D hosts' hid tok' \<longleftrightarrow> d_sha256 D (as_bytes tok') = d_sha256 D (as_bytes tok))
    \<and> (h \<noteq> hid \<longrightarrow> host_ws_allowed D hosts' h tok' = host_ws_allowed D hosts h tok')
    \<and> \<not> host_ws_allowed D Map.empty h tok'
    \<and> hd_file (persist_hosts_to_disk ser io hosts' d) \<in> {hd_file d, ser hosts'}"
  using assms
  by (auto simp: host_register_def host_ws_allowed_def persist_hosts_to_disk_def Let_def split: option.splits)

lemma host_token_check_witness:
  "host_ws_allowed toy_deps (fst (host_register toy_deps [1] ''h'' ''pc'' Map.empty)) ''h''
      (snd (snd (host_register toy_deps [1] ''h'' ''pc'' Map.empty)))"
proof -
  obtain hosts' hid tok where r: "host_register toy_deps [1] ''h'' ''pc'' Map.empty = (hosts', hid, tok)"
    by (metis prod_cases3)
  have "hid = ''h'' \<and> host_ws_allowed toy_deps hosts' hid tok"
    using host_token_check [OF r, of tok "''h''" undefined undefined undefined] by blast
  then have "hid = ''h''" and "host_ws_allowed toy_deps hosts' hid tok" by blast+
  with r show ?thesis by simp
qed

text \<open>
  The routing policy: a data frame from the PC reaches the queue of the phone it names and no
  other, only if that phone is attached; control text and FILE chunks take the queue whose send
  waits for room, never the one that drops, and every video and audio frame takes the droppable one,
  so a file transfer loses nothing and does not hold up the picture.
\<close>

theorem routing_policy:
  assumes "wf_frame (Data cid tx p)"
  shows "host_reader_item clients (WsMsg (WsBinary (pc_encode (Data cid tx p)))) =
      Some (if cid \<notin> clients then []
        else if tx \<or> (p \<noteq> [] \<and> hd p = frame_FILE)
          then [BulkSend cid \<lparr>po_bytes = p, po_text = tx\<rparr>]
          else [FastTrySend cid \<lparr>po_bytes = p, po_text = tx\<rparr>])
    \<and> must_deliver False (build_file_chunk_frame t n l q)
    \<and> \<not> must_deliver False (build_video_frame q pts k c)
    \<and> \<not> must_deliver False (build_audio_frame q pts)"
  using host_reader_data [OF assms] file_codec.encode_nonempty [of "(t, n, l, q)"]
    file_codec.first_byte [of "(t, n, l, q)"] video_codec.first_byte [of "(q, pts, k, c)"]
    audio_codec.first_byte [of "(q, pts)"]
  by (cases tx) (auto simp: must_deliver_binary wire)

lemma routing_policy_witness:
  "host_reader_item {replicate 36 CHR ''a''} (WsMsg (WsBinary
      (pc_encode (Data (replicate 36 CHR ''a'') False (build_video_frame [] 0 False False))))) =
   Some [FastTrySend (replicate 36 CHR ''a'') \<lparr>po_bytes = build_video_frame [] 0 False False, po_text = False\<rparr>]"
proof -
  have w: "wf_frame (Data (replicate 36 CHR ''a'') False (build_video_frame [] 0 False False))"
    by (simp add: wf_frame_def uuid_ok_replicate)
  have "hd (build_video_frame [] 0 False False) \<noteq> frame_FILE"
    by (simp add: build_video_frame_def wire)
  with routing_policy [OF w, of "{replicate 36 CHR ''a''}"] show ?thesis by (simp del: pc_encode.simps)
qed

text \<open>
  The phone's writer is strictly prioritised: a pong waits for nothing, a queued video or audio
  frame is sent before any queued control or file message, and those are sent only when neither of
  the others has anything; it ends as soon as the pong queue is closed and drained, which is how the
  reader's exit stops it.
\<close>

theorem writer_priority:
  "writer_select (Item pg) fast bulk = SendPong pg
   \<and> writer_select Closed fast bulk = WriterBreak
   \<and> writer_select Pending (Item out) bulk = SendOut out
   \<and> (writer_select pong fast (Item out) = SendOut out \<longleftrightarrow>
        pong = Pending \<and> (fast = Pending \<or> fast = Item out))
   \<and> (writer_select pong fast bulk = WriterWait \<longleftrightarrow> pong = Pending \<and> fast = Pending \<and> bulk = Pending)"
  by (auto simp: writer_select_def split: recv_state.split)

end
