(* ===== verification/Relay_System.thy ===== *)
theory Relay_System
  imports Relay_Server Slot "HOL-Library.Sublist"
begin

text \<open>
  The relay as a whole: any number of \<^verbatim>\<open>host_loop\<close> and \<^verbatim>\<open>client_loop\<close> tasks of
  \<^verbatim>\<open>relay/src/main.rs\<close>, each with its writer task, interleaved at the granularity of the code's
  lock regions and awaits. A stage names the await or lock region a task stands before; one rule of a
  step relation is one of them. The handlers' own computations (reading an item, routing a frame,
  choosing what the writer sends) are the definitions of theory Relay_Server. A tokio queue is the
  list of its items: a send appends when there is room and fails once the receiver is dropped.
  Fields that only record history (\<open>hl_in\<close>, \<open>hl_acc\<close>, \<open>pl_in\<close>, \<open>pl_out\<close>,
  \<open>pl_from\<close>) are read by no rule's condition.
\<close>

section \<open>State\<close>

text \<open>An \<^verbatim>\<open>OnlineHost\<close>: the instance number and the task whose queue and maps it shares.\<close>

record OnlineHost =
  oh_instance :: u64
  oh_loop :: nat

datatype host_stage =
    HInsert                      \<comment> \<open>before the swap into \<open>online\<close>\<close>
  | HNotify nat                  \<comment> \<open>before \<open>old.cancel.notify_one()\<close>\<close>
  | HClear nat                   \<comment> \<open>before \<open>old.clients.clear()\<close>\<close>
  | HRead                        \<comment> \<open>in the reader's \<open>select!\<close>\<close>
  | HSend string PhoneOut        \<comment> \<open>in \<open>chans.bulk.send(out).await\<close>\<close>
  | HLeave                       \<comment> \<open>before the clean-up of \<open>online\<close>\<close>
  | HJoin                        \<comment> \<open>in \<open>writer.await\<close>\<close>
  | HDrain                       \<comment> \<open>before the final \<open>clients.clear()\<close>\<close>
  | HDone

record host_loop =
  hl_host :: string
  hl_token :: string
  hl_stage :: host_stage
  hl_clients :: "string set"
  hl_cancel :: bool
  hl_queue :: "TunnelFrame list"
  hl_rx :: bool
  hl_wire :: "ws_message list"
  hl_in :: "bytes list"
  hl_acc :: "TunnelFrame list"

datatype client_stage =
    PInsert                      \<comment> \<open>before the insert into \<open>clients\<close>\<close>
  | POpen                        \<comment> \<open>in the send of \<open>ClientOpen\<close>\<close>
  | PAbort                       \<comment> \<open>that send failed: before the removal from \<open>clients\<close>\<close>
  | PRead                        \<comment> \<open>in the reader's \<open>stream.next()\<close>\<close>
  | PSend TunnelFrame            \<comment> \<open>in the send of a \<open>Data\<close> frame\<close>
  | PClose                       \<comment> \<open>\<open>pong_tx\<close> dropped: in the send of \<open>ClientClose\<close>\<close>
  | PRemove                      \<comment> \<open>before the removal from \<open>clients\<close>\<close>
  | PJoin                        \<comment> \<open>senders dropped: in \<open>writer.await\<close>\<close>
  | PDone

record client_loop =
  pl_host :: string
  pl_loop :: nat
  pl_stage :: client_stage
  pl_pong :: "bytes list"
  pl_fast :: "PhoneOut list"
  pl_bulk :: "PhoneOut list"
  pl_rx :: bool
  pl_wire :: "ws_message list"
  pl_in :: "ws_message list"
  pl_out :: "PhoneOut list"
  pl_from :: nat

text \<open>
  \<open>entered\<close> counts the host loops so far; the atomic \<^verbatim>\<open>next_instance\<close> holds it as a 64-bit
  word.
\<close>

record relay =
  hosts :: registry
  online :: "string \<rightharpoonup> OnlineHost"
  entered :: nat
  loops :: "nat \<rightharpoonup> host_loop"
  phones :: "string \<rightharpoonup> client_loop"

definition next_instance :: "relay \<Rightarrow> u64" where
  "next_instance s = word_of_nat (entered s)"

definition relay_start :: "registry \<Rightarrow> relay" where
  "relay_start m = \<lparr> hosts = m, online = Map.empty, entered = 0, loops = Map.empty, phones = Map.empty \<rparr>"

definition PER_CLIENT_FAST_CAP :: nat where "PER_CLIENT_FAST_CAP = 8"
definition PER_CLIENT_BULK_CAP :: nat where "PER_CLIENT_BULK_CAP = 32"
definition TO_HOST_QUEUE_CAP :: nat where "TO_HOST_QUEUE_CAP = 32"

definition set_loop :: "nat \<Rightarrow> host_loop \<Rightarrow> relay \<Rightarrow> relay" where
  "set_loop i l s = s\<lparr>loops := (loops s)(i \<mapsto> l)\<rparr>"

definition set_phone :: "string \<Rightarrow> client_loop \<Rightarrow> relay \<Rightarrow> relay" where
  "set_phone cid p s = s\<lparr>phones := (phones s)(cid \<mapsto> p)\<rparr>"

definition new_host_loop :: "string \<Rightarrow> string \<Rightarrow> host_loop" where
  "new_host_loop h tok = \<lparr> hl_host = h, hl_token = tok, hl_stage = HInsert, hl_clients = {}, hl_cancel = False,
     hl_queue = [], hl_rx = True, hl_wire = [], hl_in = [], hl_acc = [] \<rparr>"

definition new_client_loop :: "string \<Rightarrow> nat \<Rightarrow> client_loop" where
  "new_client_loop h i = \<lparr> pl_host = h, pl_loop = i, pl_stage = PInsert, pl_pong = [], pl_fast = [], pl_bulk = [],
     pl_rx = True, pl_wire = [], pl_in = [], pl_out = [], pl_from = 0 \<rparr>"

section \<open>The \<^verbatim>\<open>online\<close> table\<close>

definition online_insert :: "string \<Rightarrow> u64 \<Rightarrow> nat \<Rightarrow> (string \<rightharpoonup> OnlineHost) \<Rightarrow> (string \<rightharpoonup> OnlineHost)" where
  "online_insert host_id my_instance i m = m(host_id \<mapsto> \<lparr> oh_instance = my_instance, oh_loop = i \<rparr>)"

definition online_remove :: "string \<Rightarrow> u64 \<Rightarrow> (string \<rightharpoonup> OnlineHost) \<Rightarrow> (string \<rightharpoonup> OnlineHost)" where
  "online_remove host_id my_instance m =
     (let still_ours = (case m host_id of Some h \<Rightarrow> oh_instance h = my_instance | None \<Rightarrow> False)
      in if still_ours then m(host_id := None) else m)"

definition online_slot :: "string \<Rightarrow> (string \<rightharpoonup> OnlineHost) \<Rightarrow> (u64 \<times> nat) option" where
  "online_slot h m = map_option (\<lambda>e. (oh_instance e, oh_loop e)) (m h)"

interpretation relay_slot: owned_slot "online_insert h" "online_remove h" "online_slot h"
  by unfold_locales
    (auto simp: online_insert_def online_remove_def online_slot_def fun_eq_iff split: option.splits)

section \<open>Host loop\<close>

text \<open>A send into a host's queue: \<open>None\<close> while it has to wait for room.\<close>

definition queue_frame :: "TunnelFrame \<Rightarrow> host_loop \<Rightarrow> host_loop option" where
  "queue_frame f l = (if length (hl_queue l) < TO_HOST_QUEUE_CAP
     then Some (l\<lparr>hl_queue := hl_queue l @ [f], hl_acc := hl_acc l @ [f]\<rparr>) else None)"

text \<open>\<^verbatim>\<open>try_send\<close> into a phone's fast queue.\<close>

definition try_fast :: "PhoneOut \<Rightarrow> client_loop \<Rightarrow> client_loop" where
  "try_fast out p = (if pl_rx p \<and> length (pl_fast p) < PER_CLIENT_FAST_CAP
     then p\<lparr>pl_fast := pl_fast p @ [out]\<rparr> else p)"

inductive host_step :: "deps \<Rightarrow> relay \<Rightarrow> relay \<Rightarrow> bool" for D :: deps where
  host_enter: "host_ws_allowed D (hosts s) h tok \<Longrightarrow>
    host_step D s (set_loop (entered s) (new_host_loop h tok) (s\<lparr>entered := entered s + 1\<rparr>))"
| host_insert: "loops s i = Some l \<Longrightarrow> hl_stage l = HInsert \<Longrightarrow>
    st = (case online s (hl_host l) of None \<Rightarrow> HRead | Some old \<Rightarrow> HNotify (oh_loop old)) \<Longrightarrow>
    host_step D s (set_loop i (l\<lparr>hl_stage := st\<rparr>)
      (s\<lparr>online := online_insert (hl_host l) (word_of_nat i) i (online s)\<rparr>))"
| host_notify: "loops s i = Some l \<Longrightarrow> hl_stage l = HNotify j \<Longrightarrow> loops s j = Some old \<Longrightarrow> j \<noteq> i \<Longrightarrow>
    host_step D s (set_loop i (l\<lparr>hl_stage := HClear j\<rparr>) (set_loop j (old\<lparr>hl_cancel := True\<rparr>) s))"
| host_clear: "loops s i = Some l \<Longrightarrow> hl_stage l = HClear j \<Longrightarrow> loops s j = Some old \<Longrightarrow> j \<noteq> i \<Longrightarrow>
    host_step D s (set_loop i (l\<lparr>hl_stage := HRead\<rparr>) (set_loop j (old\<lparr>hl_clients := {}\<rparr>) s))"
| host_cancelled: "loops s i = Some l \<Longrightarrow> hl_stage l = HRead \<Longrightarrow> hl_cancel l \<Longrightarrow>
    host_step D s (set_loop i (l\<lparr>hl_stage := HLeave, hl_cancel := False\<rparr>) s)"
| host_end: "loops s i = Some l \<Longrightarrow> hl_stage l = HRead \<Longrightarrow>
    host_reader_item (hl_clients l) item = None \<Longrightarrow>
    host_step D s (set_loop i (l\<lparr>hl_stage := HLeave\<rparr>) s)"
| host_skip: "loops s i = Some l \<Longrightarrow> hl_stage l = HRead \<Longrightarrow> item = WsMsg msg \<Longrightarrow>
    host_reader_item (hl_clients l) item = Some [] \<Longrightarrow>
    host_step D s (set_loop i (l\<lparr>hl_in := hl_in l @ (case msg of WsBinary b \<Rightarrow> [b] | _ \<Rightarrow> [])\<rparr>) s)"
| host_bulk: "loops s i = Some l \<Longrightarrow> hl_stage l = HRead \<Longrightarrow>
    host_reader_item (hl_clients l) (WsMsg (WsBinary b)) = Some [BulkSend cid out] \<Longrightarrow>
    host_step D s (set_loop i (l\<lparr>hl_stage := HSend cid out, hl_in := hl_in l @ [b]\<rparr>) s)"
| host_fast: "loops s i = Some l \<Longrightarrow> hl_stage l = HRead \<Longrightarrow>
    host_reader_item (hl_clients l) (WsMsg (WsBinary b)) = Some [FastTrySend cid out] \<Longrightarrow>
    phones s cid = Some p \<Longrightarrow>
    host_step D s (set_phone cid (try_fast out p) (set_loop i (l\<lparr>hl_in := hl_in l @ [b]\<rparr>) s))"
| host_sent: "loops s i = Some l \<Longrightarrow> hl_stage l = HSend cid out \<Longrightarrow> phones s cid = Some p \<Longrightarrow> pl_rx p \<Longrightarrow>
    length (pl_bulk p) < PER_CLIENT_BULK_CAP \<Longrightarrow>
    host_step D s (set_phone cid (p\<lparr>pl_bulk := pl_bulk p @ [out]\<rparr>) (set_loop i (l\<lparr>hl_stage := HRead\<rparr>) s))"
| host_unsent: "loops s i = Some l \<Longrightarrow> hl_stage l = HSend cid out \<Longrightarrow> phones s cid = Some p \<Longrightarrow> \<not> pl_rx p \<Longrightarrow>
    host_step D s (set_loop i (l\<lparr>hl_stage := HRead\<rparr>) s)"
| host_leave: "loops s i = Some l \<Longrightarrow> hl_stage l = HLeave \<Longrightarrow>
    host_step D s (set_loop i (l\<lparr>hl_stage := HJoin\<rparr>)
      (s\<lparr>online := online_remove (hl_host l) (word_of_nat i) (online s)\<rparr>))"
| host_join: "loops s i = Some l \<Longrightarrow> hl_stage l = HJoin \<Longrightarrow> \<not> hl_rx l \<Longrightarrow>
    host_step D s (set_loop i (l\<lparr>hl_stage := HDrain\<rparr>) s)"
| host_drain: "loops s i = Some l \<Longrightarrow> hl_stage l = HDrain \<Longrightarrow>
    host_step D s (set_loop i (l\<lparr>hl_clients := {}, hl_stage := HDone\<rparr>) s)"

text \<open>
  The writer of a host's queue. It ends by itself only when the queue is empty and every sender is
  gone: the loop's own, the one in \<open>online\<close>, the one in an entry a successor is still handling,
  and the clone each phone's \<open>client_loop\<close> holds until it returns.
\<close>

definition holds_to_host :: "relay \<Rightarrow> nat \<Rightarrow> bool" where
  "holds_to_host s i \<longleftrightarrow>
     (\<exists>l. loops s i = Some l \<and> hl_stage l \<notin> {HJoin, HDrain, HDone})
   \<or> (\<exists>h e. online s h = Some e \<and> oh_loop e = i)
   \<or> (\<exists>j l. loops s j = Some l \<and> hl_stage l \<in> {HNotify i, HClear i})
   \<or> (\<exists>cid p. phones s cid = Some p \<and> pl_loop p = i \<and> pl_stage p \<noteq> PDone)"

definition host_writer_on :: "host_stage \<Rightarrow> bool" where
  "host_writer_on st = (case st of HInsert \<Rightarrow> False | HNotify j \<Rightarrow> False | HClear j \<Rightarrow> False | _ \<Rightarrow> True)"

inductive host_writer_step :: "relay \<Rightarrow> relay \<Rightarrow> bool" where
  hw_sent: "loops s i = Some l \<Longrightarrow> host_writer_on (hl_stage l) \<Longrightarrow> hl_rx l \<Longrightarrow> hl_queue l = f # q \<Longrightarrow>
    host_writer_step s (set_loop i (l\<lparr>hl_queue := q, hl_wire := hl_wire l @ [WsBinary (relay_encode f)]\<rparr>) s)"
| hw_failed: "loops s i = Some l \<Longrightarrow> host_writer_on (hl_stage l) \<Longrightarrow> hl_rx l \<Longrightarrow> hl_queue l = f # q \<Longrightarrow>
    host_writer_step s (set_loop i (l\<lparr>hl_queue := [], hl_rx := False\<rparr>) s)"
| hw_end: "loops s i = Some l \<Longrightarrow> host_writer_on (hl_stage l) \<Longrightarrow> hl_rx l \<Longrightarrow> hl_queue l = [] \<Longrightarrow> \<not> holds_to_host s i \<Longrightarrow>
    host_writer_step s (set_loop i (l\<lparr>hl_rx := False\<rparr>) s)"

section \<open>Phone loop\<close>

definition clear_queues :: "client_loop \<Rightarrow> client_loop" where
  "clear_queues p = p\<lparr>pl_rx := False, pl_pong := [], pl_fast := [], pl_bulk := []\<rparr>"

inductive client_step :: "relay \<Rightarrow> relay \<Rightarrow> bool" where
  client_enter: "online s h = Some e \<Longrightarrow> uuid_ok cid \<Longrightarrow> phones s cid = None \<Longrightarrow>
    client_step s (set_phone cid (new_client_loop h (oh_loop e)) s)"
| client_insert: "phones s cid = Some p \<Longrightarrow> pl_stage p = PInsert \<Longrightarrow> loops s (pl_loop p) = Some l \<Longrightarrow>
    client_step s (set_phone cid (p\<lparr>pl_stage := POpen, pl_from := length (hl_in l)\<rparr>)
      (set_loop (pl_loop p) (l\<lparr>hl_clients := insert cid (hl_clients l)\<rparr>) s))"
| client_open: "phones s cid = Some p \<Longrightarrow> pl_stage p = POpen \<Longrightarrow> loops s (pl_loop p) = Some l \<Longrightarrow>
    hl_rx l \<Longrightarrow> queue_frame (ClientOpen cid) l = Some l' \<Longrightarrow>
    client_step s (set_phone cid (p\<lparr>pl_stage := PRead\<rparr>) (set_loop (pl_loop p) l' s))"
| client_unopened: "phones s cid = Some p \<Longrightarrow> pl_stage p = POpen \<Longrightarrow> loops s (pl_loop p) = Some l \<Longrightarrow>
    \<not> hl_rx l \<Longrightarrow>
    client_step s (set_phone cid (p\<lparr>pl_stage := PAbort\<rparr>) s)"
| client_abort: "phones s cid = Some p \<Longrightarrow> pl_stage p = PAbort \<Longrightarrow> loops s (pl_loop p) = Some l \<Longrightarrow>
    client_step s (set_phone cid (clear_queues p\<lparr>pl_stage := PDone\<rparr>)
      (set_loop (pl_loop p) (l\<lparr>hl_clients := hl_clients l - {cid}\<rparr>) s))"
| client_end: "phones s cid = Some p \<Longrightarrow> pl_stage p = PRead \<Longrightarrow> client_reader_item cid item = None \<Longrightarrow>
    client_step s (set_phone cid (p\<lparr>pl_stage := PClose\<rparr>) s)"
| client_skip: "phones s cid = Some p \<Longrightarrow> pl_stage p = PRead \<Longrightarrow>
    client_reader_item cid (WsMsg m) = Some None \<Longrightarrow>
    client_step s s"
| client_ping: "phones s cid = Some p \<Longrightarrow> pl_stage p = PRead \<Longrightarrow>
    client_reader_item cid (WsMsg m) = Some (Some (PongQueued b)) \<Longrightarrow>
    client_step s (set_phone cid (if pl_rx p then p\<lparr>pl_pong := pl_pong p @ [b]\<rparr> else p) s)"
| client_read: "phones s cid = Some p \<Longrightarrow> pl_stage p = PRead \<Longrightarrow>
    client_reader_item cid (WsMsg m) = Some (Some (ToHost f)) \<Longrightarrow>
    client_step s (set_phone cid (p\<lparr>pl_stage := PSend f, pl_in := pl_in p @ [m]\<rparr>) s)"
| client_sent: "phones s cid = Some p \<Longrightarrow> pl_stage p = PSend f \<Longrightarrow> loops s (pl_loop p) = Some l \<Longrightarrow>
    hl_rx l \<Longrightarrow> queue_frame f l = Some l' \<Longrightarrow>
    client_step s (set_phone cid (p\<lparr>pl_stage := PRead\<rparr>) (set_loop (pl_loop p) l' s))"
| client_unsent: "phones s cid = Some p \<Longrightarrow> pl_stage p = PSend f \<Longrightarrow> loops s (pl_loop p) = Some l \<Longrightarrow>
    \<not> hl_rx l \<Longrightarrow>
    client_step s (set_phone cid (p\<lparr>pl_stage := PClose\<rparr>) s)"
| client_close: "phones s cid = Some p \<Longrightarrow> pl_stage p = PClose \<Longrightarrow> loops s (pl_loop p) = Some l \<Longrightarrow>
    hl_rx l \<Longrightarrow> queue_frame (ClientClose cid) l = Some l' \<Longrightarrow>
    client_step s (set_phone cid (p\<lparr>pl_stage := PRemove\<rparr>) (set_loop (pl_loop p) l' s))"
| client_unclosed: "phones s cid = Some p \<Longrightarrow> pl_stage p = PClose \<Longrightarrow> loops s (pl_loop p) = Some l \<Longrightarrow>
    \<not> hl_rx l \<Longrightarrow>
    client_step s (set_phone cid (p\<lparr>pl_stage := PRemove\<rparr>) s)"
| client_remove: "phones s cid = Some p \<Longrightarrow> pl_stage p = PRemove \<Longrightarrow> loops s (pl_loop p) = Some l \<Longrightarrow>
    client_step s (set_phone cid (p\<lparr>pl_stage := PJoin\<rparr>)
      (set_loop (pl_loop p) (l\<lparr>hl_clients := hl_clients l - {cid}\<rparr>) s))"
| client_join: "phones s cid = Some p \<Longrightarrow> pl_stage p = PJoin \<Longrightarrow> \<not> pl_rx p \<Longrightarrow>
    client_step s (set_phone cid (p\<lparr>pl_stage := PDone\<rparr>) s)"

text \<open>
  What the phone's writer sees of its three receivers. The reader owns the only pong sender; a fast or
  bulk sender is held by \<open>client_loop\<close> itself until it drops it, by the entry in
  \<open>clients\<close>, and by a host reader that cloned it for a send.
\<close>

definition recv_of :: "bool \<Rightarrow> 'a list \<Rightarrow> 'a recv_state" where
  "recv_of sender q = (case q of x # xs \<Rightarrow> Item x | [] \<Rightarrow> if sender then Pending else Closed)"

definition pong_sender :: "client_loop \<Rightarrow> bool" where
  "pong_sender p = (case pl_stage p of PRead \<Rightarrow> True | PSend f \<Rightarrow> True | _ \<Rightarrow> False)"

definition out_sender :: "string \<Rightarrow> client_loop \<Rightarrow> host_loop \<Rightarrow> bool" where
  "out_sender cid p l = (pl_stage p \<noteq> PJoin \<or> cid \<in> hl_clients l
     \<or> (case hl_stage l of HSend c out \<Rightarrow> c = cid | _ \<Rightarrow> False))"

definition client_writer_on :: "client_stage \<Rightarrow> bool" where
  "client_writer_on st = (case st of PRead \<Rightarrow> True | PSend f \<Rightarrow> True | PClose \<Rightarrow> True | PRemove \<Rightarrow> True
     | PJoin \<Rightarrow> True | _ \<Rightarrow> False)"

definition client_choice :: "string \<Rightarrow> client_loop \<Rightarrow> host_loop \<Rightarrow> writer_choice" where
  "client_choice cid p l = writer_select (recv_of (pong_sender p) (pl_pong p))
     (recv_of (out_sender cid p l) (pl_fast p)) (recv_of (out_sender cid p l) (pl_bulk p))"

text \<open>The queues without the item the writer took.\<close>

definition pop_out :: "client_loop \<Rightarrow> client_loop" where
  "pop_out p = (if pl_fast p \<noteq> [] then p\<lparr>pl_fast := tl (pl_fast p)\<rparr> else p\<lparr>pl_bulk := tl (pl_bulk p)\<rparr>)"

definition after_send :: "PhoneOut \<Rightarrow> bool \<Rightarrow> client_loop \<Rightarrow> client_loop" where
  "after_send out sent p =
     (let (m, go) = send_to_phone sent out;
          p = (pop_out p)\<lparr>pl_out := pl_out p @ [out],
                 pl_wire := pl_wire p @ (case m of Some x \<Rightarrow> if sent then [x] else [] | None \<Rightarrow> [])\<rparr>
      in if go then p else clear_queues p)"

inductive client_writer_step :: "relay \<Rightarrow> relay \<Rightarrow> bool" where
  cw_pong: "phones s cid = Some p \<Longrightarrow> client_writer_on (pl_stage p) \<Longrightarrow> pl_rx p \<Longrightarrow>
    loops s (pl_loop p) = Some l \<Longrightarrow> client_choice cid p l = SendPong b \<Longrightarrow>
    client_writer_step s (set_phone cid (if sent
      then p\<lparr>pl_pong := tl (pl_pong p), pl_wire := pl_wire p @ [WsPong b]\<rparr> else clear_queues p) s)"
| cw_out: "phones s cid = Some p \<Longrightarrow> client_writer_on (pl_stage p) \<Longrightarrow> pl_rx p \<Longrightarrow>
    loops s (pl_loop p) = Some l \<Longrightarrow> client_choice cid p l = SendOut out \<Longrightarrow>
    client_writer_step s (set_phone cid (after_send out sent p) s)"
| cw_break: "phones s cid = Some p \<Longrightarrow> client_writer_on (pl_stage p) \<Longrightarrow> pl_rx p \<Longrightarrow>
    loops s (pl_loop p) = Some l \<Longrightarrow> client_choice cid p l = WriterBreak \<Longrightarrow>
    client_writer_step s (set_phone cid (clear_queues p) s)"

section \<open>The whole relay\<close>

inductive relay_step :: "deps \<Rightarrow> relay \<Rightarrow> relay \<Rightarrow> bool" for D :: deps where
  rs_register: "uuid_ok uuid \<Longrightarrow> hosts s uuid = None \<Longrightarrow>
    host_register D tb uuid name (hosts s) = (hosts', hid, tok) \<Longrightarrow>
    relay_step D s (s\<lparr>hosts := hosts'\<rparr>)"
| rs_host: "host_step D s s' \<Longrightarrow> relay_step D s s'"
| rs_host_writer: "host_writer_step s s' \<Longrightarrow> relay_step D s s'"
| rs_client: "client_step s s' \<Longrightarrow> relay_step D s s'"
| rs_client_writer: "client_writer_step s s' \<Longrightarrow> relay_step D s s'"

text \<open>Reachable states: from a start with any registry read from disk.\<close>

inductive relay_reach :: "deps \<Rightarrow> relay \<Rightarrow> bool" for D :: deps where
  rr_start: "relay_reach D (relay_start m)"
| rr_step: "relay_reach D s \<Longrightarrow> relay_step D s s' \<Longrightarrow> relay_reach D s'"

inductive_cases host_stepE: "host_step D s s'"
inductive_cases host_writer_stepE: "host_writer_step s s'"
inductive_cases client_stepE: "client_step s s'"
inductive_cases client_writer_stepE: "client_writer_step s s'"

inductive_simps relay_step_iff: "relay_step D s s'"

lemma relay_induct [consumes 1, case_names start register host host_writer client client_writer]:
  assumes "relay_reach D s"
    and "\<And>m. P (relay_start m)"
    and "\<And>s uuid tb name hosts' hid tok. relay_reach D s \<Longrightarrow> P s \<Longrightarrow> uuid_ok uuid \<Longrightarrow> hosts s uuid = None \<Longrightarrow>
      host_register D tb uuid name (hosts s) = (hosts', hid, tok) \<Longrightarrow> P (s\<lparr>hosts := hosts'\<rparr>)"
    and "\<And>s s'. relay_reach D s \<Longrightarrow> P s \<Longrightarrow> host_step D s s' \<Longrightarrow> P s'"
    and "\<And>s s'. relay_reach D s \<Longrightarrow> P s \<Longrightarrow> host_writer_step s s' \<Longrightarrow> P s'"
    and "\<And>s s'. relay_reach D s \<Longrightarrow> P s \<Longrightarrow> client_step s s' \<Longrightarrow> P s'"
    and "\<And>s s'. relay_reach D s \<Longrightarrow> P s \<Longrightarrow> client_writer_step s s' \<Longrightarrow> P s'"
  shows "P s"
  using assms(1)
proof (induction rule: relay_reach.induct)
  case (rr_start m)
  then show ?case by (rule assms(2))
next
  case (rr_step s s')
  from \<open>relay_step D s s'\<close> show ?case
    by (cases rule: relay_step.cases) (use rr_step assms(3-7) in blast)+
qed

section \<open>Who belongs to whom\<close>

definition loops_counted :: "relay \<Rightarrow> bool" where
  "loops_counted s \<longleftrightarrow> (\<forall>i l. loops s i = Some l \<longrightarrow> i < entered s)"

definition phones_attached :: "relay \<Rightarrow> bool" where
  "phones_attached s \<longleftrightarrow> (\<forall>cid p. phones s cid = Some p \<longrightarrow>
     uuid_ok cid \<and> (\<exists>l. loops s (pl_loop p) = Some l \<and> hl_host l = pl_host p))"

definition clients_known :: "relay \<Rightarrow> bool" where
  "clients_known s \<longleftrightarrow> (\<forall>i l cid. loops s i = Some l \<longrightarrow> cid \<in> hl_clients l \<longrightarrow>
     (\<exists>p. phones s cid = Some p \<and> pl_loop p = i \<and> pl_stage p \<notin> {PInsert, PJoin, PDone}))"

definition send_known :: "relay \<Rightarrow> bool" where
  "send_known s \<longleftrightarrow> (\<forall>i l cid out. loops s i = Some l \<longrightarrow> hl_stage l = HSend cid out \<longrightarrow>
     (\<exists>p. phones s cid = Some p \<and> pl_loop p = i \<and> pl_stage p \<noteq> PInsert))"

definition slot_entry :: "relay \<Rightarrow> bool" where
  "slot_entry s \<longleftrightarrow> (\<forall>h e. online s h = Some e \<longrightarrow> oh_instance e = word_of_nat (oh_loop e) \<and>
     (\<exists>l. loops s (oh_loop e) = Some l \<and> hl_host l = h \<and> hl_stage l \<noteq> HInsert))"

lemma clients_knownD: "clients_known s \<Longrightarrow> loops s i = Some l \<Longrightarrow> cid \<in> hl_clients l \<Longrightarrow>
    \<exists>p. phones s cid = Some p \<and> pl_loop p = i \<and> pl_stage p \<notin> {PInsert, PJoin, PDone}"
  unfolding clients_known_def by blast

lemma send_knownD: "send_known s \<Longrightarrow> loops s i = Some l \<Longrightarrow> hl_stage l = HSend cid out \<Longrightarrow>
    \<exists>p. phones s cid = Some p \<and> pl_loop p = i \<and> pl_stage p \<noteq> PInsert"
  unfolding send_known_def by blast

lemma phones_attachedD: "phones_attached s \<Longrightarrow> phones s cid = Some p \<Longrightarrow>
    uuid_ok cid \<and> (\<exists>l. loops s (pl_loop p) = Some l \<and> hl_host l = pl_host p)"
  unfolding phones_attached_def by blast

lemmas system_defs = set_loop_def set_phone_def new_host_loop_def new_client_loop_def queue_frame_def
  try_fast_def clear_queues_def pop_out_def after_send_def Let_def

lemma host_reader_sends:
  assumes "host_reader_item clients item = Some acts" "a \<in> set acts"
  shows "\<exists>b cid txt p. item = WsMsg (WsBinary b) \<and> relay_decode b = Some (Data cid txt p) \<and> cid \<in> clients
    \<and> acts = [if must_deliver txt p then BulkSend cid \<lparr>po_bytes = p, po_text = txt\<rparr>
              else FastTrySend cid \<lparr>po_bytes = p, po_text = txt\<rparr>]"
  using assms
  by (auto simp: host_reader_item_def route_frame_def Let_def split: ws_item.splits ws_message.splits
      option.splits TunnelFrame.splits if_splits)

lemma bulk_read:
  assumes "host_reader_item clients (WsMsg (WsBinary b)) = Some [BulkSend cid out]"
  shows "relay_decode b = Some (Data cid (po_text out) (po_bytes out)) \<and> cid \<in> clients
    \<and> must_deliver (po_text out) (po_bytes out)"
  using host_reader_sends [OF assms, of "BulkSend cid out"] by (auto split: if_splits)

lemma fast_read:
  assumes "host_reader_item clients (WsMsg (WsBinary b)) = Some [FastTrySend cid out]"
  shows "relay_decode b = Some (Data cid (po_text out) (po_bytes out)) \<and> cid \<in> clients
    \<and> \<not> must_deliver (po_text out) (po_bytes out)"
  using host_reader_sends [OF assms, of "FastTrySend cid out"] by (auto split: if_splits)

lemma counted: "relay_reach D s \<Longrightarrow> loops_counted s"
proof (induction rule: relay_induct)
  case (host s s')
  from host(2,3) show ?case
    by (cases rule: host_stepE) (auto simp: loops_counted_def system_defs less_Suc_eq split: if_splits)
next
  case (host_writer s s')
  from host_writer(2,3) show ?case
    by (cases rule: host_writer_stepE) (auto simp: loops_counted_def system_defs split: if_splits)
next
  case (client s s')
  from client(2,3) show ?case
    by (cases rule: client_stepE) (auto simp: loops_counted_def system_defs split: if_splits)
next
  case (client_writer s s')
  from client_writer(2,3) show ?case
    by (cases rule: client_writer_stepE) (auto simp: loops_counted_def system_defs split: if_splits)
qed (simp_all add: loops_counted_def relay_start_def)

lemma entered_fresh: "relay_reach D s \<Longrightarrow> loops s (entered s) = None"
  using counted [of D s] by (cases "loops s (entered s)") (auto simp: loops_counted_def)

lemmas system_splits = if_splits option.splits

lemma slot_entries: "relay_reach D s \<Longrightarrow> slot_entry s"
proof (induction rule: relay_induct)
  case (host s s')
  from host(2,3) entered_fresh [OF host(1)] show ?case
    by (cases rule: host_stepE)
      (fastforce simp: slot_entry_def system_defs online_insert_def online_remove_def split: system_splits)+
next
  case (host_writer s s')
  from host_writer(2,3) show ?case
    by (cases rule: host_writer_stepE) (fastforce simp: slot_entry_def system_defs split: system_splits)+
next
  case (client s s')
  from client(2,3) show ?case
    by (cases rule: client_stepE) (fastforce simp: slot_entry_def system_defs split: system_splits)+
next
  case (client_writer s s')
  from client_writer(2,3) show ?case
    by (cases rule: client_writer_stepE) (auto simp: slot_entry_def system_defs split: system_splits)
qed (simp_all add: slot_entry_def relay_start_def)

lemma all_attached: "relay_reach D s \<Longrightarrow> phones_attached s"
proof (induction rule: relay_induct)
  case (host s s')
  from host(2,3) entered_fresh [OF host(1)] show ?case
    by (cases rule: host_stepE) (fastforce simp: phones_attached_def system_defs split: system_splits)+
next
  case (host_writer s s')
  from host_writer(2,3) show ?case
    by (cases rule: host_writer_stepE) (fastforce simp: phones_attached_def system_defs split: system_splits)+
next
  case (client s s')
  from client(2,3) slot_entries [OF client(1)] show ?case
    by (cases rule: client_stepE)
      (fastforce simp: phones_attached_def slot_entry_def system_defs split: system_splits)+
next
  case (client_writer s s')
  from client_writer(2,3) show ?case
    by (cases rule: client_writer_stepE)
      (fastforce simp: phones_attached_def system_defs split: system_splits prod.splits)+
qed (simp_all add: phones_attached_def relay_start_def)

lemma host_step_phones:
  "host_step D s s' \<Longrightarrow> phones s cid = Some p \<Longrightarrow> \<exists>p'. phones s' cid = Some p' \<and> pl_loop p' = pl_loop p
    \<and> pl_stage p' = pl_stage p \<and> pl_out p' = pl_out p \<and> pl_from p' = pl_from p \<and> pl_rx p' = pl_rx p"
  by (erule host_stepE) (auto simp: system_defs split: if_splits)

lemma host_step_clients:
  "host_step D s s' \<Longrightarrow> loops s' i = Some l' \<Longrightarrow> cid \<in> hl_clients l' \<Longrightarrow>
    \<exists>l. loops s i = Some l \<and> cid \<in> hl_clients l"
  by (erule host_stepE) (auto simp: system_defs split: if_splits)

lemma host_step_send:
  "host_step D s s' \<Longrightarrow> loops s' i = Some l' \<Longrightarrow> hl_stage l' = HSend cid out \<Longrightarrow>
    \<exists>l. loops s i = Some l \<and> (hl_stage l = HSend cid out \<or> cid \<in> hl_clients l)"
  by (erule host_stepE) (auto simp: system_defs dest: bulk_read split: if_splits option.splits)

lemma host_writer_step_frame:
  "host_writer_step s s' \<Longrightarrow> phones s' = phones s \<and> online s' = online s \<and> hosts s' = hosts s \<and> entered s' = entered s
    \<and> (\<forall>i l'. loops s' i = Some l' \<longrightarrow> (\<exists>l. loops s i = Some l \<and> hl_clients l' = hl_clients l
       \<and> hl_stage l' = hl_stage l \<and> hl_in l' = hl_in l \<and> hl_acc l' = hl_acc l \<and> hl_host l' = hl_host l
       \<and> hl_token l' = hl_token l \<and> hl_cancel l' = hl_cancel l))"
  by (erule host_writer_stepE) (auto simp: system_defs split: if_splits)

lemma client_writer_step_frame:
  "client_writer_step s s' \<Longrightarrow> loops s' = loops s \<and> online s' = online s \<and> hosts s' = hosts s \<and> entered s' = entered s
    \<and> (\<forall>cid p. phones s cid = Some p \<longrightarrow> (\<exists>p'. phones s' cid = Some p' \<and> pl_loop p' = pl_loop p
       \<and> pl_stage p' = pl_stage p \<and> pl_from p' = pl_from p \<and> pl_in p' = pl_in p \<and> pl_host p' = pl_host p))"
  by (erule client_writer_stepE) (auto simp: system_defs split: if_splits prod.splits)

lemma client_step_send:
  "client_step s s' \<Longrightarrow> loops s' i = Some l' \<Longrightarrow> hl_stage l' = HSend cid out \<Longrightarrow>
    \<exists>l. loops s i = Some l \<and> hl_stage l = HSend cid out"
  by (erule client_stepE) (auto simp: system_defs split: if_splits)

lemma client_step_phones:
  "client_step s s' \<Longrightarrow> phones s cid = Some p \<Longrightarrow> \<exists>p'. phones s' cid = Some p' \<and> pl_loop p' = pl_loop p
    \<and> (pl_stage p' = PInsert \<longrightarrow> pl_stage p = PInsert)"
  by (erule client_stepE) (auto simp: system_defs split: if_splits)

lemma all_known: "relay_reach D s \<Longrightarrow> clients_known s"
proof (induction rule: relay_induct)
  case (host s s')
  show ?case unfolding clients_known_def
  proof (intro allI impI)
    fix i l' cid assume "loops s' i = Some l'" "cid \<in> hl_clients l'"
    from host_step_clients [OF host(2) this] host(3) host_step_phones [OF host(2), of cid]
    show "\<exists>p. phones s' cid = Some p \<and> pl_loop p = i \<and> pl_stage p \<notin> {PInsert, PJoin, PDone}"
      by (fastforce simp: clients_known_def)
  qed
next
  case (host_writer s s')
  from host_writer_step_frame [OF host_writer(2)] host_writer(3) show ?case
    by (fastforce simp: clients_known_def)
next
  case (client s s')
  from client(2,3) show ?case
    by (cases rule: client_stepE) (fastforce simp: clients_known_def system_defs split: if_splits)+
next
  case (client_writer s s')
  from client_writer_step_frame [OF client_writer(2)] client_writer(3) show ?case
    by (fastforce simp: clients_known_def)
qed (simp_all add: clients_known_def relay_start_def)

lemma all_send_known: "relay_reach D s \<Longrightarrow> send_known s"
proof (induction rule: relay_induct)
  case (host s s')
  show ?case unfolding send_known_def
  proof (intro allI impI)
    fix i l' cid out assume "loops s' i = Some l'" "hl_stage l' = HSend cid out"
    from host_step_send [OF host(2) this] obtain l where l: "loops s i = Some l"
      and "hl_stage l = HSend cid out \<or> cid \<in> hl_clients l" by blast
    then obtain p where "phones s cid = Some p" "pl_loop p = i" "pl_stage p \<noteq> PInsert"
      using send_knownD [OF host(3) l] clients_knownD [OF all_known [OF host(1)] l] by fastforce
    with host_step_phones [OF host(2), of cid p]
    show "\<exists>p. phones s' cid = Some p \<and> pl_loop p = i \<and> pl_stage p \<noteq> PInsert"
      by auto
  qed
next
  case (host_writer s s')
  from host_writer_step_frame [OF host_writer(2)] host_writer(3) show ?case
    by (fastforce simp: send_known_def)
next
  case (client s s')
  show ?case unfolding send_known_def
  proof (intro allI impI)
    fix i l' cid out assume "loops s' i = Some l'" "hl_stage l' = HSend cid out"
    from client_step_send [OF client(2) this] obtain l where
      "loops s i = Some l" "hl_stage l = HSend cid out" by blast
    from send_knownD [OF client(3) this] obtain p where "phones s cid = Some p" "pl_loop p = i" "pl_stage p \<noteq> PInsert"
      by blast
    with client_step_phones [OF client(2), of cid p]
    show "\<exists>p. phones s' cid = Some p \<and> pl_loop p = i \<and> pl_stage p \<noteq> PInsert"
      by auto
  qed
next
  case (client_writer s s')
  show ?case unfolding send_known_def
  proof (intro allI impI)
    fix i l cid out assume l: "loops s' i = Some l" "hl_stage l = HSend cid out"
    note fr = client_writer_step_frame [OF client_writer(2)]
    then have "loops s i = Some l" using l by simp
    from send_knownD [OF client_writer(3) this l(2)] fr
    show "\<exists>p. phones s' cid = Some p \<and> pl_loop p = i \<and> pl_stage p \<noteq> PInsert"
      by (elim exE conjE) (metis (no_types))
  qed
qed (simp_all add: send_known_def relay_start_def)

section \<open>One live session per host\<close>

definition reading :: "host_stage \<Rightarrow> bool" where
  "reading st = (case st of HInsert \<Rightarrow> False | HLeave \<Rightarrow> False | HJoin \<Rightarrow> False | HDrain \<Rightarrow> False | HDone \<Rightarrow> False
     | _ \<Rightarrow> True)"

definition slot_live :: "relay \<Rightarrow> bool" where
  "slot_live s \<longleftrightarrow> (\<forall>h e l. online s h = Some e \<longrightarrow> loops s (oh_loop e) = Some l \<longrightarrow>
     reading (hl_stage l) \<or> hl_stage l = HLeave)"

definition old_known :: "relay \<Rightarrow> bool" where
  "old_known s \<longleftrightarrow> (\<forall>i l j. loops s i = Some l \<longrightarrow> hl_stage l \<in> {HNotify j, HClear j} \<longrightarrow>
     j \<noteq> i \<and> (\<exists>old. loops s j = Some old \<and> hl_host old = hl_host l \<and> hl_stage old \<noteq> HInsert))"

definition displaced_told :: "relay \<Rightarrow> bool" where
  "displaced_told s \<longleftrightarrow> (\<forall>i l. loops s i = Some l \<longrightarrow> reading (hl_stage l) \<longrightarrow>
     (\<exists>e. online s (hl_host l) = Some e \<and> oh_loop e = i) \<or> hl_cancel l
     \<or> (\<exists>j l'. loops s j = Some l' \<and> hl_stage l' = HNotify i))"

definition admitted :: "deps \<Rightarrow> relay \<Rightarrow> bool" where
  "admitted D s \<longleftrightarrow> (\<forall>i l. loops s i = Some l \<longrightarrow> host_ws_allowed D (hosts s) (hl_host l) (hl_token l))"

lemma instance_inj:
  "i < 2 ^ 64 \<Longrightarrow> j < 2 ^ 64 \<Longrightarrow> (word_of_nat i :: u64) = word_of_nat j \<longleftrightarrow> i = j"
  by (simp add: word_of_nat_eq_iff take_bit_nat_eq_self)

lemma entered_mono: "relay_step D s s' \<Longrightarrow> entered s \<le> entered s'"
  unfolding relay_step_iff
  by (elim disjE exE conjE)
    (auto elim!: host_stepE client_stepE simp: system_defs
      dest: host_writer_step_frame client_writer_step_frame)

lemma host_entered_mono: "host_step D s s' \<Longrightarrow> entered s \<le> entered s'"
  using entered_mono rs_host by blast

lemma online_step_frame:
  "client_step s s' \<Longrightarrow> online s' = online s \<and> hosts s' = hosts s \<and> entered s' = entered s
    \<and> (\<forall>i l'. loops s' i = Some l' \<longrightarrow> (\<exists>l. loops s i = Some l
       \<and> hl_stage l' = hl_stage l \<and> hl_in l' = hl_in l \<and> hl_host l' = hl_host l
       \<and> hl_token l' = hl_token l \<and> hl_cancel l' = hl_cancel l))
    \<and> (\<forall>i l. loops s i = Some l \<longrightarrow> (\<exists>l'. loops s' i = Some l'
       \<and> hl_stage l' = hl_stage l \<and> hl_in l' = hl_in l \<and> hl_host l' = hl_host l
       \<and> hl_token l' = hl_token l \<and> hl_cancel l' = hl_cancel l))"
  by (erule client_stepE) (auto simp: system_defs split: if_splits)

lemma register_keeps: "host_register D tb uuid name hs = (hosts', hid, tok) \<Longrightarrow> hs uuid = None \<Longrightarrow>
    host_ws_allowed D hs h tok' \<Longrightarrow> host_ws_allowed D hosts' h tok'"
  by (auto simp: host_register_def host_ws_allowed_def Let_def split: option.splits if_splits)

lemma all_admitted: "relay_reach D s \<Longrightarrow> admitted D s"
proof (induction rule: relay_induct)
  case (register s uuid tb name hosts' hid tok)
  then show ?case
    using register_keeps [OF register(4,3)] by (auto simp: admitted_def)
next
  case (host s s')
  from host(2,3) show ?case
    by (cases rule: host_stepE) (auto simp: admitted_def system_defs split: if_splits)
next
  case (host_writer s s')
  from host_writer_step_frame [OF host_writer(2)] host_writer(3) show ?case
    unfolding admitted_def by metis
next
  case (client s s')
  from online_step_frame [OF client(2)] client(3) show ?case
    unfolding admitted_def by metis
next
  case (client_writer s s')
  from client_writer_step_frame [OF client_writer(2)] client_writer(3) show ?case
    unfolding admitted_def by metis
qed (simp_all add: admitted_def relay_start_def)

lemma all_old_known: "relay_reach D s \<Longrightarrow> old_known s"
proof (induction rule: relay_induct)
  case (host s s')
  from host(2,3) entered_fresh [OF host(1)] slot_entries [OF host(1)] show ?case
    by (cases rule: host_stepE)
      (fastforce simp: old_known_def slot_entry_def system_defs split: if_splits option.splits)+
next
  case (host_writer s s')
  from host_writer(2,3) show ?case
    by (cases rule: host_writer_stepE) (fastforce simp: old_known_def system_defs split: if_splits)+
next
  case (client s s')
  from online_step_frame [OF client(2)] client(3) show ?case
    unfolding old_known_def by metis
next
  case (client_writer s s')
  from client_writer_step_frame [OF client_writer(2)] client_writer(3) show ?case
    by (simp add: old_known_def)
qed (simp_all add: old_known_def relay_start_def)

lemma all_slot_live: "relay_reach D s \<Longrightarrow> entered s \<le> 2 ^ 64 \<Longrightarrow> slot_live s"
proof (induction rule: relay_induct)
  case (host s s')
  have bound: "entered s \<le> 2 ^ 64" using host_entered_mono [OF host(2)] host(4) by simp
  have inj: "\<And>i j l l'. loops s i = Some l \<Longrightarrow> loops s j = Some l' \<Longrightarrow>
      (word_of_nat i :: u64) = word_of_nat j \<longleftrightarrow> i = j"
    using counted [OF host(1)] bound by (intro instance_inj) (fastforce simp: loops_counted_def)+
  from host(2) host(3) [OF bound] entered_fresh [OF host(1)] slot_entries [OF host(1)] show ?case
    by (cases rule: host_stepE)
      (fastforce simp: slot_live_def slot_entry_def system_defs reading_def online_insert_def
        online_remove_def inj split: if_splits option.splits)+
next
  case (host_writer s s')
  from host_writer(2-4) show ?case
    by (cases rule: host_writer_stepE) (fastforce simp: slot_live_def system_defs split: if_splits)+
next
  case (client s s')
  from online_step_frame [OF client(2)] client(3,4) show ?case
    unfolding slot_live_def by metis
next
  case (client_writer s s')
  from client_writer_step_frame [OF client_writer(2)] client_writer(3,4) show ?case
    by (simp add: slot_live_def)
qed (simp_all add: slot_live_def relay_start_def)

lemma displaced_toldI:
  assumes "displaced_told s" "loops s i = Some l" "reading (hl_stage l)"
  obtains (owner) e where "online s (hl_host l) = Some e" "oh_loop e = i"
    | (cancelled) "hl_cancel l"
    | (pending) j l' where "loops s j = Some l'" "hl_stage l' = HNotify i"
  using assms unfolding displaced_told_def by blast

lemma insert_told:
  assumes d: "displaced_told s" and i: "loops s i = Some l" "hl_stage l = HInsert"
    and st: "st = (case online s (hl_host l) of None \<Rightarrow> HRead | Some old \<Rightarrow> HNotify (oh_loop old))"
  shows "displaced_told (set_loop i (l\<lparr>hl_stage := st\<rparr>)
      (s\<lparr>online := online_insert (hl_host l) (word_of_nat i) i (online s)\<rparr>))" (is "displaced_told ?s'")
  unfolding displaced_told_def
proof (intro allI impI)
  fix k m assume k: "loops ?s' k = Some m" and r: "reading (hl_stage m)"
  let ?goal = "(\<exists>e. online ?s' (hl_host m) = Some e \<and> oh_loop e = k) \<or> hl_cancel m
      \<or> (\<exists>j l'. loops ?s' j = Some l' \<and> hl_stage l' = HNotify k)"
  show ?goal
  proof (cases "k = i")
    case True
    with k show ?thesis by (auto simp: set_loop_def online_insert_def)
  next
    case False
    with k have k': "loops s k = Some m" by (simp add: set_loop_def)
    from d k' r show ?thesis
    proof (cases rule: displaced_toldI)
      case (owner e)
      show ?thesis
      proof (cases "hl_host m = hl_host l")
        case True
        with owner st have "st = HNotify k" by simp
        then have "\<exists>j l'. loops ?s' j = Some l' \<and> hl_stage l' = HNotify k"
          by (intro exI [of _ i]) (simp add: set_loop_def)
        then show ?thesis by blast
      next
        case False
        with owner show ?thesis by (simp add: set_loop_def online_insert_def)
      qed
    next
      case cancelled
      then show ?thesis by blast
    next
      case (pending j l')
      with i have "j \<noteq> i" by auto
      with pending have "loops ?s' j = Some l'" by (simp add: set_loop_def)
      with pending show ?thesis by blast
    qed
  qed
qed

lemma leave_told:
  assumes d: "displaced_told s" and i: "loops s i = Some l" "hl_stage l = HLeave"
    and inj: "\<And>j l'. loops s j = Some l' \<Longrightarrow> (word_of_nat i :: u64) = word_of_nat j \<longleftrightarrow> i = j"
    and e: "slot_entry s"
  shows "displaced_told (set_loop i (l\<lparr>hl_stage := HJoin\<rparr>)
      (s\<lparr>online := online_remove (hl_host l) (word_of_nat i) (online s)\<rparr>))" (is "displaced_told ?s'")
  unfolding displaced_told_def
proof (intro allI impI)
  fix k m assume k: "loops ?s' k = Some m" and r: "reading (hl_stage m)"
  let ?goal = "(\<exists>e. online ?s' (hl_host m) = Some e \<and> oh_loop e = k) \<or> hl_cancel m
      \<or> (\<exists>j l'. loops ?s' j = Some l' \<and> hl_stage l' = HNotify k)"
  from k r have ki: "k \<noteq> i" by (auto simp: set_loop_def reading_def)
  with k have k': "loops s k = Some m" by (simp add: set_loop_def)
  from d k' r show ?goal
  proof (cases rule: displaced_toldI)
    case (owner f)
    with e k' have "oh_instance f = word_of_nat k" by (auto simp: slot_entry_def)
    with inj [OF k'] ki have "oh_instance f \<noteq> word_of_nat i" by metis
    with owner show ?thesis by (auto simp: set_loop_def online_remove_def split: option.split)
  next
    case cancelled
    then show ?thesis by blast
  next
    case (pending j l')
    with i have "j \<noteq> i" by auto
    with pending have "loops ?s' j = Some l'" by (simp add: set_loop_def)
    with pending show ?thesis by blast
  qed
qed

lemma update_told:
  assumes "displaced_told s" "loops s i = Some l" "hl_host l' = hl_host l"
    and "hl_cancel l \<Longrightarrow> reading (hl_stage l') \<Longrightarrow> hl_cancel l'" "reading (hl_stage l') \<Longrightarrow> reading (hl_stage l)"
    and "\<And>k. hl_stage l = HNotify k \<Longrightarrow> hl_stage l' = HNotify k"
    and "online s' = online s" "loops s' = (loops s)(i \<mapsto> l')"
  shows "displaced_told s'"
  unfolding displaced_told_def
proof (intro allI impI)
  fix k m assume k: "loops s' k = Some m" and r: "reading (hl_stage m)"
  obtain m0 where m0: "loops s k = Some m0" "reading (hl_stage m0)" "hl_host m = hl_host m0"
      "hl_cancel m0 \<Longrightarrow> hl_cancel m"
    using k r assms(2-5,8) by (cases "k = i") auto
  from assms(1) m0(1,2) show "(\<exists>e. online s' (hl_host m) = Some e \<and> oh_loop e = k) \<or> hl_cancel m
      \<or> (\<exists>j l'. loops s' j = Some l' \<and> hl_stage l' = HNotify k)"
  proof (cases rule: displaced_toldI)
    case (pending j n)
    then have "\<exists>n. loops s' j = Some n \<and> hl_stage n = HNotify k"
      using assms(2,6,8) by (cases "j = i") auto
    then show ?thesis by blast
  qed (use m0 assms(7) in auto)
qed

lemma notify_told:
  assumes d: "displaced_told s" and i: "loops s i = Some l" "hl_stage l = HNotify j"
    and j: "loops s j = Some old" "j \<noteq> i"
  shows "displaced_told (set_loop i (l\<lparr>hl_stage := HClear j\<rparr>) (set_loop j (old\<lparr>hl_cancel := True\<rparr>) s))"
    (is "displaced_told ?s'")
  unfolding displaced_told_def
proof (intro allI impI)
  fix k m assume k: "loops ?s' k = Some m" and r: "reading (hl_stage m)"
  obtain m0 where m0: "loops s k = Some m0" "reading (hl_stage m0)" "hl_host m = hl_host m0"
      "hl_cancel m0 \<or> k = j \<Longrightarrow> hl_cancel m"
    using k r i j by (cases "k = i"; cases "k = j") (auto simp: set_loop_def reading_def)
  from d m0(1,2) show "(\<exists>e. online ?s' (hl_host m) = Some e \<and> oh_loop e = k) \<or> hl_cancel m
      \<or> (\<exists>j l'. loops ?s' j = Some l' \<and> hl_stage l' = HNotify k)"
  proof (cases rule: displaced_toldI)
    case (pending q n)
    show ?thesis
    proof (cases "k = j")
      case True
      with m0 show ?thesis by blast
    next
      case False
      with pending i have "q \<noteq> i" by auto
      with pending j have "\<exists>n. loops ?s' q = Some n \<and> hl_stage n = HNotify k"
        by (cases "q = j") (auto simp: set_loop_def)
      then show ?thesis by blast
    qed
  qed (use m0 in \<open>auto simp: set_loop_def\<close>)
qed

lemma enter_told:
  assumes "displaced_told s" "loops s i = None" "\<not> reading (hl_stage l)"
    and "online s' = online s" "loops s' = (loops s)(i \<mapsto> l)"
  shows "displaced_told s'"
  unfolding displaced_told_def
proof (intro allI impI)
  fix k m assume k: "loops s' k = Some m" and r: "reading (hl_stage m)"
  with assms(2,3,5) have m: "loops s k = Some m" by (auto split: if_splits)
  from assms(1) m r show "(\<exists>e. online s' (hl_host m) = Some e \<and> oh_loop e = k) \<or> hl_cancel m
      \<or> (\<exists>j l'. loops s' j = Some l' \<and> hl_stage l' = HNotify k)"
  proof (cases rule: displaced_toldI)
    case (pending j n)
    with assms(2) have "j \<noteq> i" by auto
    with pending assms(5) show ?thesis by auto
  qed (use assms(4) in auto)
qed

lemma all_displaced_told: "relay_reach D s \<Longrightarrow> entered s \<le> 2 ^ 64 \<Longrightarrow> displaced_told s"
proof (induction rule: relay_induct)
  case (host s s')
  have bound: "entered s \<le> 2 ^ 64" using host_entered_mono [OF host(2)] host(4) by simp
  have inj: "\<And>i j l l'. loops s i = Some l \<Longrightarrow> loops s j = Some l' \<Longrightarrow>
      (word_of_nat i :: u64) = word_of_nat j \<longleftrightarrow> i = j"
    using counted [OF host(1)] bound by (intro instance_inj) (fastforce simp: loops_counted_def)+
  note d = host(3) [OF bound] and e = slot_entries [OF host(1)]
  note fresh = entered_fresh [OF host(1)]
  from host(2) show ?case
  proof cases
    case (host_insert i l st)
    with insert_told [OF d host_insert(2,3) host_insert(4)] show ?thesis by simp
  next
    case (host_leave i l)
    with leave_told [OF d host_leave(2,3) inj [OF host_leave(2)] e] show ?thesis by simp
  next
    case (host_enter h tok)
    show ?thesis
      by (rule enter_told [OF d fresh]) (simp_all add: host_enter set_loop_def new_host_loop_def reading_def)
  next
    case (host_notify i l j old)
    with notify_told [OF d host_notify(2-5)] show ?thesis by simp
  next
    case (host_clear i l j old)
    have o: "displaced_told (set_loop j (old\<lparr>hl_clients := {}\<rparr>) s)"
      by (rule update_told [OF d host_clear(4)]) (simp_all add: set_loop_def)
    show ?thesis
      unfolding host_clear(1)
      by (rule update_told [OF o, of i l]) (use host_clear in \<open>simp_all add: set_loop_def reading_def\<close>)
  qed (rule update_told [OF d], assumption, auto simp: set_loop_def set_phone_def reading_def)+
next
  case (host_writer s s')
  have d: "displaced_told s" using host_writer host_writer_step_frame [OF host_writer(2)] by simp
  from host_writer(2) show ?case
    by cases (rule update_told [OF d], assumption, auto simp: set_loop_def)+
next
  case (client s s')
  from online_step_frame [OF client(2)] client(3,4) show ?case
    unfolding displaced_told_def by metis
next
  case (client_writer s s')
  from client_writer_step_frame [OF client_writer(2)] client_writer(3,4) show ?case
    by (simp add: displaced_told_def)
qed (simp_all add: displaced_told_def relay_start_def)

section \<open>A run\<close>

text \<open>A registered PC connects, a phone attaches, and a text message of the PC is read for it.\<close>

definition demo_cid :: string where "demo_cid = replicate 36 CHR ''a''"

definition demo_hosts :: registry where
  "demo_hosts = [''h'' \<mapsto> \<lparr> hr_token_hash = sha256_hex toy_deps (as_bytes ''t''), hr_name = ''pc'' \<rparr>]"

definition demo_state :: "host_loop \<Rightarrow> (string \<rightharpoonup> client_loop) \<Rightarrow> relay" where
  "demo_state l ps = \<lparr> hosts = demo_hosts, online = [''h'' \<mapsto> \<lparr> oh_instance = 0, oh_loop = 0 \<rparr>],
     entered = 1, loops = [0 \<mapsto> l], phones = ps \<rparr>"

definition demo_reader :: host_loop where
  "demo_reader = (new_host_loop ''h'' ''t'')\<lparr>hl_stage := HRead\<rparr>"

definition demo_session :: host_loop where
  "demo_session = demo_reader\<lparr>hl_clients := {demo_cid}, hl_wire := [WsBinary (relay_encode (ClientOpen demo_cid))],
     hl_acc := [ClientOpen demo_cid]\<rparr>"

definition demo_phone :: client_loop where
  "demo_phone = (new_client_loop ''h'' 0)\<lparr>pl_stage := PRead\<rparr>"

lemma demo_simps [simp]: "hosts (demo_state l ps) = demo_hosts"
    "online (demo_state l ps) = [''h'' \<mapsto> \<lparr> oh_instance = 0, oh_loop = 0 \<rparr>]" "entered (demo_state l ps) = 1"
    "loops (demo_state l ps) = [0 \<mapsto> l]" "phones (demo_state l ps) = ps"
    "set_loop 0 l' (demo_state l ps) = demo_state l' ps" "set_phone c q (demo_state l ps) = demo_state l (ps(c \<mapsto> q))"
  by (simp_all add: demo_state_def set_loop_def set_phone_def)

lemmas reach_steps = rr_step [OF _ rs_host] rr_step [OF _ rs_host_writer] rr_step [OF _ rs_client]
  rr_step [OF _ rs_client_writer]

lemma demo_online: "relay_reach toy_deps (demo_state demo_reader Map.empty)"
proof -
  have ok: "host_ws_allowed toy_deps demo_hosts ''h'' ''t''"
    by (simp add: host_ws_allowed_def demo_hosts_def)
  have 1: "relay_reach toy_deps (set_loop 0 (new_host_loop ''h'' ''t'') ((relay_start demo_hosts)\<lparr>entered := 1\<rparr>))"
    (is "relay_reach _ ?s1")
    using rr_step [OF rr_start rs_host [OF host_enter [of toy_deps "relay_start demo_hosts" "''h''" "''t''"]]] ok
    by (simp add: relay_start_def)
  have "host_step toy_deps ?s1 (demo_state demo_reader Map.empty)"
    using host_insert [of ?s1 0 "new_host_loop ''h'' ''t''" HRead toy_deps]
    by (simp add: set_loop_def new_host_loop_def relay_start_def demo_state_def demo_reader_def online_insert_def)
  from reach_steps(1) [OF 1 this] show ?thesis .
qed

lemma demo_attached: "relay_reach toy_deps (demo_state demo_session [demo_cid \<mapsto> demo_phone])"
proof -
  let ?p = "new_client_loop ''h'' 0" and ?l = "demo_reader\<lparr>hl_clients := {demo_cid}\<rparr>"
  have "client_step (demo_state demo_reader Map.empty) (demo_state demo_reader [demo_cid \<mapsto> ?p])"
    using client_enter [of "demo_state demo_reader Map.empty" "''h''" "\<lparr> oh_instance = 0, oh_loop = 0 \<rparr>" demo_cid]
    by (simp add: demo_cid_def uuid_ok_replicate)
  note r = reach_steps(3) [OF demo_online this]
  have "client_step (demo_state demo_reader [demo_cid \<mapsto> ?p]) (demo_state ?l [demo_cid \<mapsto> ?p\<lparr>pl_stage := POpen\<rparr>])"
    using client_insert [of "demo_state demo_reader [demo_cid \<mapsto> ?p]" demo_cid ?p demo_reader]
    by (simp add: new_client_loop_def demo_reader_def new_host_loop_def)
  note r = reach_steps(3) [OF r this]
  have "client_step (demo_state ?l [demo_cid \<mapsto> ?p\<lparr>pl_stage := POpen\<rparr>])
      (demo_state (?l\<lparr>hl_queue := [ClientOpen demo_cid], hl_acc := [ClientOpen demo_cid]\<rparr>) [demo_cid \<mapsto> demo_phone])"
    using client_open [of "demo_state ?l [demo_cid \<mapsto> ?p\<lparr>pl_stage := POpen\<rparr>]" demo_cid "?p\<lparr>pl_stage := POpen\<rparr>" ?l]
    by (simp add: new_client_loop_def demo_reader_def new_host_loop_def demo_phone_def queue_frame_def TO_HOST_QUEUE_CAP_def)
  note r = reach_steps(3) [OF r this]
  have "host_writer_step (demo_state (?l\<lparr>hl_queue := [ClientOpen demo_cid], hl_acc := [ClientOpen demo_cid]\<rparr>) [demo_cid \<mapsto> demo_phone])
      (demo_state demo_session [demo_cid \<mapsto> demo_phone])"
    using hw_sent [of "demo_state (?l\<lparr>hl_queue := [ClientOpen demo_cid], hl_acc := [ClientOpen demo_cid]\<rparr>) [demo_cid \<mapsto> demo_phone]" 0
      "?l\<lparr>hl_queue := [ClientOpen demo_cid], hl_acc := [ClientOpen demo_cid]\<rparr>" "ClientOpen demo_cid" "[]"]
    by (simp add: demo_reader_def new_host_loop_def host_writer_on_def demo_session_def)
  from reach_steps(2) [OF r this] show ?thesis .
qed

lemma demo_leaving: "relay_reach toy_deps (demo_state (demo_session\<lparr>hl_stage := HLeave\<rparr>) [demo_cid \<mapsto> demo_phone])"
proof -
  have "host_step toy_deps (demo_state demo_session [demo_cid \<mapsto> demo_phone])
      (demo_state (demo_session\<lparr>hl_stage := HLeave\<rparr>) [demo_cid \<mapsto> demo_phone])"
    using host_end [of "demo_state demo_session [demo_cid \<mapsto> demo_phone]" 0 demo_session WsEnd toy_deps]
    by (simp add: demo_session_def demo_reader_def host_reader_item_def)
  from reach_steps(1) [OF demo_attached this] show ?thesis .
qed

lemma demo_leave: "host_step toy_deps (demo_state (demo_session\<lparr>hl_stage := HLeave\<rparr>) ps)
    (set_loop 0 (demo_session\<lparr>hl_stage := HJoin\<rparr>)
      ((demo_state (demo_session\<lparr>hl_stage := HLeave\<rparr>) ps)\<lparr>online := Map.empty\<rparr>))"
  using host_leave [of "demo_state (demo_session\<lparr>hl_stage := HLeave\<rparr>) ps" 0 "demo_session\<lparr>hl_stage := HLeave\<rparr>" toy_deps]
  by (simp add: demo_session_def demo_reader_def new_host_loop_def online_remove_def)

section \<open>Properties\<close>

text \<open>
  C7. At every moment of every interleaving of host connections, disconnections and clean-ups, the
  entry a host id has in \<open>online\<close> is that of a running session of that host, admitted with a token
  the registry accepts, which is still serving or about to remove its own entry; and a session that is
  still serving either owns the entry of its host or has been cancelled by its successor, or the
  successor is on the way to cancel it. (Instance numbers are 64 bits; the count of sessions is
  assumed not to have passed 2^64.)
\<close>

theorem one_live_session:
  assumes "relay_reach D s" "entered s \<le> 2 ^ 64"
  shows "(\<forall>h e. online s h = Some e \<longrightarrow> (\<exists>l. loops s (oh_loop e) = Some l \<and> hl_host l = h
        \<and> host_ws_allowed D (hosts s) h (hl_token l) \<and> (reading (hl_stage l) \<or> hl_stage l = HLeave)))
    \<and> (\<forall>i l. loops s i = Some l \<longrightarrow> reading (hl_stage l) \<longrightarrow>
        (\<exists>e. online s (hl_host l) = Some e \<and> oh_loop e = i) \<or> hl_cancel l
        \<or> (\<exists>j l'. loops s j = Some l' \<and> hl_stage l' = HNotify i))"
proof (intro conjI allI impI)
  fix h e assume h: "online s h = Some e"
  then obtain l where l: "loops s (oh_loop e) = Some l" "hl_host l = h"
    using slot_entries [OF assms(1)] unfolding slot_entry_def by blast
  moreover have "reading (hl_stage l) \<or> hl_stage l = HLeave"
    using all_slot_live [OF assms] h l(1) unfolding slot_live_def by blast
  moreover have "host_ws_allowed D (hosts s) h (hl_token l)"
    using all_admitted [OF assms(1)] l unfolding admitted_def by blast
  ultimately show "\<exists>l. loops s (oh_loop e) = Some l \<and> hl_host l = h
      \<and> host_ws_allowed D (hosts s) h (hl_token l) \<and> (reading (hl_stage l) \<or> hl_stage l = HLeave)"
    by blast
qed (use all_displaced_told [OF assms] in \<open>simp add: displaced_told_def\<close>)

lemma one_live_session_witness:
  "\<exists>e l. online (demo_state demo_session [demo_cid \<mapsto> demo_phone]) ''h'' = Some e
    \<and> loops (demo_state demo_session [demo_cid \<mapsto> demo_phone]) (oh_loop e) = Some l
    \<and> host_ws_allowed toy_deps demo_hosts ''h'' (hl_token l)"
proof -
  have "entered (demo_state demo_session [demo_cid \<mapsto> demo_phone]) \<le> 2 ^ 64" by simp
  note * = one_live_session [OF demo_attached this, THEN conjunct1, rule_format, of "''h''"
      "\<lparr> oh_instance = 0, oh_loop = 0 \<rparr>"]
  then show ?thesis by auto
qed

text \<open>
  C8. Nobody but its owner takes a host offline: if a step of the relay changes the entry of a host id,
  then either a newly admitted session of that host put its own entry there, or the session that owned
  the entry ended and left the host without one. In particular a displaced session that ends late, in
  any interleaving, leaves its successor's entry alone.
\<close>

theorem online_entry_changes:
  assumes r: "relay_reach D s" and b: "entered s \<le> 2 ^ 64" and st: "relay_step D s s'"
    and ch: "online s' h \<noteq> online s h"
  shows "(\<exists>i l. loops s i = Some l \<and> hl_stage l = HInsert \<and> hl_host l = h
        \<and> online s' h = Some \<lparr> oh_instance = word_of_nat i, oh_loop = i \<rparr>)
    \<or> (\<exists>e l. online s h = Some e \<and> loops s (oh_loop e) = Some l \<and> hl_stage l = HLeave \<and> online s' h = None)"
proof -
  have inj: "\<And>i j l l'. loops s i = Some l \<Longrightarrow> loops s j = Some l' \<Longrightarrow>
      (word_of_nat i :: u64) = word_of_nat j \<longleftrightarrow> i = j"
    using counted [OF r] b by (intro instance_inj) (fastforce simp: loops_counted_def)+
  from st ch have "host_step D s s'"
    unfolding relay_step_iff using host_writer_step_frame [of s s'] online_step_frame [of s s']
      client_writer_step_frame [of s s'] by auto
  then show ?thesis
  proof cases
    case (host_insert i l st)
    with ch have "hl_host l = h" by (auto simp: set_loop_def online_insert_def split: if_splits)
    with host_insert show ?thesis by (auto simp: set_loop_def online_insert_def)
  next
    case (host_leave i l)
    with ch have h: "hl_host l = h" "online s' h = None"
      and "\<exists>e. online s h = Some e \<and> oh_instance e = word_of_nat i"
      by (auto simp: set_loop_def online_remove_def Let_def split: option.splits if_splits)
    then obtain e where e: "online s h = Some e" "oh_instance e = word_of_nat i" by blast
    with slot_entries [OF r] inj [OF host_leave(2)] have "oh_loop e = i"
      by (fastforce simp: slot_entry_def)
    with e h host_leave show ?thesis by auto
  qed (use ch in \<open>auto simp: set_loop_def set_phone_def\<close>)
qed

lemma online_entry_changes_witness:
  "\<exists>s s' i l. host_step toy_deps s s' \<and> online s' ''h'' \<noteq> online s ''h'' \<and> loops s i = Some l
    \<and> hl_stage l = HLeave \<and> online s' ''h'' = None"
proof -
  let ?l = "demo_session\<lparr>hl_stage := HLeave\<rparr>" and ?s = "demo_state (demo_session\<lparr>hl_stage := HLeave\<rparr>) [demo_cid \<mapsto> demo_phone]"
  let ?s' = "set_loop 0 (demo_session\<lparr>hl_stage := HJoin\<rparr>) (?s\<lparr>online := Map.empty\<rparr>)"
  have "online ?s' ''h'' \<noteq> online ?s ''h''" by (simp add: set_loop_def)
  with online_entry_changes [OF demo_leaving _ rs_host [OF demo_leave] this] demo_leave show ?thesis
    by (intro exI [of _ ?s] exI [of _ ?s'] exI [of _ 0] exI [of _ ?l]) (auto simp: set_loop_def)
qed

end
