(* ===== verification/Relay_Delivery.thy ===== *)
theory Relay_Delivery
  imports Relay_System
begin

text \<open>
  What the interleaved tasks of theory Relay_System deliver: every message a phone's writer takes came
  from its own host's PC and was addressed to it, the must-deliver ones in order and without loss, the
  droppable ones in order; and every frame the PC receives for a phone is what that phone's session
  sent, in order, framed by one open and one close.
\<close>

section \<open>From the PC to its phones\<close>

text \<open>The messages for one phone among what a PC sent, and those that may not be dropped.\<close>

definition addressed_one :: "string \<Rightarrow> bytes \<Rightarrow> PhoneOut list" where
  "addressed_one cid b = (case relay_decode b of
     Some (Data c txt p) \<Rightarrow> if c = cid then [\<lparr> po_bytes = p, po_text = txt \<rparr>] else [] | _ \<Rightarrow> [])"

definition addressed :: "string \<Rightarrow> bytes list \<Rightarrow> PhoneOut list" where
  "addressed cid bs = concat (map (addressed_one cid) bs)"

definition po_must :: "PhoneOut \<Rightarrow> bool" where
  "po_must out = must_deliver (po_text out) (po_bytes out)"

definition in_flight :: "string \<Rightarrow> client_loop \<Rightarrow> host_loop \<Rightarrow> PhoneOut list" where
  "in_flight cid p l = (case hl_stage l of HSend c out \<Rightarrow> if c = cid \<and> pl_rx p then [out] else [] | _ \<Rightarrow> [])"

definition sent_since :: "string \<Rightarrow> client_loop \<Rightarrow> host_loop \<Rightarrow> PhoneOut list" where
  "sent_since cid p l = addressed cid (drop (pl_from p) (hl_in l))"

definition bulk_ok :: "string \<Rightarrow> client_loop \<Rightarrow> host_loop \<Rightarrow> bool" where
  "bulk_ok cid p l \<longleftrightarrow> list_all po_must (pl_bulk p @ in_flight cid p l)
     \<and> prefix (filter po_must (pl_out p) @ pl_bulk p @ in_flight cid p l) (filter po_must (sent_since cid p l))
     \<and> (cid \<in> hl_clients l \<longrightarrow> pl_rx p \<longrightarrow>
         filter po_must (pl_out p) @ pl_bulk p @ in_flight cid p l = filter po_must (sent_since cid p l))"

definition fast_ok :: "string \<Rightarrow> client_loop \<Rightarrow> host_loop \<Rightarrow> bool" where
  "fast_ok cid p l \<longleftrightarrow> list_all (\<lambda>out. \<not> po_must out) (pl_fast p)
     \<and> subseq (filter (\<lambda>out. \<not> po_must out) (pl_out p) @ pl_fast p)
         (filter (\<lambda>out. \<not> po_must out) (sent_since cid p l))"

definition untouched :: "client_loop \<Rightarrow> bool" where
  "untouched p \<longleftrightarrow> (pl_stage p = PInsert \<longrightarrow> pl_out p = [] \<and> pl_bulk p = [] \<and> pl_fast p = [])"

definition delivery_ok :: "string \<Rightarrow> client_loop \<Rightarrow> host_loop \<Rightarrow> bool" where
  "delivery_ok cid p l \<longleftrightarrow> pl_from p \<le> length (hl_in l) \<and> bulk_ok cid p l \<and> fast_ok cid p l \<and> untouched p"

definition all_delivered :: "relay \<Rightarrow> bool" where
  "all_delivered s \<longleftrightarrow> (\<forall>cid p l. phones s cid = Some p \<longrightarrow> loops s (pl_loop p) = Some l \<longrightarrow> delivery_ok cid p l)"

lemma addressed_append [simp]: "addressed cid (xs @ ys) = addressed cid xs @ addressed cid ys"
  by (simp add: addressed_def)

lemma addressed_Nil [simp]: "addressed cid [] = []"
  by (simp add: addressed_def)

lemma addressed_single: "addressed cid [b] = addressed_one cid b"
  by (simp add: addressed_def)

lemma sent_since_grow: "pl_from p \<le> length (hl_in l) \<Longrightarrow>
    addressed cid (drop (pl_from p) (hl_in l @ bs)) = sent_since cid p l @ addressed cid bs"
  by (simp add: sent_since_def)

lemma skipped_not_addressed:
  "host_reader_item clients (WsMsg (WsBinary b)) = Some [] \<Longrightarrow> cid \<in> clients \<Longrightarrow> addressed_one cid b = []"
  by (auto simp: host_reader_item_def route_frame_def addressed_one_def Let_def
      split: option.splits TunnelFrame.splits if_splits)

lemma bulk_addressed:
  assumes "host_reader_item clients (WsMsg (WsBinary b)) = Some [BulkSend c out]"
  shows "addressed_one cid b = (if c = cid then [out] else []) \<and> po_must out"
  using bulk_read [OF assms] by (auto simp: addressed_one_def po_must_def)

lemma fast_addressed:
  assumes "host_reader_item clients (WsMsg (WsBinary b)) = Some [FastTrySend c out]"
  shows "addressed_one cid b = (if c = cid then [out] else []) \<and> \<not> po_must out"
  using fast_read [OF assms] by (auto simp: addressed_one_def po_must_def)

subsection \<open>One phone and its host loop\<close>

lemma delivery_same:
  assumes "delivery_ok cid p l" "hl_in l' = hl_in l" "hl_stage l' = hl_stage l"
    and "cid \<in> hl_clients l' \<Longrightarrow> cid \<in> hl_clients l" "pl_from p' = pl_from p" "pl_out p' = pl_out p"
    and "pl_bulk p' = pl_bulk p" "pl_fast p' = pl_fast p" "pl_rx p' = pl_rx p"
    and "pl_stage p' = PInsert \<Longrightarrow> pl_stage p = PInsert"
  shows "delivery_ok cid p' l'"
proof -
  have "in_flight cid p' l' = in_flight cid p l"
    using assms by (auto simp: in_flight_def split: host_stage.split)
  with assms show ?thesis by (simp add: delivery_ok_def bulk_ok_def fast_ok_def untouched_def sent_since_def)
qed

lemma delivery_stage:
  assumes "delivery_ok cid p l" "\<And>c out. hl_stage l \<noteq> HSend c out" "\<And>c out. hl_stage l' \<noteq> HSend c out"
    and "hl_in l' = hl_in l" "hl_clients l' \<subseteq> hl_clients l"
  shows "delivery_ok cid p l'"
proof -
  have "in_flight cid p l' = in_flight cid p l"
    using assms by (auto simp: in_flight_def split: host_stage.split)
  with assms show ?thesis by (auto simp: delivery_ok_def bulk_ok_def fast_ok_def untouched_def sent_since_def)
qed

lemma in_flight_reading [simp]: "hl_stage l = HRead \<Longrightarrow> in_flight cid p l = []"
  by (simp add: in_flight_def)

lemma delivery_grow:
  assumes "delivery_ok cid p l" "hl_in l' = hl_in l @ bs" "hl_clients l' = hl_clients l"
    and "in_flight cid p l' = in_flight cid p l" "cid \<in> hl_clients l \<Longrightarrow> addressed cid bs = []"
  shows "delivery_ok cid p l'"
  using assms
  by (auto simp: delivery_ok_def bulk_ok_def fast_ok_def untouched_def sent_since_def intro: prefix_prefix list_emb_prefix)

lemma delivery_bulk_read:
  assumes d: "delivery_ok cid p l" and r: "hl_stage l = HRead"
    and b: "host_reader_item (hl_clients l) (WsMsg (WsBinary b)) = Some [BulkSend c out]"
  shows "delivery_ok cid p (l\<lparr>hl_stage := HSend c out, hl_in := hl_in l @ [b]\<rparr>)"
  using d r bulk_addressed [OF b, of cid] bulk_read [OF b]
  by (auto simp: delivery_ok_def bulk_ok_def fast_ok_def untouched_def sent_since_def addressed_single
      in_flight_def intro: prefix_prefix list_emb_prefix)

lemma delivery_fast_read:
  assumes d: "delivery_ok cid p l" and r: "hl_stage l = HRead"
    and b: "host_reader_item (hl_clients l) (WsMsg (WsBinary b)) = Some [FastTrySend c out]"
    and n: "c = cid \<Longrightarrow> pl_stage p \<noteq> PInsert"
  shows "delivery_ok cid (if c = cid then try_fast out p else p) (l\<lparr>hl_in := hl_in l @ [b]\<rparr>)"
  using d r fast_addressed [OF b, of cid] fast_read [OF b] n
    list_emb_append_mono [of "(=)" "filter (\<lambda>out. \<not> po_must out) (pl_out p) @ pl_fast p"
      "filter (\<lambda>out. \<not> po_must out) (sent_since cid p l)" "[out]" "[out]"]
  by (auto simp: delivery_ok_def bulk_ok_def fast_ok_def untouched_def sent_since_def addressed_single
      in_flight_def try_fast_def intro: prefix_prefix list_emb_prefix)

lemma delivery_sent:
  assumes "delivery_ok cid p l" "hl_stage l = HSend c out" "c = cid \<Longrightarrow> pl_rx p" "c = cid \<Longrightarrow> pl_stage p \<noteq> PInsert"
  shows "delivery_ok cid (if c = cid then p\<lparr>pl_bulk := pl_bulk p @ [out]\<rparr> else p) (l\<lparr>hl_stage := HRead\<rparr>)"
  using assms
  by (auto simp: delivery_ok_def bulk_ok_def fast_ok_def untouched_def sent_since_def in_flight_def)

lemma delivery_unsent:
  assumes "delivery_ok cid p l" "hl_stage l = HSend c out" "c = cid \<Longrightarrow> \<not> pl_rx p"
  shows "delivery_ok cid p (l\<lparr>hl_stage := HRead\<rparr>)"
  using assms
  by (cases "c = cid") (auto simp: delivery_ok_def bulk_ok_def fast_ok_def untouched_def sent_since_def in_flight_def)

lemma subseq_appendD: "subseq (xs @ ys) zs \<Longrightarrow> subseq xs zs"
  by (rule subseq_order.order_trans [of xs "xs @ ys"]) (simp_all add: list_emb_prefix)

lemma delivery_clear:
  assumes "delivery_ok cid p l"
  shows "delivery_ok cid (clear_queues p) l"
  using assms
  by (auto simp: delivery_ok_def bulk_ok_def fast_ok_def untouched_def sent_since_def in_flight_def clear_queues_def
      dest: append_prefixD subseq_appendD split: host_stage.split)

lemma delivery_pop:
  assumes d: "delivery_ok cid p l" and c: "client_choice cid p l = SendOut out" and "pl_stage p \<noteq> PInsert"
  shows "delivery_ok cid ((pop_out p)\<lparr>pl_out := pl_out p @ [out]\<rparr>) l"
proof (cases "pl_fast p")
  case Nil
  with c obtain q where "pl_bulk p = out # q"
    by (auto simp: client_choice_def writer_select_def recv_of_def split: recv_state.splits list.splits if_splits)
  with Nil d show ?thesis
    by (auto simp: delivery_ok_def bulk_ok_def fast_ok_def untouched_def sent_since_def in_flight_def pop_out_def
        split: host_stage.splits)
next
  case (Cons x q)
  with c have "x = out"
    by (auto simp: client_choice_def writer_select_def recv_of_def split: recv_state.splits list.splits if_splits)
  with Cons d show ?thesis
    by (auto simp: delivery_ok_def bulk_ok_def fast_ok_def untouched_def sent_since_def in_flight_def pop_out_def
        split: host_stage.splits)
qed

subsection \<open>The whole relay\<close>

lemma all_deliveredI:
  assumes "all_delivered s"
    and "\<And>cid p' l'. phones s' cid = Some p' \<Longrightarrow> loops s' (pl_loop p') = Some l' \<Longrightarrow>
      (\<exists>p l. phones s cid = Some p \<and> loops s (pl_loop p) = Some l
        \<and> (delivery_ok cid p l \<longrightarrow> delivery_ok cid p' l')) \<or> delivery_ok cid p' l'"
  shows "all_delivered s'"
  using assms unfolding all_delivered_def by blast

lemma loop_delivered:
  assumes "all_delivered s" "loops s i = Some l"
    and "\<And>cid p. phones s cid = Some p \<Longrightarrow> pl_loop p = i \<Longrightarrow> delivery_ok cid p l \<Longrightarrow> delivery_ok cid p l'"
    and "phones s0 = phones s" "loops s0 = loops s"
  shows "all_delivered (set_loop i l' s0)"
  using assms by (auto simp: all_delivered_def set_loop_def split: if_splits)

lemma both_delivered:
  assumes "all_delivered s" "loops s i = Some l" "phones s c = Some q" "pl_loop q = i"
    and "pl_loop q' = pl_loop q"
    and "delivery_ok c q l \<Longrightarrow> delivery_ok c q' l'"
    and "\<And>cid p. cid \<noteq> c \<Longrightarrow> phones s cid = Some p \<Longrightarrow> pl_loop p = i \<Longrightarrow> delivery_ok cid p l \<Longrightarrow> delivery_ok cid p l'"
  shows "all_delivered (set_phone c q' (set_loop i l' s))"
  using assms by (auto simp: all_delivered_def set_loop_def set_phone_def split: if_splits)

lemma phone_delivered:
  assumes "all_delivered s" "phones s c = Some q" "pl_loop q' = pl_loop q"
    and "\<And>l. loops s (pl_loop q) = Some l \<Longrightarrow> delivery_ok c q l \<Longrightarrow> delivery_ok c q' l"
  shows "all_delivered (set_phone c q' s)"
  using assms by (auto simp: all_delivered_def set_phone_def split: if_splits)

lemma all_host_delivered:
  assumes r: "relay_reach D s" and d: "all_delivered s" and st: "host_step D s s'"
  shows "all_delivered s'"
  using st
proof cases
  case (host_enter h tok)
  have "\<And>cid p. phones s cid = Some p \<Longrightarrow> pl_loop p \<noteq> entered s"
    using all_attached [OF r] entered_fresh [OF r] by (fastforce simp: phones_attached_def)
  with d host_enter show ?thesis by (fastforce simp: all_delivered_def set_loop_def)
next
  case (host_notify i l j old)
  have "all_delivered (set_loop j (old\<lparr>hl_cancel := True\<rparr>) s)"
    by (rule loop_delivered [OF d host_notify(4)]) (auto intro: delivery_same)
  then show ?thesis
    unfolding host_notify(1)
    by (rule loop_delivered [where l = l])
      (use host_notify in \<open>auto simp: set_loop_def elim!: delivery_stage\<close>)
next
  case (host_clear i l j old)
  have "all_delivered (set_loop j (old\<lparr>hl_clients := {}\<rparr>) s)"
    by (rule loop_delivered [OF d host_clear(4)]) (auto intro: delivery_same)
  then show ?thesis
    unfolding host_clear(1)
    by (rule loop_delivered [where l = l])
      (use host_clear in \<open>auto simp: set_loop_def elim!: delivery_stage\<close>)
next
  case (host_skip i l item msg)
  show ?thesis
    unfolding host_skip(1)
  proof (rule loop_delivered [OF d host_skip(2)])
    fix cid p assume "delivery_ok cid p l"
    then show "delivery_ok cid p (l\<lparr>hl_in := hl_in l @ (case msg of WsBinary b \<Rightarrow> [b] | _ \<Rightarrow> [])\<rparr>)"
      by (rule delivery_grow) (use host_skip skipped_not_addressed [of "hl_clients l" _ cid] in
        \<open>auto simp: in_flight_def addressed_single split: ws_message.split\<close>)
  qed simp_all
next
  case (host_bulk i l b cid out)
  show ?thesis
    unfolding host_bulk(1)
    by (rule loop_delivered [OF d host_bulk(2)]) (use host_bulk delivery_bulk_read in auto)
next
  case (host_fast i l b cid out p)
  from fast_read [OF host_fast(4)] clients_knownD [OF all_known [OF r] host_fast(2), of cid] host_fast(5)
  have p: "pl_loop p = i" "pl_stage p \<noteq> PInsert" by auto
  have "pl_loop (try_fast out p) = pl_loop p" by (simp add: try_fast_def)
  then show ?thesis
    unfolding host_fast(1)
    using delivery_fast_read [OF _ host_fast(3,4), of cid p] delivery_fast_read [OF _ host_fast(3,4)] p
    by (intro both_delivered [OF d host_fast(2,5) p(1)]) fastforce+
next
  case (host_sent i l cid out p)
  from send_knownD [OF all_send_known [OF r] host_sent(2,3)] host_sent(4)
  have p: "pl_loop p = i" "pl_stage p \<noteq> PInsert" by auto
  show ?thesis
    unfolding host_sent(1)
    using delivery_sent [OF _ host_sent(3), of cid p] delivery_sent [OF _ host_sent(3)] p host_sent(5)
    by (intro both_delivered [OF d host_sent(2,4) p(1)]) fastforce+
next
  case (host_unsent i l cid out p)
  show ?thesis
    unfolding host_unsent(1)
  proof (rule loop_delivered [OF d host_unsent(2)])
    fix cid' p' assume "phones s cid' = Some p'" "delivery_ok cid' p' l"
    then show "delivery_ok cid' p' (l\<lparr>hl_stage := HRead\<rparr>)"
      using host_unsent(4,5) by (intro delivery_unsent [OF _ host_unsent(3)]) auto
  qed simp_all
qed (simp_all only:, (rule loop_delivered [OF d], assumption, erule delivery_stage,
    (simp; simp split: option.split)+)+)

lemma delivery_start: "cid \<notin> hl_clients l \<Longrightarrow> (\<And>out. hl_stage l \<noteq> HSend cid out) \<Longrightarrow>
    delivery_ok cid (new_client_loop h i) l"
  by (auto simp: delivery_ok_def bulk_ok_def fast_ok_def untouched_def in_flight_def new_client_loop_def
      split: host_stage.split)

lemma all_client_delivered:
  assumes r: "relay_reach D s" and d: "all_delivered s" and st: "client_step s s'"
  shows "all_delivered s'"
  using st
proof cases
  case (client_enter h e cid)
  obtain l where l: "loops s (oh_loop e) = Some l"
    using slot_entries [OF r] client_enter(2) by (auto simp: slot_entry_def)
  have "cid \<notin> hl_clients l" and "\<And>out. hl_stage l \<noteq> HSend cid out"
    using clients_knownD [OF all_known [OF r] l, of cid] send_knownD [OF all_send_known [OF r] l, of cid]
      client_enter(4) by auto
  then have "delivery_ok cid (new_client_loop h (oh_loop e)) l"
    by (rule delivery_start)
  with d l client_enter(1) show ?thesis
    by (auto simp: all_delivered_def set_phone_def new_client_loop_def split: if_splits)
next
  case (client_insert cid p l)
  show ?thesis
    unfolding client_insert(1)
  proof (rule both_delivered [OF d client_insert(4,2) refl])
    assume "delivery_ok cid p l"
    with client_insert(3) have o: "pl_out p = []" "pl_bulk p = []" "pl_fast p = []"
      by (simp_all add: delivery_ok_def untouched_def)
    have "in_flight cid (p\<lparr>pl_stage := POpen, pl_from := length (hl_in l)\<rparr>)
        (l\<lparr>hl_clients := insert cid (hl_clients l)\<rparr>) = []"
      using send_knownD [OF all_send_known [OF r] client_insert(4), of cid] client_insert(2,3)
      by (auto simp: in_flight_def split: host_stage.split)
    then show "delivery_ok cid (p\<lparr>pl_stage := POpen, pl_from := length (hl_in l)\<rparr>)
        (l\<lparr>hl_clients := insert cid (hl_clients l)\<rparr>)"
      using o by (auto simp: delivery_ok_def bulk_ok_def fast_ok_def untouched_def sent_since_def)
  qed (auto elim!: delivery_same)
next
  case (client_open cid p l l')
  then show ?thesis
    by (auto simp: queue_frame_def split: if_splits
        intro!: both_delivered [OF d client_open(4,2) refl] elim!: delivery_same)
next
  case (client_abort cid p l)
  show ?thesis
    unfolding client_abort(1)
  proof (rule both_delivered [OF d client_abort(4,2) refl])
    assume "delivery_ok cid p l"
    from delivery_clear [OF this] show "delivery_ok cid (clear_queues p\<lparr>pl_stage := PDone\<rparr>)
        (l\<lparr>hl_clients := hl_clients l - {cid}\<rparr>)"
      by (rule delivery_same) (simp_all add: clear_queues_def)
  qed (auto elim!: delivery_same simp: clear_queues_def)
next
  case (client_sent cid p f l l')
  then show ?thesis
    by (auto simp: queue_frame_def split: if_splits
        intro!: both_delivered [OF d client_sent(4,2) refl] elim!: delivery_same)
next
  case (client_close cid p l l')
  then show ?thesis
    by (auto simp: queue_frame_def split: if_splits
        intro!: both_delivered [OF d client_close(4,2) refl] elim!: delivery_same)
next
  case (client_remove cid p l)
  then show ?thesis
    by (auto intro!: both_delivered [OF d client_remove(4,2) refl] elim!: delivery_same)
next
  case (client_skip cid p m)
  with d show ?thesis by simp
qed (simp_all only:, (rule phone_delivered [OF d], assumption, simp, erule delivery_same, auto)+)

lemma all_writer_delivered:
  assumes d: "all_delivered s" and st: "client_writer_step s s'"
  shows "all_delivered s'"
  using st
proof cases
  case (cw_pong cid p l b sent)
  show ?thesis
    unfolding cw_pong(1)
  proof (rule phone_delivered [OF d cw_pong(2)])
    fix l' assume d: "delivery_ok cid p l'"
    then have "delivery_ok cid (p\<lparr>pl_pong := tl (pl_pong p), pl_wire := pl_wire p @ [WsPong b]\<rparr>) l'"
      by (rule delivery_same) (simp_all)
    with delivery_clear [OF d] show "delivery_ok cid (if sent
        then p\<lparr>pl_pong := tl (pl_pong p), pl_wire := pl_wire p @ [WsPong b]\<rparr> else clear_queues p) l'"
      by simp
  qed (simp add: clear_queues_def)
next
  case (cw_out cid p l out sent)
  then have "pl_stage p \<noteq> PInsert" by (auto simp: client_writer_on_def)
  note pop = delivery_pop [OF _ cw_out(6) this]
  show ?thesis
    unfolding cw_out(1)
  proof (rule phone_delivered [OF d cw_out(2)])
    show "pl_loop (after_send out sent p) = pl_loop p"
      by (simp add: system_defs split: prod.split)
    fix l' assume "loops s (pl_loop p) = Some l'" and "delivery_ok cid p l'"
    with cw_out(5) have "delivery_ok cid p l" "l' = l" by simp_all
    from pop [OF this(1)] have "delivery_ok cid ((pop_out p)\<lparr>pl_out := pl_out p @ [out], pl_wire := w\<rparr>) l" for w
      by (rule delivery_same) simp_all
    with \<open>l' = l\<close> show "delivery_ok cid (after_send out sent p) l'"
      by (auto simp: after_send_def Let_def delivery_clear split: prod.split)
  qed
next
  case (cw_break cid p l)
  show ?thesis
    unfolding cw_break(1)
    by (rule phone_delivered [OF d cw_break(2)]) (auto simp: clear_queues_def [of p] dest: delivery_clear)
qed

lemma reach_delivered: "relay_reach D s \<Longrightarrow> all_delivered s"
proof (induction rule: relay_induct)
  case (host_writer s s')
  note d = host_writer(3)
  from host_writer(2) show ?case
    by cases (simp_all only:, (rule loop_delivered [OF d], assumption, erule delivery_same,
      auto)+)
next
  case (host s s')
  then show ?case by (blast intro: all_host_delivered)
next
  case (client s s')
  then show ?case by (blast intro: all_client_delivered)
next
  case (client_writer s s')
  then show ?case by (blast intro: all_writer_delivered)
qed (simp_all add: all_delivered_def relay_start_def)

section \<open>From the phones to the PC\<close>

definition own :: "string \<Rightarrow> TunnelFrame list \<Rightarrow> TunnelFrame list" where
  "own cid fs = filter (\<lambda>f. frame_client f = cid) fs"

text \<open>The frames a phone's messages become, and those its session has to send by its stage.\<close>

definition said :: "string \<Rightarrow> ws_message list \<Rightarrow> TunnelFrame list" where
  "said cid ms = concat (map (\<lambda>m. case client_reader_item cid (WsMsg m) of
     Some (Some (ToHost f)) \<Rightarrow> [f] | _ \<Rightarrow> []) ms)"

definition script :: "string \<Rightarrow> client_loop \<Rightarrow> TunnelFrame list" where
  "script cid p = (case pl_stage p of
       PInsert \<Rightarrow> [] | POpen \<Rightarrow> [] | PAbort \<Rightarrow> []
     | PRead \<Rightarrow> ClientOpen cid # said cid (pl_in p)
     | PSend f \<Rightarrow> ClientOpen cid # said cid (pl_in p)
     | PClose \<Rightarrow> ClientOpen cid # said cid (pl_in p)
     | _ \<Rightarrow> ClientOpen cid # said cid (pl_in p) @ [ClientClose cid])"

definition pending :: "client_loop \<Rightarrow> TunnelFrame list" where
  "pending p = (case pl_stage p of PSend f \<Rightarrow> [f] | _ \<Rightarrow> [])"

definition uplink_ok :: "string \<Rightarrow> client_loop \<Rightarrow> host_loop \<Rightarrow> bool" where
  "uplink_ok cid p l \<longleftrightarrow> prefix (own cid (hl_acc l)) (script cid p)
     \<and> (hl_rx l \<longrightarrow> own cid (hl_acc l) @ pending p = script cid p \<and> pl_stage p \<noteq> PAbort)
     \<and> (pl_stage p \<in> {PInsert, POpen} \<longrightarrow> pl_in p = [])"

definition all_uplinks :: "relay \<Rightarrow> bool" where
  "all_uplinks s \<longleftrightarrow> (\<forall>cid p l. phones s cid = Some p \<longrightarrow> loops s (pl_loop p) = Some l \<longrightarrow> uplink_ok cid p l)"

definition sends_own :: "relay \<Rightarrow> bool" where
  "sends_own s \<longleftrightarrow> (\<forall>cid p f. phones s cid = Some p \<longrightarrow> pl_stage p = PSend f \<longrightarrow> frame_client f = cid)"

definition acc_known :: "relay \<Rightarrow> bool" where
  "acc_known s \<longleftrightarrow> (\<forall>i l f. loops s i = Some l \<longrightarrow> f \<in> set (hl_acc l) \<longrightarrow>
     (\<exists>p. phones s (frame_client f) = Some p \<and> pl_loop p = i))"

text \<open>The frames the writer put on the host's socket, and those still queued.\<close>

definition to_wire :: "TunnelFrame \<Rightarrow> ws_message" where
  "to_wire f = WsBinary (relay_encode f)"

definition channel_ok :: "host_loop \<Rightarrow> bool" where
  "channel_ok l \<longleftrightarrow> prefix (hl_wire l) (map to_wire (hl_acc l))
     \<and> (hl_rx l \<longrightarrow> hl_wire l @ map to_wire (hl_queue l) = map to_wire (hl_acc l))
     \<and> length (hl_queue l) \<le> TO_HOST_QUEUE_CAP"

definition all_channels :: "relay \<Rightarrow> bool" where
  "all_channels s \<longleftrightarrow> (\<forall>i l. loops s i = Some l \<longrightarrow> channel_ok l)"

lemma own_simps [simp]: "own cid [] = []" "own cid (fs @ gs) = own cid fs @ own cid gs"
    "own cid [f] = (if frame_client f = cid then [f] else [])"
  by (simp_all add: own_def)

lemma said_append [simp]: "said cid (ms @ ns) = said cid ms @ said cid ns"
  by (simp add: said_def)

lemma said_one: "client_reader_item cid (WsMsg m) = Some (Some (ToHost f)) \<Longrightarrow> said cid [m] = [f] \<and> frame_client f = cid"
  by (auto simp: said_def client_reader_item_def split: ws_message.splits)

lemma channel_queue: "channel_ok l \<Longrightarrow> hl_rx l \<Longrightarrow> queue_frame f l = Some l' \<Longrightarrow> channel_ok l'"
  by (auto simp: channel_ok_def queue_frame_def split: if_splits)

lemma channel_same: "channel_ok l \<Longrightarrow> hl_wire l' = hl_wire l \<Longrightarrow> hl_acc l' = hl_acc l \<Longrightarrow> hl_queue l' = hl_queue l \<Longrightarrow>
    hl_rx l' = hl_rx l \<Longrightarrow> channel_ok l'"
  by (simp add: channel_ok_def)

lemma channel_written: "channel_ok l \<Longrightarrow> hl_rx l \<Longrightarrow> hl_queue l = f # q \<Longrightarrow>
    channel_ok (l\<lparr>hl_queue := q, hl_wire := hl_wire l @ [WsBinary (relay_encode f)]\<rparr>)"
  by (auto simp: channel_ok_def to_wire_def intro: prefixI [of _ _ "map to_wire q"])

lemma channel_closed: "channel_ok l \<Longrightarrow> hl_queue l' = [] \<Longrightarrow> \<not> hl_rx l' \<Longrightarrow> hl_wire l' = hl_wire l \<Longrightarrow>
    hl_acc l' = hl_acc l \<Longrightarrow> channel_ok l'"
  by (simp add: channel_ok_def)

lemma reach_channels: "relay_reach D s \<Longrightarrow> all_channels s"
proof (induction rule: relay_induct)
  case (host s s')
  note c = host(3) [unfolded all_channels_def, rule_format]
  from host(2) show ?case
    by cases (auto simp: all_channels_def set_loop_def set_phone_def new_host_loop_def channel_ok_def [of "new_host_loop _ _"]
      split: if_splits dest: c elim!: channel_same; simp add: channel_ok_def)+
next
  case (host_writer s s')
  note c = host_writer(3) [unfolded all_channels_def, rule_format]
  from host_writer(2) show ?case
    by cases (auto simp: all_channels_def set_loop_def split: if_splits
      dest: c elim!: channel_closed channel_written)
next
  case (client s s')
  note c = client(3) [unfolded all_channels_def, rule_format]
  from client(2) show ?case
    by cases (auto simp: all_channels_def set_loop_def set_phone_def split: if_splits
      intro: c channel_queue [OF c] channel_same [OF c])
next
  case (client_writer s s')
  with client_writer_step_frame [OF client_writer(2)] show ?case by (simp add: all_channels_def)
qed (simp_all add: all_channels_def relay_start_def)

lemma reach_sends_own: "relay_reach D s \<Longrightarrow> sends_own s"
proof (induction rule: relay_induct)
  case (host s s')
  from host(2,3) show ?case
    by cases (auto simp: sends_own_def set_loop_def set_phone_def try_fast_def split: if_splits)
next
  case (host_writer s s')
  from host_writer_step_frame [OF host_writer(2)] host_writer(3) show ?case
    by (simp add: sends_own_def)
next
  case (client s s')
  from client(2,3) show ?case
    by cases (auto simp: sends_own_def set_loop_def set_phone_def new_client_loop_def dest: said_one split: if_splits)
next
  case (client_writer s s')
  from client_writer(2,3) show ?case
    by cases (auto simp: sends_own_def system_defs split: if_splits prod.splits)
qed (simp_all add: sends_own_def relay_start_def)

lemma reach_acc_known: "relay_reach D s \<Longrightarrow> acc_known s"
proof (induction rule: relay_induct)
  case (host s s')
  from host(2) host(3) host_step_phones [OF host(2)] show ?case
    by cases (fastforce simp: acc_known_def set_loop_def set_phone_def new_host_loop_def try_fast_def split: if_splits)+
next
  case (host_writer s s')
  from host_writer_step_frame [OF host_writer(2)] host_writer(3) show ?case
    unfolding acc_known_def by metis
next
  case (client s s')
  have pend: "\<And>cid p f. phones s cid = Some p \<Longrightarrow> pl_stage p = PSend f \<Longrightarrow> frame_client f = cid"
    using reach_sends_own [OF client(1)] by (simp add: sends_own_def)
  from client(2,3) pend show ?case
    by cases (fastforce simp: acc_known_def set_loop_def set_phone_def new_client_loop_def queue_frame_def
      clear_queues_def split: if_splits)+
next
  case (client_writer s s')
  from client_writer_step_frame [OF client_writer(2)] client_writer(3) show ?case
    unfolding acc_known_def by metis
qed (simp_all add: acc_known_def relay_start_def)

lemma prefix_more: "prefix xs (y # ys) \<Longrightarrow> prefix xs (y # ys @ zs)"
  using prefix_prefix [of xs "y # ys" zs] by simp

lemma uplink_same:
  assumes "uplink_ok cid p l" "hl_acc l' = hl_acc l" "hl_rx l' \<Longrightarrow> hl_rx l" "pl_stage p' = pl_stage p" "pl_in p' = pl_in p"
  shows "uplink_ok cid p' l'"
proof -
  have "script cid p' = script cid p"
    using assms by (simp add: script_def cong: client_stage.case_cong)
  with assms show ?thesis by (auto simp: uplink_ok_def pending_def)
qed

lemma uplink_accepted:
  assumes "uplink_ok cid p l" "hl_rx l" "queue_frame f l = Some l'" "frame_client f = cid" "pl_in p' = pl_in p"
    and "(pl_stage p = POpen \<and> f = ClientOpen cid \<and> pl_stage p' = PRead)
      \<or> (pl_stage p = PSend f \<and> pl_stage p' = PRead) \<or> (pl_stage p = PClose \<and> f = ClientClose cid \<and> pl_stage p' = PRemove)"
  shows "uplink_ok cid p' l'"
  using assms by (auto simp: uplink_ok_def script_def pending_def queue_frame_def said_def split: if_splits)

lemma uplink_other:
  assumes "uplink_ok cid p l" "queue_frame f l = Some l'" "frame_client f \<noteq> cid"
  shows "uplink_ok cid p l'"
  using assms by (auto simp: uplink_ok_def queue_frame_def split: if_splits)

lemma all_uplinks_loop:
  assumes "all_uplinks s" "loops s i = Some l" "hl_acc l' = hl_acc l" "hl_rx l' \<Longrightarrow> hl_rx l"
    and "phones s0 = phones s" "loops s0 = loops s"
  shows "all_uplinks (set_loop i l' s0)"
  using assms by (auto simp: all_uplinks_def set_loop_def split: if_splits intro: uplink_same)

lemma all_uplinks_phone:
  assumes "all_uplinks s" "phones s c = Some q" "pl_loop q' = pl_loop q"
    and "\<And>l. loops s (pl_loop q) = Some l \<Longrightarrow> uplink_ok c q l \<Longrightarrow> uplink_ok c q' l"
  shows "all_uplinks (set_phone c q' s)"
  using assms by (auto simp: all_uplinks_def set_phone_def split: if_splits)

lemma all_uplinks_send:
  assumes u: "all_uplinks s" and c: "phones s c = Some q" "pl_loop q' = pl_loop q"
    and l: "loops s (pl_loop q) = Some l" and f: "queue_frame f l = Some l'" "frame_client f = c"
    and ok: "uplink_ok c q' l'"
  shows "all_uplinks (set_phone c q' (set_loop (pl_loop q) l' s))"
  using u c l f(2) ok uplink_other [OF _ f(1)]
  by (auto simp: all_uplinks_def set_phone_def set_loop_def split: if_splits)

lemma after_send_frame [simp]: "pl_stage (after_send out sent p) = pl_stage p" "pl_loop (after_send out sent p) = pl_loop p"
    "pl_in (after_send out sent p) = pl_in p"
  by (simp_all add: system_defs split: prod.split)

lemma clear_queues_frame [simp]: "pl_stage (clear_queues p) = pl_stage p" "pl_loop (clear_queues p) = pl_loop p"
    "pl_in (clear_queues p) = pl_in p" "pl_out (clear_queues p) = pl_out p"
  by (simp_all add: clear_queues_def)

lemma reach_uplinks: "relay_reach D s \<Longrightarrow> all_uplinks s"
proof (induction rule: relay_induct)
  case (host s s')
  note u = host(3)
  from host(2) show ?case
  proof cases
    case (host_enter h tok)
    have "\<And>cid p. phones s cid = Some p \<Longrightarrow> pl_loop p \<noteq> entered s"
      using all_attached [OF host(1)] entered_fresh [OF host(1)] by (fastforce simp: phones_attached_def)
    with u host_enter show ?thesis by (fastforce simp: all_uplinks_def set_loop_def)
  next
    case (host_notify i l j old)
    have "all_uplinks (set_loop j (old\<lparr>hl_cancel := True\<rparr>) s)"
      by (rule all_uplinks_loop [OF u host_notify(4)]) simp_all
    then show ?thesis
      unfolding host_notify(1)
      by (rule all_uplinks_loop [where l = l]) (use host_notify in \<open>simp_all add: set_loop_def\<close>)
  next
    case (host_clear i l j old)
    have "all_uplinks (set_loop j (old\<lparr>hl_clients := {}\<rparr>) s)"
      by (rule all_uplinks_loop [OF u host_clear(4)]) simp_all
    then show ?thesis
      unfolding host_clear(1)
      by (rule all_uplinks_loop [where l = l]) (use host_clear in \<open>simp_all add: set_loop_def\<close>)
  next
    case (host_fast i l b cid out p)
    have "all_uplinks (set_loop i (l\<lparr>hl_in := hl_in l @ [b]\<rparr>) s)"
      by (rule all_uplinks_loop [OF u host_fast(2)]) simp_all
    then show ?thesis
      unfolding host_fast(1)
      by (rule all_uplinks_phone [where q = p])
        (use host_fast in \<open>auto simp: set_loop_def try_fast_def elim!: uplink_same\<close>)
  next
    case (host_sent i l cid out p)
    have "all_uplinks (set_loop i (l\<lparr>hl_stage := HRead\<rparr>) s)"
      by (rule all_uplinks_loop [OF u host_sent(2)]) simp_all
    then show ?thesis
      unfolding host_sent(1)
      by (rule all_uplinks_phone [where q = p]) (use host_sent in \<open>auto simp: set_loop_def elim!: uplink_same\<close>)
  qed (simp_all only:, (rule all_uplinks_loop [OF u], assumption, simp, simp, simp, simp)+)
next
  case (host_writer s s')
  note u = host_writer(3)
  from host_writer(2) show ?case
    by cases (simp_all only:, (rule all_uplinks_loop [OF u], assumption, simp, simp, simp, simp)+)
next
  case (client s s')
  note u = client(3)
  from client(2) show ?case
  proof cases
    case (client_enter h e cid)
    have "own cid (hl_acc l) = []" if "loops s (oh_loop e) = Some l" for l
      using reach_acc_known [OF client(1)] that client_enter(4)
      by (fastforce simp: acc_known_def own_def filter_empty_conv)
    with u client_enter show ?thesis
      by (auto simp: all_uplinks_def set_phone_def uplink_ok_def [of cid] script_def pending_def
          new_client_loop_def split: if_splits)
  next
    case (client_insert cid p l)
    have "all_uplinks (set_loop (pl_loop p) (l\<lparr>hl_clients := insert cid (hl_clients l)\<rparr>) s)"
      by (rule all_uplinks_loop [OF u client_insert(4)]) simp_all
    then show ?thesis
      unfolding client_insert(1)
      by (rule all_uplinks_phone [where q = p])
        (use client_insert in \<open>auto simp: set_loop_def uplink_ok_def script_def pending_def\<close>)
  next
    case (client_open cid p l l')
    then have "uplink_ok cid p l" using u by (simp add: all_uplinks_def)
    with client_open show ?thesis
      by (auto intro!: all_uplinks_send [OF u] uplink_accepted [of cid p l])
  next
    case (client_abort cid p l)
    have "all_uplinks (set_loop (pl_loop p) (l\<lparr>hl_clients := hl_clients l - {cid}\<rparr>) s)"
      by (rule all_uplinks_loop [OF u client_abort(4)]) simp_all
    then show ?thesis
      unfolding client_abort(1)
      by (rule all_uplinks_phone [where q = p])
        (use client_abort in \<open>auto simp: set_loop_def uplink_ok_def script_def pending_def clear_queues_def\<close>)
  next
    case (client_sent cid p f l l')
    then have ok: "uplink_ok cid p l" and own: "frame_client f = cid"
      using u reach_sends_own [OF client(1)] by (simp_all add: all_uplinks_def sends_own_def)
    have "uplink_ok cid (p\<lparr>pl_stage := PRead\<rparr>) l'"
      by (rule uplink_accepted [OF ok client_sent(5,6) own]) (simp_all add: client_sent(3))
    then show ?thesis
      unfolding client_sent(1) by (intro all_uplinks_send [OF u client_sent(2) _ client_sent(4,6) own]) simp_all
  next
    case (client_close cid p l l')
    then have "uplink_ok cid p l" using u by (simp add: all_uplinks_def)
    with client_close show ?thesis
      by (auto intro!: all_uplinks_send [OF u] uplink_accepted [of cid p l])
  next
    case (client_remove cid p l)
    have "all_uplinks (set_loop (pl_loop p) (l\<lparr>hl_clients := hl_clients l - {cid}\<rparr>) s)"
      by (rule all_uplinks_loop [OF u client_remove(4)]) simp_all
    then show ?thesis
      unfolding client_remove(1)
      by (rule all_uplinks_phone [where q = p])
        (use client_remove in \<open>auto simp: set_loop_def uplink_ok_def script_def pending_def\<close>)
  next
    case (client_skip cid p m)
    with u show ?thesis by simp
  next
    case (client_read cid p m f)
    show ?thesis
      unfolding client_read(1)
      by (rule all_uplinks_phone [OF u client_read(2)])
        (use client_read said_one [OF client_read(4)] in
          \<open>auto simp: uplink_ok_def script_def pending_def intro: prefix_more\<close>)
  qed (simp_all only:, (rule all_uplinks_phone [OF u], assumption, simp,
      auto simp: uplink_ok_def script_def pending_def intro: prefix_more)+)
next
  case (client_writer s s')
  note u = client_writer(3)
  from client_writer(2) show ?case
    by cases (simp_all only:, (rule all_uplinks_phone [OF u], assumption, simp, erule uplink_same; simp)+)
qed (simp_all add: all_uplinks_def relay_start_def)

section \<open>What goes over the sockets\<close>

text \<open>What the PC decodes from the host's socket, and what the phone's socket carries besides pongs.\<close>

definition pc_reads :: "ws_message list \<Rightarrow> TunnelFrame list" where
  "pc_reads ms = concat (map (\<lambda>m. case m of
     WsBinary b \<Rightarrow> (case pc_decode b of Some f \<Rightarrow> [f] | None \<Rightarrow> []) | _ \<Rightarrow> []) ms)"

definition phone_messages :: "PhoneOut list \<Rightarrow> ws_message list" where
  "phone_messages outs = concat (map (\<lambda>out. case fst (send_to_phone True out) of Some m \<Rightarrow> [m] | None \<Rightarrow> []) outs)"

definition not_pong :: "ws_message \<Rightarrow> bool" where
  "not_pong m = (case m of WsPong b \<Rightarrow> False | _ \<Rightarrow> True)"

definition wire_ok :: "client_loop \<Rightarrow> bool" where
  "wire_ok p \<longleftrightarrow> prefix (filter not_pong (pl_wire p)) (phone_messages (pl_out p))
     \<and> (pl_rx p \<longrightarrow> filter not_pong (pl_wire p) = phone_messages (pl_out p))"

lemma phone_messages_snoc: "phone_messages (outs @ [out]) =
    phone_messages outs @ (case fst (send_to_phone True out) of Some m \<Rightarrow> [m] | None \<Rightarrow> [])"
  by (simp add: phone_messages_def)

lemma wire_same: "wire_ok p \<Longrightarrow> pl_wire p' = pl_wire p \<Longrightarrow> pl_out p' = pl_out p \<Longrightarrow> (pl_rx p' \<Longrightarrow> pl_rx p) \<Longrightarrow> wire_ok p'"
  by (auto simp: wire_ok_def)

lemma wire_sent:
  assumes "wire_ok p" "pl_rx p"
  shows "wire_ok (after_send out sent p)"
  using assms
  by (cases sent; cases "from_utf8 (po_bytes out)")
    (auto simp: wire_ok_def after_send_def pop_out_def clear_queues_def send_to_phone_def phone_messages_snoc
      not_pong_def intro: prefix_prefix)

lemma reach_wires: "relay_reach D s \<Longrightarrow> phones s cid = Some p \<Longrightarrow> wire_ok p"
proof (induction arbitrary: cid p rule: relay_induct)
  case (host s s')
  note IH = host(3) and p = host(4)
  from host(2) show ?case
    by cases (use p in \<open>auto simp: set_loop_def set_phone_def try_fast_def split: if_splits
      intro: IH wire_same [OF IH]\<close>)
next
  case (host_writer s s')
  with host_writer_step_frame [OF host_writer(2)] show ?case by simp
next
  case (client s s')
  note IH = client(3) and p = client(4)
  from client(2) show ?case
    by cases (use p in \<open>auto simp: set_loop_def set_phone_def clear_queues_def split: if_splits
      intro: IH wire_same [OF IH] simp: new_client_loop_def wire_ok_def [of "\<lparr>pl_host = _, pl_loop = _, pl_stage = _,
        pl_pong = _, pl_fast = _, pl_bulk = _, pl_rx = _, pl_wire = [], pl_in = _, pl_out = [], pl_from = _\<rparr>"]
        phone_messages_def\<close>)
next
  case (client_writer s s')
  note IH = client_writer(3) and p = client_writer(4)
  from client_writer(2) show ?case
  proof cases
    case (cw_pong c q l b sent)
    with p IH [of c q] show ?thesis
      by (auto simp: set_phone_def clear_queues_def wire_ok_def not_pong_def split: if_splits dest: IH)
  next
    case (cw_out c q l out sent)
    with p IH wire_sent [of q] show ?thesis by (auto simp: set_phone_def split: if_splits)
  next
    case (cw_break c q l)
    with p show ?thesis
      by (auto simp: set_phone_def clear_queues_def split: if_splits intro: IH wire_same [OF IH])
  qed
qed (simp_all add: relay_start_def)

lemma pc_reads_wire: "(\<And>f. f \<in> set fs \<Longrightarrow> wf_frame f) \<Longrightarrow> pc_reads (map to_wire fs) = fs"
  by (induction fs) (simp_all add: pc_reads_def to_wire_def tunnel.a_to_b)

lemma pc_reads_append: "pc_reads (ms @ ns) = pc_reads ms @ pc_reads ns"
  by (simp add: pc_reads_def)

lemma pc_wire_frames:
  assumes "relay_reach D s" "phones s cid = Some p" "loops s (pl_loop p) = Some l"
  shows "prefix (own cid (pc_reads (hl_wire l))) (script cid p)
    \<and> (\<forall>f\<in>set (pc_reads (hl_wire l)). \<exists>q. phones s (frame_client f) = Some q \<and> pl_loop q = pl_loop p)
    \<and> (hl_rx l \<longrightarrow> hl_queue l = [] \<longrightarrow> own cid (pc_reads (hl_wire l)) @ pending p = script cid p)"
proof -
  have known: "\<exists>q. phones s (frame_client f) = Some q \<and> pl_loop q = pl_loop p" if "f \<in> set (hl_acc l)" for f
    using reach_acc_known [OF assms(1)] assms(3) that by (simp add: acc_known_def)
  then have wf: "wf_frame f" if "f \<in> set (hl_acc l)" for f
    using that phones_attachedD [OF all_attached [OF assms(1)]] unfolding wf_frame_def by blast
  have ch: "channel_ok l" using reach_channels [OF assms(1)] assms(3) by (simp add: all_channels_def)
  then obtain zs where zs: "map to_wire (hl_acc l) = hl_wire l @ zs"
    by (auto simp: channel_ok_def prefix_def)
  have acc: "hl_acc l = pc_reads (hl_wire l) @ pc_reads zs"
    using pc_reads_wire [of "hl_acc l"] wf by (simp add: zs pc_reads_append)
  then have own: "own cid (hl_acc l) = own cid (pc_reads (hl_wire l)) @ own cid (pc_reads zs)" by simp
  have u: "uplink_ok cid p l" using reach_uplinks [OF assms(1)] assms(2,3) by (simp add: all_uplinks_def)
  then have "prefix (own cid (pc_reads (hl_wire l))) (script cid p)"
    using own append_prefixD unfolding uplink_ok_def by metis
  moreover have "own cid (pc_reads (hl_wire l)) @ pending p = script cid p" if "hl_rx l" "hl_queue l = []"
    using that ch u own zs by (auto simp: channel_ok_def uplink_ok_def pc_reads_def)
  moreover have "\<forall>f\<in>set (pc_reads (hl_wire l)). \<exists>q. phones s (frame_client f) = Some q \<and> pl_loop q = pl_loop p"
    using known by (simp add: acc)
  ultimately show ?thesis by blast
qed

section \<open>Bounds of the queues\<close>

definition queues_bounded :: "relay \<Rightarrow> bool" where
  "queues_bounded s \<longleftrightarrow> (\<forall>cid p. phones s cid = Some p \<longrightarrow>
     length (pl_fast p) \<le> PER_CLIENT_FAST_CAP \<and> length (pl_bulk p) \<le> PER_CLIENT_BULK_CAP)"

lemma pop_out_shorter: "length (pl_fast (pop_out p)) \<le> length (pl_fast p) \<and> length (pl_bulk (pop_out p)) \<le> length (pl_bulk p)"
  by (simp add: pop_out_def)

lemma after_send_shorter:
  "length (pl_fast (after_send out sent p)) \<le> length (pl_fast p) \<and> length (pl_bulk (after_send out sent p)) \<le> length (pl_bulk p)"
  using pop_out_shorter [of p] by (auto simp: after_send_def Let_def clear_queues_def split: prod.split)

lemma reach_bounded: "relay_reach D s \<Longrightarrow> queues_bounded s"
proof (induction rule: relay_induct)
  case (host s s')
  from host(2,3) show ?case
    by cases (auto simp: queues_bounded_def set_loop_def set_phone_def try_fast_def split: if_splits)
next
  case (host_writer s s')
  with host_writer_step_frame [OF host_writer(2)] show ?case by (simp add: queues_bounded_def)
next
  case (client s s')
  from client(2,3) show ?case
    by cases (auto simp: queues_bounded_def set_loop_def set_phone_def new_client_loop_def clear_queues_def split: if_splits)
next
  case (client_writer s s')
  from client_writer(2) show ?case
  proof cases
    case (cw_out cid p l out sent)
    with client_writer(3) after_send_shorter [of out sent p] show ?thesis
      by (fastforce simp: queues_bounded_def set_phone_def split: if_splits)
  qed (use client_writer(3) in \<open>auto simp: queues_bounded_def set_phone_def clear_queues_def split: if_splits\<close>)
qed (simp_all add: queues_bounded_def relay_start_def)

text \<open>One must-deliver message on its way from the PC to the phone of the demonstration.\<close>

lemma demo_item_delivered:
  assumes must: "must_deliver tx pay" and sent: "send_to_phone True \<lparr>po_bytes = pay, po_text = tx\<rparr> = (Some w, True)"
  shows "\<exists>s p l. relay_reach toy_deps s \<and> phones s demo_cid = Some p \<and> loops s (pl_loop p) = Some l
    \<and> pl_wire p = [w] \<and> demo_cid \<in> hl_clients l \<and> pl_rx p \<and> pl_bulk p = [] \<and> in_flight demo_cid p l = []
    \<and> drop (pl_from p) (hl_in l) = [pc_encode (Data demo_cid tx pay)]"
proof -
  let ?out = "\<lparr> po_bytes = pay, po_text = tx \<rparr>"
  let ?b = "pc_encode (Data demo_cid tx pay)"
  let ?ps = "[demo_cid \<mapsto> demo_phone]" and ?l = "demo_session\<lparr>hl_in := [?b]\<rparr>"
  let ?p = "demo_phone\<lparr>pl_bulk := [?out]\<rparr>"
  have wf: "wf_frame (Data demo_cid tx pay)"
    by (simp add: wf_frame_def demo_cid_def uuid_ok_replicate)
  have "host_step toy_deps (demo_state demo_session ?ps) (demo_state (?l\<lparr>hl_stage := HSend demo_cid ?out\<rparr>) ?ps)"
    using host_bulk [of "demo_state demo_session ?ps" 0 demo_session ?b demo_cid ?out toy_deps] must
    by (simp add: demo_session_def demo_reader_def new_host_loop_def host_reader_data [OF wf] del: pc_encode.simps)
  note r = reach_steps(1) [OF demo_attached this]
  have "host_step toy_deps (demo_state (?l\<lparr>hl_stage := HSend demo_cid ?out\<rparr>) ?ps) (demo_state ?l [demo_cid \<mapsto> ?p])"
    using host_sent [of "demo_state (?l\<lparr>hl_stage := HSend demo_cid ?out\<rparr>) ?ps" 0 "?l\<lparr>hl_stage := HSend demo_cid ?out\<rparr>"
      demo_cid ?out demo_phone toy_deps]
    by (simp add: demo_session_def demo_reader_def new_host_loop_def demo_phone_def new_client_loop_def
        PER_CLIENT_BULK_CAP_def del: pc_encode.simps)
  note r = reach_steps(1) [OF r this]
  have c: "client_choice demo_cid ?p ?l = SendOut ?out"
    by (simp add: client_choice_def writer_select_def recv_of_def pong_sender_def out_sender_def demo_phone_def
        new_client_loop_def)
  have "client_writer_step (demo_state ?l [demo_cid \<mapsto> ?p]) (demo_state ?l [demo_cid \<mapsto> after_send ?out True ?p])"
    using cw_out [of "demo_state ?l [demo_cid \<mapsto> ?p]" demo_cid ?p ?l ?out True] c
    by (simp add: demo_phone_def new_client_loop_def client_writer_on_def del: pc_encode.simps)
  note r = reach_steps(4) [OF r this]
  have "pl_wire (after_send ?out True ?p) = [w] \<and> pl_loop (after_send ?out True ?p) = 0
      \<and> pl_rx (after_send ?out True ?p) \<and> pl_from (after_send ?out True ?p) = 0 \<and> pl_bulk (after_send ?out True ?p) = []"
    by (simp add: after_send_def sent pop_out_def demo_phone_def new_client_loop_def)
  then show ?thesis
    by (intro exI [of _ "demo_state ?l [demo_cid \<mapsto> after_send ?out True ?p]"] exI [of _ "after_send ?out True ?p"]
        exI [of _ ?l]) (use r in \<open>simp add: demo_session_def demo_reader_def in_flight_def del: pc_encode.simps\<close>)
qed

lemma demo_delivered:
  "\<exists>s p l. relay_reach toy_deps s \<and> phones s demo_cid = Some p \<and> loops s (pl_loop p) = Some l
    \<and> pl_wire p = [WsText ''ok''] \<and> demo_cid \<in> hl_clients l \<and> pl_rx p
    \<and> drop (pl_from p) (hl_in l) = [pc_encode (Data demo_cid True (as_bytes ''ok''))]"
proof -
  have ok: "rust_str ''ok''" by (rule rust_str_ascii) (simp add: is_ascii_def)
  have "must_deliver True (as_bytes ''ok'')" by (simp add: must_deliver_def)
  from demo_item_delivered [OF this send_to_phone_text [OF ok]] show ?thesis by blast
qed

section \<open>Properties\<close>



text \<open>
  The PC hears each of its phones exactly: what it decodes from its tunnel socket consists of
  frames of phones attached to this very session; those of one phone are a prefix of the open, its
  messages one frame each with text flag and bytes kept, in the order sent, and, once it has gone, the
  close; and while the tunnel's writer runs and its queue is empty nothing but the frame being queued
  is missing.
\<close>

theorem pc_receives:
  assumes "relay_reach D s" "phones s cid = Some p" "loops s (pl_loop p) = Some l"
  shows "prefix (own cid (pc_reads (hl_wire l))) (script cid p)
    \<and> (\<forall>f\<in>set (pc_reads (hl_wire l)). \<exists>q. phones s (frame_client f) = Some q \<and> pl_loop q = pl_loop p)
    \<and> (hl_rx l \<longrightarrow> hl_queue l = [] \<longrightarrow> own cid (pc_reads (hl_wire l)) @ pending p = script cid p)"
  using pc_wire_frames [OF assms] .

lemma pc_receives_witness:
  "\<exists>l. relay_reach toy_deps (demo_state l [demo_cid \<mapsto> demo_phone])
    \<and> own demo_cid (pc_reads (hl_wire l)) = [ClientOpen demo_cid]"
  using pc_receives [OF demo_attached, of demo_cid demo_phone demo_session] demo_attached
  by (auto simp: demo_session_def demo_reader_def new_host_loop_def demo_phone_def new_client_loop_def script_def
      said_def pending_def del: relay_encode.simps)





end
