(* ===== verification/Relay_Client.thy ===== *)
theory Relay_Client
  imports Connection Relay_Server
begin

text \<open>
  The PC's side of the relay (\<^verbatim>\<open>server-pc/src/relay_client.rs\<close>): where the relay
  configuration is kept, how it is provisioned and turned into URLs, and the multiplexer that gives
  every phone behind the tunnel a session of its own. TOML, HTTP and the file system's answers are
  arguments.
\<close>

section \<open>Configuration\<close>

record RelayConfig =
  rc_base_url :: string
  rc_host_id :: string
  rc_host_token :: string

datatype relay_error =
    NoConfigDir | ConfigUnreadable | ConfigNotUtf8 | ConfigUnparsable
  | ConfigMkdir | ConfigSerialize | ConfigWrite
  | RegisterFailed | BadBaseUrl string

text \<open>\<^verbatim>\<open>config_path\<close> on Windows: \<open>LOCALAPPDATA\<close>, or else \<open>APPDATA\<close>.\<close>

definition config_path :: "string option \<Rightarrow> string option \<Rightarrow> string option" where
  "config_path local_appdata appdata =
     (case (case local_appdata of Some d \<Rightarrow> Some d | None \<Rightarrow> appdata) of
        None \<Rightarrow> None
      | Some d \<Rightarrow> Some (path_join (path_join d ''RemoteControl'') ''relay.toml''))"

definition load_config :: "(string \<Rightarrow> RelayConfig option) \<Rightarrow> string option \<Rightarrow> (string \<Rightarrow> disk_read) \<Rightarrow>
    relay_error + RelayConfig option" where
  "load_config from_toml path disk =
     (case path of None \<Rightarrow> Inl NoConfigDir
      | Some p \<Rightarrow>
          (case disk p of
             DiskNotFound \<Rightarrow> Inr None
           | DiskError \<Rightarrow> Inl ConfigUnreadable
           | DiskBytes b \<Rightarrow>
               (case from_utf8 b of None \<Rightarrow> Inl ConfigNotUtf8
                | Some txt \<Rightarrow> (case from_toml txt of None \<Rightarrow> Inl ConfigUnparsable | Some cfg \<Rightarrow> Inr (Some cfg)))))"

text \<open>\<open>cs_left\<close>: what a failed \<^verbatim>\<open>fs::write\<close> leaves at the path, if it changes it.\<close>

record config_save_io =
  cs_mkdir_ok :: bool
  cs_write_ok :: bool
  cs_left :: disk_read

definition save_config :: "(RelayConfig \<Rightarrow> string option) \<Rightarrow> string option \<Rightarrow> config_save_io \<Rightarrow> RelayConfig \<Rightarrow>
    (string \<Rightarrow> disk_read) \<Rightarrow> (relay_error + unit) \<times> (string \<Rightarrow> disk_read)" where
  "save_config to_toml path io cfg disk =
     (case path of None \<Rightarrow> (Inl NoConfigDir, disk)
      | Some p \<Rightarrow>
          if \<not> cs_mkdir_ok io then (Inl ConfigMkdir, disk)
          else (case to_toml cfg of None \<Rightarrow> (Inl ConfigSerialize, disk)
                | Some s \<Rightarrow> if cs_write_ok io then (Inr (), disk(p := DiskBytes (as_bytes s)))
                            else (Inl ConfigWrite, disk(p := cs_left io))))"

text \<open>\<open>post url name\<close>: the parsed answer of the register request, if it succeeded.\<close>

definition provision :: "(RelayConfig \<Rightarrow> string option) \<Rightarrow> (string \<Rightarrow> string \<Rightarrow> (string \<times> string) option) \<Rightarrow>
    string option \<Rightarrow> config_save_io \<Rightarrow> string \<Rightarrow> string \<Rightarrow> (string \<Rightarrow> disk_read) \<Rightarrow>
    (relay_error + RelayConfig) \<times> (string \<Rightarrow> disk_read)" where
  "provision to_toml post path io base_url server_name disk =
     (case post (trim_end_char (CHR ''/'') base_url @ ''/v1/host/register'') server_name of
        None \<Rightarrow> (Inl RegisterFailed, disk)
      | Some (host_id, host_token) \<Rightarrow>
          let cfg = \<lparr> rc_base_url = trim_end_char (CHR ''/'') base_url, rc_host_id = host_id, rc_host_token = host_token \<rparr>
          in (case save_config to_toml path io cfg disk of
                (Inl e, disk') \<Rightarrow> (Inl e, disk')
              | (Inr u, disk') \<Rightarrow> (Inr cfg, disk')))"

section \<open>URLs\<close>

text \<open>\<^verbatim>\<open>splitn(2, pat).nth(1)\<close>: what follows the first occurrence of a pattern.\<close>

fun after_first :: "string \<Rightarrow> string \<Rightarrow> string option" where
  "after_first pat [] = strip_prefix pat []"
| "after_first pat (c # cs) = (case strip_prefix pat (c # cs) of Some r \<Rightarrow> Some r | None \<Rightarrow> after_first pat cs)"

definition host_ws_url :: "RelayConfig \<Rightarrow> relay_error + string" where
  "host_ws_url cfg =
     (let base = trim_end_char (CHR ''/'') (rc_base_url cfg);
          tail = (\<lambda>scheme. case after_first ''://'' base of
            None \<Rightarrow> Inl (BadBaseUrl base)
          | Some host_part \<Rightarrow> Inr (scheme @ ''://'' @ host_part @ ''/v1/host?host_id='' @ rc_host_id cfg
              @ ''&host_token='' @ rc_host_token cfg))
      in if starts_with base ''https://'' then tail ''wss''
         else if starts_with base ''http://'' then tail ''ws''
         else Inl (BadBaseUrl base))"

definition parse_ws_authority :: "string \<Rightarrow> string option" where
  "parse_ws_authority ws_url =
     (case strip_prefix ''ws://'' ws_url of None \<Rightarrow> None
      | Some rest \<Rightarrow>
          let authority = takeWhile (\<lambda>c. \<not> (c = CHR ''/'' \<or> c = CHR ''?'')) rest
          in if authority = [] \<or> CHR '':'' \<notin> set authority then None else Some authority)"

section \<open>Sessions behind the tunnel\<close>

text \<open>
  \<open>mx_tasks\<close>: the spawned connections in order, each with its client id and what was put in its
  inbox; \<open>mx_sessions\<close> maps a client id to the task that holds its inbox sender; \<open>mx_out\<close> is the
  queue to the tunnel's writer.
\<close>

record mux =
  mx_sessions :: "string \<rightharpoonup> nat"
  mx_tasks :: "(string \<times> Message list) list"
  mx_out :: "TunnelFrame list"

definition mux_start :: mux where
  "mux_start = \<lparr> mx_sessions = Map.empty, mx_tasks = [], mx_out = [] \<rparr>"

definition to_inbox :: "nat \<Rightarrow> Message \<Rightarrow> (string \<times> Message list) list \<Rightarrow> (string \<times> Message list) list" where
  "to_inbox k m ts = ts[k := (fst (ts ! k), snd (ts ! k) @ [m])]"

definition data_message :: "bool \<Rightarrow> bytes \<Rightarrow> Message option" where
  "data_message txt payload =
     (if txt then (case from_utf8 payload of Some s \<Rightarrow> Some (MText s) | None \<Rightarrow> None) else Some (MBinary payload))"

fun on_frame :: "TunnelFrame \<Rightarrow> mux \<Rightarrow> mux" where
  "on_frame (ClientOpen client_id) s =
     s\<lparr>mx_sessions := (mx_sessions s)(client_id \<mapsto> length (mx_tasks s)), mx_tasks := mx_tasks s @ [(client_id, [])]\<rparr>"
| "on_frame (ClientClose client_id) s = s\<lparr>mx_sessions := (mx_sessions s)(client_id := None)\<rparr>"
| "on_frame (Data client_id txt payload) s =
     (case data_message txt payload of None \<Rightarrow> s
      | Some msg \<Rightarrow>
          (case mx_sessions s client_id of None \<Rightarrow> s
           | Some k \<Rightarrow> s\<lparr>mx_tasks := to_inbox k msg (mx_tasks s)\<rparr>))"

text \<open>One item of the tunnel socket; \<open>None\<close> ends the reader.\<close>

definition mux_read :: "ws_item \<Rightarrow> mux \<Rightarrow> mux option" where
  "mux_read item s =
     (case item of
        WsEnd \<Rightarrow> None
      | WsErr \<Rightarrow> None
      | WsMsg m \<Rightarrow>
          (case m of
             WsBinary b \<Rightarrow> (case pc_decode b of Some f \<Rightarrow> Some (on_frame f s) | None \<Rightarrow> Some s)
           | WsClose \<Rightarrow> None
           | _ \<Rightarrow> Some s))"

datatype pumped = PumpFrame TunnelFrame | PumpSkip | PumpStop

definition pump_one :: "string \<Rightarrow> Message \<Rightarrow> pumped" where
  "pump_one client_id m =
     (case m of
        MText s \<Rightarrow> PumpFrame (Data client_id True (as_bytes s))
      | MBinary b \<Rightarrow> PumpFrame (Data client_id False b)
      | MClose \<Rightarrow> PumpStop
      | _ \<Rightarrow> PumpSkip)"

text \<open>The biased choice among the control, video and bulk queues of a session.\<close>

definition pump_select :: "Message recv_state \<Rightarrow> Message recv_state \<Rightarrow> Message recv_state \<Rightarrow> Message recv_state" where
  "pump_select outbox video bulk =
     (case outbox of Item m \<Rightarrow> Item m | Closed \<Rightarrow> Closed
      | Pending \<Rightarrow> (case video of Item m \<Rightarrow> Item m | Closed \<Rightarrow> Closed | Pending \<Rightarrow> bulk))"

text \<open>One turn of a session's pump; the flag says whether it goes on.\<close>

definition pump_step :: "string \<Rightarrow> Message recv_state \<Rightarrow> mux \<Rightarrow> mux \<times> bool" where
  "pump_step client_id r s =
     (let stop = (s\<lparr>mx_sessions := (mx_sessions s)(client_id := None)\<rparr>, False) in
      case r of
        Pending \<Rightarrow> (s, True)
      | Closed \<Rightarrow> stop
      | Item m \<Rightarrow>
          (case pump_one client_id m of
             PumpFrame f \<Rightarrow> (s\<lparr>mx_out := mx_out s @ [f]\<rparr>, True)
           | PumpSkip \<Rightarrow> (s, True)
           | PumpStop \<Rightarrow> stop))"

text \<open>The tunnel's writer: a queued frame or the keep-alive tick, and whether the send worked.\<close>

datatype writer_event = WFrame | WTick

definition mux_write :: "writer_event \<Rightarrow> bool \<Rightarrow> mux \<Rightarrow> mux \<times> ws_message option \<times> bool" where
  "mux_write ev ok s =
     (case ev of
        WFrame \<Rightarrow> (case mx_out s of [] \<Rightarrow> (s, None, True)
           | f # fs \<Rightarrow> (s\<lparr>mx_out := fs\<rparr>, if ok then Some (WsBinary (pc_encode f)) else None, ok))
      | WTick \<Rightarrow> (s, if ok then Some (WsPing []) else None, ok))"

section \<open>The sessions by themselves\<close>

text \<open>
  What one phone's session is meant to see, from its own frames alone: an open starts it with an empty
  inbox, a message is added while it is open, a close (or the end of its connection) ends it.
\<close>

datatype mux_event = Arrived TunnelFrame | SessionEnded string

definition mux_event :: "mux_event \<Rightarrow> mux \<Rightarrow> mux" where
  "mux_event ev s = (case ev of Arrived f \<Rightarrow> on_frame f s | SessionEnded cid \<Rightarrow> fst (pump_step cid Closed s))"

definition event_client :: "mux_event \<Rightarrow> string" where
  "event_client ev = (case ev of Arrived f \<Rightarrow> frame_client f | SessionEnded cid \<Rightarrow> cid)"

fun session_spec :: "mux_event \<Rightarrow> Message list option \<Rightarrow> Message list option" where
  "session_spec (Arrived (ClientOpen c)) v = Some []"
| "session_spec (Arrived (ClientClose c)) v = None"
| "session_spec (Arrived (Data c txt p)) v =
     (case data_message txt p of None \<Rightarrow> v | Some m \<Rightarrow> map_option (\<lambda>ms. ms @ [m]) v)"
| "session_spec (SessionEnded c) v = None"

definition session_view :: "mux \<Rightarrow> string \<Rightarrow> Message list option" where
  "session_view s cid = map_option (\<lambda>k. snd (mx_tasks s ! k)) (mx_sessions s cid)"

definition mux_wf :: "mux \<Rightarrow> bool" where
  "mux_wf s \<longleftrightarrow> (\<forall>cid k. mx_sessions s cid = Some k \<longrightarrow> k < length (mx_tasks s) \<and> fst (mx_tasks s ! k) = cid)"

lemma mux_wf_event: "mux_wf s \<Longrightarrow> mux_wf (mux_event ev s)"
proof (cases ev)
  case (Arrived f)
  assume "mux_wf s"
  with Arrived show ?thesis
    by (cases f) (auto simp: mux_wf_def mux_event_def to_inbox_def nth_append nth_list_update less_Suc_eq
        split: option.splits if_splits)
next
  case (SessionEnded cid)
  assume "mux_wf s"
  with SessionEnded show ?thesis by (auto simp: mux_wf_def mux_event_def pump_step_def split: if_splits)
qed

lemma session_event:
  assumes "mux_wf s"
  shows "session_view (mux_event ev s) cid =
    (if event_client ev = cid then session_spec ev (session_view s cid) else session_view s cid)"
proof (cases ev)
  case (SessionEnded c)
  then show ?thesis by (simp add: mux_event_def pump_step_def session_view_def event_client_def)
next
  case (Arrived f)
  show ?thesis
  proof (cases f)
    case (ClientOpen c)
    with Arrived assms show ?thesis
      by (cases "mx_sessions s cid") (auto simp: mux_event_def session_view_def event_client_def mux_wf_def nth_append)
  next
    case (ClientClose c)
    with Arrived show ?thesis by (simp add: mux_event_def session_view_def event_client_def)
  next
    case (Data c tx p)
    with Arrived assms show ?thesis
      by (auto simp: mux_event_def session_view_def event_client_def mux_wf_def to_inbox_def nth_list_update
          split: option.splits)
  qed
qed

lemma mux_run_spec:
  "mux_wf s \<Longrightarrow> session_view (fold mux_event evs s) cid =
    fold session_spec (filter (\<lambda>ev. event_client ev = cid) evs) (session_view s cid)"
  by (induction evs arbitrary: s) (simp_all add: mux_wf_event session_event)

section \<open>URLs, once more\<close>

lemma trim_end_char_append: "s \<noteq> [] \<Longrightarrow> last s \<noteq> c \<Longrightarrow> trim_end_char c (s @ replicate n c) = s"
  using trim_end_char_id [of s c] by (simp add: trim_end_char_def dropWhile_append)

lemma after_first_http: "after_first ''://'' (''http://'' @ r) = Some r" "after_first ''://'' (''https://'' @ r) = Some r"
  by simp_all

lemma takeWhile_authority:
  "\<forall>c\<in>set auth. c \<noteq> CHR ''/'' \<and> c \<noteq> CHR ''?'' \<Longrightarrow> r = [] \<or> hd r = CHR ''/'' \<or> hd r = CHR ''?'' \<Longrightarrow>
    takeWhile (\<lambda>c. \<not> (c = CHR ''/'' \<or> c = CHR ''?'')) (auth @ r) = auth"
  by (cases r) (auto simp: takeWhile_append)

definition host_path :: "RelayConfig \<Rightarrow> string" where
  "host_path cfg = ''/v1/host?host_id='' @ rc_host_id cfg @ ''&host_token='' @ rc_host_token cfg"

lemma host_ws_url_http: "trim_end_char (CHR ''/'') (rc_base_url cfg) = ''http://'' @ r \<Longrightarrow>
    host_ws_url cfg = Inr (''ws://'' @ r @ host_path cfg)"
  by (simp add: host_ws_url_def starts_with_def host_path_def)

lemma host_ws_url_https: "trim_end_char (CHR ''/'') (rc_base_url cfg) = ''https://'' @ r \<Longrightarrow>
    host_ws_url cfg = Inr (''wss://'' @ r @ host_path cfg)"
  by (simp add: host_ws_url_def starts_with_def host_path_def)

lemma scheme_unique:
  assumes "scheme @ ''://'' @ r = sch' @ ''://'' @ r'" "CHR '':'' \<notin> set scheme" "CHR '':'' \<notin> set sch'"
  shows "scheme = sch'"
proof -
  have tw: "takeWhile (\<lambda>c. c \<noteq> CHR '':'') (s @ ''://'' @ x) = s" if "CHR '':'' \<notin> set s" for s x
    using that by (subst takeWhile_append2) auto
  from tw [OF assms(2)] tw [OF assms(3)] assms(1) show ?thesis by metis
qed

lemma host_ws_url_other:
  assumes "trim_end_char (CHR ''/'') (rc_base_url cfg) = scheme @ ''://'' @ r" "CHR '':'' \<notin> set scheme"
    and "scheme \<notin> {''http'', ''https''}"
  shows "\<exists>e. host_ws_url cfg = Inl e"
proof -
  have "scheme @ ''://'' @ r \<noteq> ''http'' @ ''://'' @ x" for x
    using scheme_unique [of scheme r "''http''" x] assms(2,3) by auto
  moreover have "scheme @ ''://'' @ r \<noteq> ''https'' @ ''://'' @ x" for x
    using scheme_unique [of scheme r "''https''" x] assms(2,3) by auto
  ultimately have "\<not> starts_with (scheme @ ''://'' @ r) ''http://'' \<and> \<not> starts_with (scheme @ ''://'' @ r) ''https://''"
    by (auto simp: starts_with_iff)
  with assms(1) show ?thesis by (simp add: host_ws_url_def)
qed

lemma parse_ws:
  assumes "\<forall>c\<in>set auth. c \<noteq> CHR ''/'' \<and> c \<noteq> CHR ''?''" "CHR '':'' \<in> set auth"
  shows "parse_ws_authority (''ws://'' @ auth @ host_path cfg) = Some auth"
proof -
  have "takeWhile (\<lambda>c. \<not> (c = CHR ''/'' \<or> c = CHR ''?'')) (auth @ host_path cfg) = auth"
    by (rule takeWhile_authority [OF assms(1)]) (simp add: host_path_def)
  with assms(2) show ?thesis by (auto simp: parse_ws_authority_def Let_def)
qed

lemma parse_wss: "parse_ws_authority (''wss://'' @ r) = None"
  by (simp add: parse_ws_authority_def)

section \<open>Saving and loading\<close>

lemma save_then_load:
  assumes "save_config to_toml path io cfg disk = (Inr u, disk')"
    and toml: "\<And>cfg s. to_toml cfg = Some s \<Longrightarrow> rust_str s \<and> from_toml s = Some cfg"
  shows "load_config from_toml path disk' = Inr (Some cfg)"
proof -
  from assms(1) obtain p s where "path = Some p" "to_toml cfg = Some s" "disk' = disk(p := DiskBytes (as_bytes s))"
    by (auto simp: save_config_def split: option.splits if_splits)
  with toml [of cfg s] show ?thesis by (simp add: load_config_def)
qed

lemma save_unchanged: "save_config to_toml path io cfg disk = (Inl e, disk') \<Longrightarrow> e \<noteq> ConfigWrite \<Longrightarrow> disk' = disk"
  by (auto simp: save_config_def split: option.splits if_splits)

section \<open>Properties\<close>

text \<open>
  Provisioning and the next start agree: when \<^verbatim>\<open>provision\<close> succeeds, the credentials are
  those the relay answered, the URL is the one typed without trailing slashes, and \<^verbatim>\<open>load\<close>
  reads back exactly that configuration; when it fails before writing, the disk is as before; and a PC
  that was never provisioned is told so rather than failed. (The hypothesis on TOML is its round trip.)
\<close>

theorem provision_then_load:
  assumes "provision to_toml post path io base name disk = (r, disk')"
    and "\<And>cfg s. to_toml cfg = Some s \<Longrightarrow> rust_str s \<and> from_toml s = Some cfg"
  shows "(case r of
      Inr cfg \<Rightarrow> post (trim_end_char (CHR ''/'') base @ ''/v1/host/register'') name = Some (rc_host_id cfg, rc_host_token cfg)
        \<and> rc_base_url cfg = trim_end_char (CHR ''/'') base \<and> load_config from_toml path disk' = Inr (Some cfg)
    | Inl e \<Rightarrow> e \<noteq> ConfigWrite \<longrightarrow> disk' = disk)
    \<and> (path = Some q \<longrightarrow> disk q = DiskNotFound \<longrightarrow> load_config from_toml path disk = Inr None)"
proof -
  have "path = Some q \<longrightarrow> disk q = DiskNotFound \<longrightarrow> load_config from_toml path disk = Inr None"
    by (simp add: load_config_def)
  moreover have "case r of
      Inr cfg \<Rightarrow> post (trim_end_char (CHR ''/'') base @ ''/v1/host/register'') name = Some (rc_host_id cfg, rc_host_token cfg)
        \<and> rc_base_url cfg = trim_end_char (CHR ''/'') base \<and> load_config from_toml path disk' = Inr (Some cfg)
    | Inl e \<Rightarrow> e \<noteq> ConfigWrite \<longrightarrow> disk' = disk"
  proof (cases "post (trim_end_char (CHR ''/'') base @ ''/v1/host/register'') name")
    case None
    with assms(1) show ?thesis by (auto simp: provision_def)
  next
    case (Some a)
    obtain h tok where a: "a = (h, tok)" by fastforce
    let ?cfg = "\<lparr> rc_base_url = trim_end_char (CHR ''/'') base, rc_host_id = h, rc_host_token = tok \<rparr>"
    obtain x d where sv: "save_config to_toml path io ?cfg disk = (x, d)" by fastforce
    show ?thesis
    proof (cases x)
      case (Inl e)
      with assms(1) Some a sv save_unchanged [of to_toml path io ?cfg disk e d] show ?thesis
        by (auto simp: provision_def Let_def)
    next
      case (Inr u)
      with sv save_then_load [OF _ assms(2), where path = path and io = io and cfg = ?cfg and disk = disk and u = u and disk' = d] have "load_config from_toml path d = Inr (Some ?cfg)"
        by simp
      with assms(1) Some a sv Inr show ?thesis by (auto simp: provision_def Let_def)
    qed
  qed
  ultimately show ?thesis by blast
qed

lemma provision_then_load_witness:
  "load_config (\<lambda>s. if s = ''x'' then Some \<lparr> rc_base_url = ''http://a:1'', rc_host_id = ''i'', rc_host_token = ''t'' \<rparr> else None)
     (Some ''p'') (snd (provision
       (\<lambda>c. if c = \<lparr> rc_base_url = ''http://a:1'', rc_host_id = ''i'', rc_host_token = ''t'' \<rparr> then Some ''x'' else None)
       (\<lambda>u n. Some (''i'', ''t'')) (Some ''p'') \<lparr> cs_mkdir_ok = True, cs_write_ok = True, cs_left = DiskError \<rparr>
       ''http://a:1/'' ''pc'' (\<lambda>p. DiskNotFound))) =
   Inr (Some \<lparr> rc_base_url = ''http://a:1'', rc_host_id = ''i'', rc_host_token = ''t'' \<rparr>)"
proof -
  let ?cfg = "\<lparr> rc_base_url = ''http://a:1'', rc_host_id = ''i'', rc_host_token = ''t'' \<rparr>"
  let ?to = "\<lambda>c. if c = ?cfg then Some ''x'' else None" and ?from = "\<lambda>s. if s = ''x'' then Some ?cfg else None"
  let ?io = "\<lparr> cs_mkdir_ok = True, cs_write_ok = True, cs_left = DiskError \<rparr>"
  obtain r d where p: "provision ?to (\<lambda>u n. Some (''i'', ''t'')) (Some ''p'') ?io ''http://a:1/'' ''pc'' (\<lambda>p. DiskNotFound) = (r, d)"
    by fastforce
  have trim: "trim_end_char (CHR ''/'') ''http://a:1/'' = ''http://a:1''" by (simp add: trim_end_char_def)
  from p have r: "r = Inr ?cfg" by (simp add: provision_def save_config_def trim Let_def)
  have "rust_str ''x''" by (rule rust_str_ascii) (simp add: is_ascii_def)
  then have "\<And>c s. ?to c = Some s \<Longrightarrow> rust_str s \<and> ?from s = Some c" by (simp split: if_splits)
  from provision_then_load [OF p, of ?from, OF this, of undefined] have "load_config ?from (Some ''p'') d = Inr (Some ?cfg)"
    unfolding r by simp
  with p show ?thesis by simp
qed

text \<open>
  The tunnel's URL: a base URL \<^verbatim>\<open>http://host:port\<close>, with or without trailing slashes,
  gives the \<^verbatim>\<open>ws\<close> URL of the host endpoint with the credentials, and the address dialled
  directly is exactly \<^verbatim>\<open>host:port\<close>; an \<^verbatim>\<open>https\<close> base gives \<^verbatim>\<open>wss\<close> and is
  never dialled directly; any other scheme is refused.
\<close>

theorem host_ws_url_authority:
  assumes "\<forall>c\<in>set auth. c \<noteq> CHR ''/'' \<and> c \<noteq> CHR ''?''" "CHR '':'' \<in> set auth" "CHR '':'' \<notin> set scheme"
    and "rc_base_url cfg = scheme @ ''://'' @ auth @ replicate n (CHR ''/'')"
  shows "(case host_ws_url cfg of
      Inr url \<Rightarrow> scheme = ''http'' \<and> url = ''ws://'' @ auth @ host_path cfg \<and> parse_ws_authority url = Some auth
        \<or> scheme = ''https'' \<and> url = ''wss://'' @ auth @ host_path cfg \<and> parse_ws_authority url = None
    | Inl e \<Rightarrow> scheme \<notin> {''http'', ''https''})"
proof -
  from assms(2) have ne: "auth \<noteq> []" by force
  with assms(1) have "last auth \<noteq> CHR ''/''" using last_in_set by blast
  with ne have "trim_end_char (CHR ''/'') ((scheme @ ''://'' @ auth) @ replicate n (CHR ''/'')) = scheme @ ''://'' @ auth"
    by (intro trim_end_char_append) (simp_all add: last_append)
  then have base: "trim_end_char (CHR ''/'') (rc_base_url cfg) = scheme @ ''://'' @ auth"
    unfolding assms(4) append_assoc .
  consider "scheme = ''http''" | "scheme = ''https''" | "scheme \<notin> {''http'', ''https''}" by blast
  then show ?thesis
  proof cases
    case 1
    with base have "host_ws_url cfg = Inr (''ws://'' @ auth @ host_path cfg)" by (simp add: host_ws_url_http)
    with 1 parse_ws [OF assms(1,2)] show ?thesis by simp
  next
    case 2
    with base have "host_ws_url cfg = Inr (''wss://'' @ auth @ host_path cfg)" by (simp add: host_ws_url_https)
    with 2 parse_wss show ?thesis by simp
  next
    case 3
    with host_ws_url_other [OF base assms(3)] show ?thesis by auto
  qed
qed

lemma host_ws_url_authority_witness:
  "\<exists>url. host_ws_url \<lparr> rc_base_url = ''http://a:1/'', rc_host_id = ''i'', rc_host_token = ''t'' \<rparr> = Inr url
    \<and> parse_ws_authority url = Some ''a:1''"
proof -
  let ?cfg = "\<lparr> rc_base_url = ''http://a:1/'', rc_host_id = ''i'', rc_host_token = ''t'' \<rparr>"
  have "case host_ws_url ?cfg of
      Inr url \<Rightarrow> ''http'' = ''http'' \<and> url = ''ws://'' @ ''a:1'' @ host_path ?cfg \<and> parse_ws_authority url = Some ''a:1''
        \<or> ''http'' = ''https'' \<and> url = ''wss://'' @ ''a:1'' @ host_path ?cfg \<and> parse_ws_authority url = None
    | Inl e \<Rightarrow> ''http'' \<notin> {''http'', ''https''}"
    by (rule host_ws_url_authority [where n = 1]) simp_all
  then show ?thesis by (auto split: sum.splits)
qed

text \<open>
  C21. The multiplexer keeps the phones apart: after any sequence of tunnel frames and session ends,
  what each client id's session has in its inbox, and whether it is open, is what its own frames alone
  determine by the session's specification; frames and ends of other phones never touch it.
\<close>

theorem mux_sessions_separate:
  "session_view (fold mux_event evs mux_start) cid =
    fold session_spec (filter (\<lambda>ev. event_client ev = cid) evs) None"
  using mux_run_spec [of mux_start evs cid] by (simp add: mux_wf_def mux_start_def session_view_def)

end
