(* ===== verification/End_To_End.thy ===== *)
theory End_To_End
  imports Relay_Delivery Relay_Client
begin

text \<open>
  The path of a message through all three programs: a connection of the PC behind its tunnel, the relay
  with its queues and tasks, and the phone's socket; and the same way back.
\<close>

section \<open>From a PC connection to the phone\<close>

definition pump_frames :: "string \<Rightarrow> Message list \<Rightarrow> TunnelFrame list" where
  "pump_frames cid ms = concat (map (\<lambda>m. case pump_one cid m of PumpFrame f \<Rightarrow> [f] | _ \<Rightarrow> []) ms)"

text \<open>The WebSocket message a phone on the local network would get for a message of its connection.\<close>

definition on_socket :: "Message list \<Rightarrow> ws_message list" where
  "on_socket ms = concat (map (\<lambda>m. case m of MText s \<Rightarrow> [WsText s] | MBinary b \<Rightarrow> [WsBinary b] | _ \<Rightarrow> []) ms)"

definition must_arrive :: "Message \<Rightarrow> bool" where
  "must_arrive m = (case m of MText s \<Rightarrow> True | MBinary b \<Rightarrow> must_deliver False b | _ \<Rightarrow> False)"

definition valid_text :: "Message \<Rightarrow> bool" where
  "valid_text m = (case m of MText s \<Rightarrow> rust_str s | _ \<Rightarrow> True)"

lemma pump_frames_Cons: "pump_frames cid (m # ms) =
    (case pump_one cid m of PumpFrame f \<Rightarrow> [f] | _ \<Rightarrow> []) @ pump_frames cid ms"
  by (simp add: pump_frames_def)

lemma addressed_Cons: "addressed cid (b # bs) = addressed_one cid b @ addressed cid bs"
  by (simp add: addressed_def)

lemma addressed_frame: "wf_frame f \<Longrightarrow> addressed_one cid (pc_encode f) =
    (case f of Data c tx p \<Rightarrow> if c = cid then [\<lparr> po_bytes = p, po_text = tx \<rparr>] else [] | _ \<Rightarrow> [])"
  by (simp add: addressed_one_def tunnel.b_to_a split: TunnelFrame.split del: pc_encode.simps)

lemma addressed_own: "\<forall>f\<in>set fs. wf_frame f \<Longrightarrow> addressed cid (map pc_encode fs) = addressed cid (map pc_encode (own cid fs))"
  by (induction fs) (auto simp: addressed_Cons addressed_frame own_def split: TunnelFrame.splits simp del: pc_encode.simps)

lemma phone_messages_simps [simp]: "phone_messages [] = []"
    "phone_messages (out # outs) = (case fst (send_to_phone True out) of Some m \<Rightarrow> [m] | None \<Rightarrow> []) @ phone_messages outs"
  by (simp_all add: phone_messages_def)

lemma pumped_messages:
  assumes "uuid_ok cid" "\<forall>m\<in>set ms. valid_text m"
  shows "phone_messages (filter po_must (addressed cid (map pc_encode (pump_frames cid ms)))) =
    on_socket (filter must_arrive ms)"
  using assms(2)
proof (induction ms)
  case Nil
  then show ?case by (simp add: pump_frames_def on_socket_def)
next
  case (Cons m ms)
  from assms(1) Cons show ?case
    by (cases m) (auto simp: pump_frames_Cons pump_one_def addressed_Cons addressed_frame wf_frame_def po_must_def
        must_arrive_def on_socket_def valid_text_def send_to_phone_text send_to_phone_binary simp del: pc_encode.simps)
qed

lemma phone_messages_prefix: "prefix xs ys \<Longrightarrow> prefix (phone_messages xs) (phone_messages ys)"
  by (auto simp: prefix_def phone_messages_def)

section \<open>From the phone to its PC connection\<close>

definition heard :: "ws_message list \<Rightarrow> Message list" where
  "heard ms = concat (map (\<lambda>m. case m of WsText s \<Rightarrow> [MText s] | WsBinary b \<Rightarrow> [MBinary b] | _ \<Rightarrow> []) ms)"

definition valid_ws :: "ws_message \<Rightarrow> bool" where
  "valid_ws m = (case m of WsText s \<Rightarrow> rust_str s | _ \<Rightarrow> True)"

lemma heard_append [simp]: "heard (xs @ ys) = heard xs @ heard ys" and heard_Nil [simp]: "heard [] = []"
  by (simp_all add: heard_def)

lemma session_said:
  assumes "\<forall>m\<in>set ms. valid_ws m"
  shows "fold session_spec (map Arrived (said cid ms)) (Some ns) = Some (ns @ heard ms)"
  using assms
proof (induction ms arbitrary: ns)
  case Nil
  then show ?case by (simp add: said_def)
next
  case (Cons m ms)
  then show ?case
    by (cases m) (auto simp: said_def heard_def client_reader_item_def data_message_def valid_ws_def)
qed

lemma prefix_said: "prefix fs (said cid ms) \<Longrightarrow> \<exists>ns. prefix ns ms \<and> fs = said cid ns"
proof (induction ms arbitrary: fs)
  case Nil
  then show ?case by (simp add: said_def)
next
  case (Cons m ms)
  show ?case
  proof (cases "said cid [m]")
    case Nil
    with Cons.prems have "prefix fs (said cid ms)" using said_append [of cid "[m]" ms] by simp
    from Cons.IH [OF this] obtain ns where "prefix ns ms" "fs = said cid ns" by blast
    with Nil have "prefix (m # ns) (m # ms)" "fs = said cid (m # ns)"
      using said_append [of cid "[m]" ns] by simp_all
    then show ?thesis by blast
  next
    case (Cons f r)
    then have f: "said cid [m] = [f]" by (auto simp: said_def split: option.splits relay_action.splits)
    show ?thesis
    proof (cases fs)
      case Nil
      then show ?thesis by (intro exI [of _ "[]"]) (simp add: said_def)
    next
      case (Cons g gs)
      with Cons.prems f have "g = f" "prefix gs (said cid ms)" using said_append [of cid "[m]" ms] by simp_all
      from Cons.IH [OF this(2)] obtain ns where "prefix ns ms" "gs = said cid ns" by blast
      with \<open>g = f\<close> Cons f have "prefix (m # ns) (m # ms)" "fs = said cid (m # ns)"
        using said_append [of cid "[m]" ns] by simp_all
      then show ?thesis by blast
    qed
  qed
qed

lemma own_events: "filter (\<lambda>ev. event_client ev = cid) (map Arrived fs) = map Arrived (own cid fs)"
  by (induction fs) (simp_all add: own_def event_client_def)

lemma session_of_frames: "session_view (fold mux_event (map Arrived fs) mux_start) cid =
    fold session_spec (map Arrived (own cid fs)) None"
  using mux_run_spec [of mux_start "map Arrived fs" cid]
  by (simp add: own_events mux_wf_def mux_start_def session_view_def)

lemma session_opened:
  assumes "prefix fs (ClientOpen cid # said cid ms)" "\<forall>m\<in>set ms. valid_ws m"
  shows "case fold session_spec (map Arrived fs) None of Some ns \<Rightarrow> prefix ns (heard ms) | None \<Rightarrow> True"
proof (cases fs)
  case (Cons f gs)
  with assms(1) have f: "f = ClientOpen cid" and "prefix gs (said cid ms)" by simp_all
  then obtain ks where ks: "prefix ks ms" "gs = said cid ks" using prefix_said by blast
  have "\<forall>m\<in>set ks. valid_ws m" using ks(1) assms(2) set_mono_prefix by blast
  from session_said [OF this, of cid "[]"] have "fold session_spec (map Arrived fs) None = Some (heard ks)"
    by (simp add: Cons f ks(2))
  moreover from ks(1) have "prefix (heard ks) (heard ms)" by (auto simp: prefix_def)
  ultimately show ?thesis by simp
qed simp

lemma session_script:
  assumes "prefix fs (script cid p)" "\<forall>m\<in>set (pl_in p). valid_ws m"
  shows "case fold session_spec (map Arrived fs) None of Some ns \<Rightarrow> prefix ns (heard (pl_in p)) | None \<Rightarrow> True"
proof -
  consider "fs = []" | "prefix fs (ClientOpen cid # said cid (pl_in p))"
    | "fs = ClientOpen cid # said cid (pl_in p) @ [ClientClose cid]"
    using assms(1) prefix_snoc [of fs "ClientOpen cid # said cid (pl_in p)" "ClientClose cid"]
    by (auto simp: script_def split: client_stage.splits)
  then show ?thesis
    by cases (simp, erule session_opened [OF _ assms(2)], simp)
qed

lemma inbox_complete:
  assumes "relay_reach D s" "phones s cid = Some p" "loops s (pl_loop p) = Some l"
    and "\<forall>m\<in>set (pl_in p). valid_ws m" "hl_rx l" "hl_queue l = []" "pl_stage p = PRead"
  shows "session_view (fold mux_event (map Arrived (pc_reads (hl_wire l))) mux_start) cid = Some (heard (pl_in p))"
proof -
  have "own cid (pc_reads (hl_wire l)) @ pending p = script cid p"
    using pc_wire_frames [OF assms(1-3)] assms(5,6) by simp
  then show ?thesis using assms(7) session_said [OF assms(4), of cid "[]"]
    by (simp add: session_of_frames script_def pending_def)
qed

section \<open>The phone's socket\<close>

definition ws_must :: "ws_message \<Rightarrow> bool" where
  "ws_must m = (case m of WsText s \<Rightarrow> True | WsBinary b \<Rightarrow> must_deliver False b | _ \<Rightarrow> False)"

lemma ws_must_messages: "filter ws_must (phone_messages outs) = phone_messages (filter po_must outs)"
  by (induction outs) (auto simp: send_to_phone_def ws_must_def po_must_def split: option.split)

lemma ws_must_not_pong: "filter ws_must (filter not_pong ms) = filter ws_must ms"
  by (induction ms) (auto simp: ws_must_def not_pong_def split: ws_message.splits)

lemma prefix_filter: "prefix xs ys \<Longrightarrow> prefix (filter P xs) (filter P ys)"
  by (auto simp: prefix_def)

lemma sent_messages:
  assumes "relay_reach D s" "phones s cid = Some p" "loops s (pl_loop p) = Some l"
    and "drop (pl_from p) (hl_in l) = map pc_encode fs" "\<forall>f\<in>set fs. wf_frame f"
    and "own cid fs = pump_frames cid ms" "\<forall>m\<in>set ms. valid_text m"
  shows "phone_messages (filter po_must (sent_since cid p l)) = on_socket (filter must_arrive ms)"
proof -
  have "uuid_ok cid" using phones_attachedD [OF all_attached [OF assms(1)] assms(2)] by blast
  then show ?thesis
    using pumped_messages [OF _ assms(7)] addressed_own [OF assms(5), of cid] assms(4,6) by (simp add: sent_since_def)
qed

lemma socket_musts: "wire_ok p \<Longrightarrow> pl_rx p \<Longrightarrow> filter ws_must (pl_wire p) = phone_messages (filter po_must (pl_out p))"
  using ws_must_messages [of "pl_out p"] ws_must_not_pong [of "pl_wire p"] by (simp add: wire_ok_def del: filter_filter)

lemma socket_complete:
  assumes "relay_reach D s" "phones s cid = Some p" "loops s (pl_loop p) = Some l"
    and "drop (pl_from p) (hl_in l) = map pc_encode fs" "\<forall>f\<in>set fs. wf_frame f"
    and "own cid fs = pump_frames cid ms" "\<forall>m\<in>set ms. valid_text m"
    and "cid \<in> hl_clients l" "pl_rx p" "pl_bulk p = []" "in_flight cid p l = []"
  shows "filter ws_must (pl_wire p) = on_socket (filter must_arrive ms)"
proof -
  from reach_delivered [OF assms(1)] assms(2,3) have "bulk_ok cid p l"
    by (simp add: all_delivered_def delivery_ok_def)
  with assms(8-11) have "filter po_must (pl_out p) = filter po_must (sent_since cid p l)" by (simp add: bulk_ok_def)
  with sent_messages [OF assms(1-7)] socket_musts [OF reach_wires [OF assms(1,2)] assms(9)] show ?thesis by simp
qed

section \<open>Properties\<close>

text \<open>
  C4. From a connection of the PC to the phone's socket, through pump, tunnel, relay and queues: if
  what the PC sent for a client id since the phone attached are the frames its session's pump made of
  the messages \<open>ms\<close>, among any frames for other phones, then the control texts and FILE chunks on the
  phone's socket are at every moment a prefix of those of \<open>ms\<close>, each the same WebSocket message as on
  a direct connection; and they are all of them once the queue is drained, while the phone is attached.
\<close>

theorem pc_to_phone:
  assumes "relay_reach D s" "phones s cid = Some p" "loops s (pl_loop p) = Some l"
    and "drop (pl_from p) (hl_in l) = map pc_encode fs" "\<forall>f\<in>set fs. wf_frame f"
    and "own cid fs = pump_frames cid ms" "\<forall>m\<in>set ms. valid_text m"
  shows "prefix (filter ws_must (pl_wire p)) (on_socket (filter must_arrive ms))
    \<and> (cid \<in> hl_clients l \<longrightarrow> pl_rx p \<longrightarrow> pl_bulk p = [] \<longrightarrow> in_flight cid p l = [] \<longrightarrow>
        filter ws_must (pl_wire p) = on_socket (filter must_arrive ms))"
proof -
  from reach_delivered [OF assms(1)] assms(2,3) have d: "bulk_ok cid p l"
    by (simp add: all_delivered_def delivery_ok_def)
  have "prefix (filter ws_must (pl_wire p)) (phone_messages (filter po_must (pl_out p)))"
    using prefix_filter [of "filter not_pong (pl_wire p)" "phone_messages (pl_out p)" ws_must] reach_wires [OF assms(1,2)]
    by (simp add: wire_ok_def ws_must_messages ws_must_not_pong del: filter_filter)
  also have "prefix \<dots> (on_socket (filter must_arrive ms))"
    unfolding sent_messages [OF assms, symmetric] using d append_prefixD unfolding bulk_ok_def
    by (blast intro: phone_messages_prefix)
  finally show ?thesis using socket_complete [OF assms] by blast
qed

lemma pc_to_phone_witness:
  "\<exists>s p l. relay_reach toy_deps s \<and> phones s demo_cid = Some p \<and> loops s (pl_loop p) = Some l
    \<and> filter ws_must (pl_wire p) = [WsText ''ok''] \<and> prefix [WsText ''ok''] (on_socket (filter must_arrive [MText ''ok'']))"
proof -
  obtain s p l where r: "relay_reach toy_deps s" "phones s demo_cid = Some p" "loops s (pl_loop p) = Some l"
      and w: "pl_wire p = [WsText ''ok'']"
      and b: "drop (pl_from p) (hl_in l) = [pc_encode (Data demo_cid True (as_bytes ''ok''))]"
    using demo_delivered by (elim exE conjE)
  let ?f = "Data demo_cid True (as_bytes ''ok'')"
  have "drop (pl_from p) (hl_in l) = map pc_encode [?f]" using b by simp
  moreover have "\<forall>f\<in>set [?f]. wf_frame f" by (simp add: wf_frame_def demo_cid_def uuid_ok_replicate)
  moreover have "own demo_cid [?f] = pump_frames demo_cid [MText ''ok'']" by (simp add: pump_frames_def pump_one_def)
  moreover have "\<forall>m\<in>set [MText ''ok'']. valid_text m"
    using rust_str_ascii [of "''ok''"] by (simp add: valid_text_def is_ascii_def)
  ultimately have "prefix (filter ws_must (pl_wire p)) (on_socket (filter must_arrive [MText ''ok'']))"
    using pc_to_phone [OF r, of "[?f]" "[MText ''ok'']"] by blast
  moreover have "filter ws_must (pl_wire p) = [WsText ''ok'']" by (simp add: w ws_must_def)
  ultimately show ?thesis using r by metis
qed

text \<open>
  C5. From the phone's socket to its session on the PC: whatever the interleaving of phones and tasks
  on the relay, once the PC's multiplexer has handled the frames its tunnel received, the session of a
  client id, if it is open, has in its inbox a prefix of the texts and binary messages the phone with
  that id sent, unchanged and in order, and nothing from any other phone; and all of them, when the
  relay's queue to the PC is drained and the phone is still reading.
\<close>

theorem phone_to_pc:
  assumes "relay_reach D s" "phones s cid = Some p" "loops s (pl_loop p) = Some l"
    and "\<forall>m\<in>set (pl_in p). valid_ws m"
  shows "(case session_view (fold mux_event (map Arrived (pc_reads (hl_wire l))) mux_start) cid of
        Some ms \<Rightarrow> prefix ms (heard (pl_in p)) | None \<Rightarrow> True)
    \<and> (hl_rx l \<longrightarrow> hl_queue l = [] \<longrightarrow> pl_stage p = PRead \<longrightarrow>
        session_view (fold mux_event (map Arrived (pc_reads (hl_wire l))) mux_start) cid = Some (heard (pl_in p)))"
proof -
  have "prefix (own cid (pc_reads (hl_wire l))) (script cid p)" using pc_wire_frames [OF assms(1-3)] by simp
  from session_script [OF this assms(4)] inbox_complete [OF assms] show ?thesis by (simp add: session_of_frames)
qed

lemma phone_to_pc_witness:
  "session_view (fold mux_event (map Arrived (pc_reads (hl_wire demo_session))) mux_start) demo_cid = Some []"
  using phone_to_pc [OF demo_attached, of demo_cid demo_phone demo_session]
  by (simp add: demo_session_def demo_reader_def new_host_loop_def demo_phone_def new_client_loop_def
      del: relay_encode.simps)

end
