(* ===== verification/Qr_Server.thy ===== *)
theory Qr_Server
  imports Connection
begin

text \<open>
  The local HTTP server behind the pairing page (\<^verbatim>\<open>server-pc/src/qr_server.rs\<close>): reading a
  request head, the routes, the upload that spools a file for the phone, and the cancel request. What
  the sockets, the file system and the bridge's receiver answer are arguments; the text of a JSON reply
  is a datatype, the HTML page an argument.
\<close>

section \<open>Parsing\<close>

definition trim :: "string \<Rightarrow> string" where
  "trim s = from_chars (trim_chars (chars s))"

function split_ws :: "nat list \<Rightarrow> nat list list" where
  "split_ws cs = (case dropWhile is_whitespace cs of [] \<Rightarrow> []
     | c # r \<Rightarrow> takeWhile (\<lambda>x. \<not> is_whitespace x) (c # r) # split_ws (dropWhile (\<lambda>x. \<not> is_whitespace x) (c # r)))"
  by pat_completeness auto
termination
proof (relation "measure length")
  fix cs :: "nat list" and c r
  assume "dropWhile is_whitespace cs = c # r"
  then have "\<not> is_whitespace c" "length (c # r) \<le> length cs"
    using hd_dropWhile [of is_whitespace cs] length_dropWhile_le [of is_whitespace cs] by auto
  moreover have "length (dropWhile (\<lambda>x. \<not> is_whitespace x) r) \<le> length r" by (rule length_dropWhile_le)
  ultimately show "(dropWhile (\<lambda>x. \<not> is_whitespace x) (c # r), cs) \<in> measure length" by simp
qed simp

declare split_ws.simps [simp del]

text \<open>\<^verbatim>\<open>parse::<uN>()\<close>: an optional plus sign, at least one digit, no overflow.\<close>

definition parse_uint :: "nat \<Rightarrow> string \<Rightarrow> nat option" where
  "parse_uint bound s =
     (let d = (case s of c # r \<Rightarrow> if c = CHR ''+'' then r else s | [] \<Rightarrow> s)
      in if d \<noteq> [] \<and> list_all is_digit d \<and> dec_val d < bound then Some (dec_val d) else None)"

text \<open>\<^verbatim>\<open>split_once(c)\<close> and \<^verbatim>\<open>split(c)\<close>.\<close>

definition split_once :: "char \<Rightarrow> string \<Rightarrow> (string \<times> string) option" where
  "split_once c s = (case dropWhile (\<lambda>x. x \<noteq> c) s of [] \<Rightarrow> None
     | x # r \<Rightarrow> Some (takeWhile (\<lambda>x. x \<noteq> c) s, r))"

fun split_on :: "char \<Rightarrow> string \<Rightarrow> string list" where
  "split_on c [] = [[]]"
| "split_on c (x # xs) = (if x = c then [] # split_on c xs
     else (case split_on c xs of p # ps \<Rightarrow> (x # p) # ps | [] \<Rightarrow> [[x]]))"

lemma split_on_single: "c \<notin> set a \<Longrightarrow> split_on c a = [a]"
  by (induction a) auto

definition parse_id_query :: "string \<Rightarrow> u32 option" where
  "parse_id_query path =
     (case split_once (CHR ''?'') path of None \<Rightarrow> None
      | Some (p, q) \<Rightarrow>
          (case filter (\<lambda>kv. starts_with kv ''id='') (split_on (CHR ''&'') q) of
             [] \<Rightarrow> None
           | kv # kvs \<Rightarrow> map_option word_of_nat (parse_uint (2 ^ 32) (drop 3 kv))))"

text \<open>
  \<^verbatim>\<open>u8::from_str_radix(h, 16)\<close> on two bytes; a leading plus sign is accepted there.
\<close>

definition hex_val :: "u8 \<Rightarrow> nat option" where
  "hex_val b = (let n = unat b in
     if 48 \<le> n \<and> n \<le> 57 then Some (n - 48)
     else if 97 \<le> n \<and> n \<le> 102 then Some (n - 87)
     else if 65 \<le> n \<and> n \<le> 70 then Some (n - 55) else None)"

definition hex_pair :: "u8 \<Rightarrow> u8 \<Rightarrow> u8 option" where
  "hex_pair a b = (case hex_val b of None \<Rightarrow> None
     | Some y \<Rightarrow> if a = 0x2B then Some (word_of_nat y)
                 else (case hex_val a of None \<Rightarrow> None | Some x \<Rightarrow> Some (word_of_nat (16 * x + y))))"

fun percent_bytes :: "bytes \<Rightarrow> bytes" where
  "percent_bytes (b # h1 # h2 # r) =
     (if b = 0x25 then (case hex_pair h1 h2 of Some v \<Rightarrow> v # percent_bytes r
        | None \<Rightarrow> b # percent_bytes (h1 # h2 # r))
      else b # percent_bytes (h1 # h2 # r))"
| "percent_bytes bs = bs"

definition percent_decode :: "(bytes \<Rightarrow> string) \<Rightarrow> string \<Rightarrow> string" where
  "percent_decode lossy s = (let out = percent_bytes (as_bytes s) in
     case from_utf8 out of Some t \<Rightarrow> t | None \<Rightarrow> lossy out)"

section \<open>Requests\<close>

record http_request =
  rq_method :: string
  rq_path :: string
  rq_headers :: "(string \<times> string) list"

definition header_line :: "string \<Rightarrow> (string \<times> string) option" where
  "header_line buf = (case split_once (CHR '':'') buf of None \<Rightarrow> None
     | Some (k, v) \<Rightarrow> Some (map ascii_lower (trim k), trim v))"

text \<open>The lines as \<^verbatim>\<open>read_line\<close> gives them, line end included; no line is the end of input.\<close>

fun read_headers :: "string list \<Rightarrow> (string \<times> string) list" where
  "read_headers [] = []"
| "read_headers (buf # ls) =
     (if buf = [] \<or> buf = [CHR 0x0D, CHR 0x0A] \<or> buf = [CHR 0x0A] then []
      else (case header_line buf of None \<Rightarrow> [] | Some kv \<Rightarrow> [kv]) @ read_headers ls)"

definition read_request :: "string list \<Rightarrow> http_request option" where
  "read_request ls =
     (case ls of [] \<Rightarrow> None
      | req_line # rest \<Rightarrow>
          (case map from_chars (split_ws (chars req_line)) of
             m # p # v # extra \<Rightarrow> Some \<lparr> rq_method = m, rq_path = p, rq_headers = read_headers rest \<rparr>
           | _ \<Rightarrow> None))"

datatype route = PageRoute | RefreshRoute | SendRoute | CancelRoute string | FaviconRoute | UnknownRoute

definition route_of :: "http_request \<Rightarrow> route" where
  "route_of rq =
     (let m = rq_method rq; p = rq_path rq in
      if m = ''GET'' \<and> (p = ''/'' \<or> p = ''/index.html'') then PageRoute
      else if (m = ''GET'' \<or> m = ''POST'') \<and> p = ''/refresh'' then RefreshRoute
      else if m = ''POST'' \<and> p = ''/send-file'' then SendRoute
      else if m = ''POST'' \<and> starts_with p ''/cancel-send'' then CancelRoute p
      else if m = ''GET'' \<and> p = ''/favicon.ico'' then FaviconRoute
      else UnknownRoute)"

section \<open>Upload from the browser\<close>

datatype refusal = MissingLength | BadLength | EmptyFile | TooLarge | NoPhone | ClientClosed | MissingId
  | DispatchFailed dispatch_error

datatype json_body = JsonFail refusal | JsonOk | JsonOkId u32

type_synonym http_reply = "nat \<times> json_body"

definition get_header :: "string \<Rightarrow> (string \<times> string) list \<Rightarrow> string option" where
  "get_header name headers = map_option snd (find (\<lambda>kv. fst kv = name) headers)"

definition MAX_SPOOL_BYTES :: nat where "MAX_SPOOL_BYTES = 5 * 1024 * 1024 * 1024"

text \<open>
  One turn of the spooling loop: what \<^verbatim>\<open>read\<close> returned (an error, or some bytes; none at the
  end of the body) and how much of it a failing \<^verbatim>\<open>write_all\<close> had written.
\<close>

record spool_turn =
  st_read :: "bytes option"
  st_write_failed :: "nat option"

datatype spool_end = Spooled | SpoolPending | SpoolEof | SpoolFailed

fun spool_loop :: "nat \<Rightarrow> spool_turn list \<Rightarrow> bytes \<Rightarrow> spool_end \<times> bytes" where
  "spool_loop remaining ts acc =
     (if remaining = 0 then (Spooled, acc)
      else (case ts of [] \<Rightarrow> (SpoolPending, acc)
        | t # ts' \<Rightarrow>
            (case st_read t of None \<Rightarrow> (SpoolFailed, acc)
             | Some bs \<Rightarrow>
                 if bs = [] then (SpoolEof, acc)
                 else (case st_write_failed t of
                     Some k \<Rightarrow> (SpoolFailed, acc @ take k bs)
                   | None \<Rightarrow> spool_loop (remaining - length bs) ts' (acc @ bs)))))"

declare spool_loop.simps [simp del]

text \<open>\<^verbatim>\<open>read(&mut buf[..want])\<close> never returns more than \<open>want\<close> bytes.\<close>

fun reads_fit :: "nat \<Rightarrow> spool_turn list \<Rightarrow> bool" where
  "reads_fit remaining [] = True"
| "reads_fit remaining (t # ts) = (case st_read t of None \<Rightarrow> True
     | Some bs \<Rightarrow> length bs \<le> min remaining (256 * 1024) \<and> reads_fit (remaining - length bs) ts)"

record spool_io =
  sp_path :: string
  sp_create_ok :: bool
  sp_turns :: "spool_turn list"
  sp_flush_ok :: bool
  sp_rm_ok :: bool

text \<open>
  The result: the reply, if the handler did not fail or is still reading, the disk, the bridge and the
  command that was delivered.
\<close>

record 'tx send_result =
  sr_reply :: "http_reply option"
  sr_fs :: fs
  sr_bridge :: "'tx FileSendBridge"
  sr_cmd :: "('tx \<times> FileSendCmd) option"

definition send_refused :: "nat \<Rightarrow> refusal \<Rightarrow> fs \<Rightarrow> 'tx FileSendBridge \<Rightarrow> 'tx send_result" where
  "send_refused status r d b = \<lparr> sr_reply = Some (status, JsonFail r), sr_fs = d, sr_bridge = b, sr_cmd = None \<rparr>"

definition send_broken :: "fs \<Rightarrow> 'tx FileSendBridge \<Rightarrow> 'tx send_result" where
  "send_broken d b = \<lparr> sr_reply = None, sr_fs = d, sr_bridge = b, sr_cmd = None \<rparr>"

text \<open>From the allocation of the transfer id on.\<close>

definition hand_off :: "('tx \<Rightarrow> FileSendCmd \<Rightarrow> bool) \<Rightarrow> spool_io \<Rightarrow> string \<Rightarrow> nat \<Rightarrow> fs \<Rightarrow> 'tx FileSendBridge \<Rightarrow>
    'tx send_result" where
  "hand_off send_ok io display_name len d b =
     (let (tid, b) = allocate_transfer_id b;
          cmd = SendFile tid display_name (word_of_nat len) (sp_path io)
      in (case dispatch send_ok cmd b of
            Inr sent \<Rightarrow> \<lparr> sr_reply = Some (200, JsonOkId tid), sr_fs = d, sr_bridge = b, sr_cmd = Some sent \<rparr>
          | Inl reason \<Rightarrow> send_refused 503 (DispatchFailed reason) (remove_file (sp_rm_ok io) (sp_path io) d) b))"

definition handle_send_file :: "(bytes \<Rightarrow> string) \<Rightarrow> ('tx \<Rightarrow> FileSendCmd \<Rightarrow> bool) \<Rightarrow> spool_io \<Rightarrow>
    (string \<times> string) list \<Rightarrow> fs \<Rightarrow> 'tx FileSendBridge \<Rightarrow> 'tx send_result" where
  "handle_send_file lossy send_ok io headers d b =
     (case get_header ''content-length'' headers of
        None \<Rightarrow> send_refused 400 MissingLength d b
      | Some len_str \<Rightarrow>
          (case parse_uint (2 ^ 64) len_str of
             None \<Rightarrow> send_refused 400 BadLength d b
           | Some len \<Rightarrow>
               if len = 0 then send_refused 400 EmptyFile d b
               else if MAX_SPOOL_BYTES < len then send_refused 413 TooLarge d b
               else let display_name = (case get_header ''x-file-name'' headers of
                            Some s \<Rightarrow> percent_decode lossy s | None \<Rightarrow> ''upload.bin'') in
               (case dispatch_dry_run b of
                  Inl e \<Rightarrow> send_refused 503 NoPhone d b
                | Inr u \<Rightarrow>
                    if \<not> sp_create_ok io then send_broken d b
                    else (case spool_loop len (sp_turns io) [] of
                        (SpoolEof, acc) \<Rightarrow>
                          send_refused 400 ClientClosed (remove_file (sp_rm_ok io) (sp_path io) (d(sp_path io \<mapsto> acc))) b
                      | (SpoolFailed, acc) \<Rightarrow> send_broken (d(sp_path io \<mapsto> acc)) b
                      | (SpoolPending, acc) \<Rightarrow> send_broken (d(sp_path io \<mapsto> acc)) b
                      | (Spooled, acc) \<Rightarrow>
                          if \<not> sp_flush_ok io then send_broken (d(sp_path io \<mapsto> acc)) b
                          else hand_off send_ok io display_name len (d(sp_path io \<mapsto> acc)) b))))"

definition handle_cancel_send :: "('tx \<Rightarrow> FileSendCmd \<Rightarrow> bool) \<Rightarrow> string \<Rightarrow> 'tx FileSendBridge \<Rightarrow>
    http_reply \<times> ('tx \<times> FileSendCmd) option" where
  "handle_cancel_send send_ok path_query b =
     (case parse_id_query path_query of
        None \<Rightarrow> ((400, JsonFail MissingId), None)
      | Some tid \<Rightarrow> ((200, JsonOk), (case dispatch send_ok (CancelFile tid) b of Inr sent \<Rightarrow> Some sent | Inl e \<Rightarrow> None)))"

section \<open>The connection handler\<close>

datatype http_answer = Html nat string | SeeOther string | Json http_reply | NoAnswer

record 'tx page_world =
  pw_pairing :: Inner
  pw_fs :: fs
  pw_bridge :: "'tx FileSendBridge"

text \<open>\<open>render\<close> is the page as a function of the pairing store, \<open>renew\<close> what a rotation makes of it.\<close>

definition handle_conn :: "(Inner \<Rightarrow> string) \<Rightarrow> (Inner \<Rightarrow> Inner) \<Rightarrow> (bytes \<Rightarrow> string) \<Rightarrow> ('tx \<Rightarrow> FileSendCmd \<Rightarrow> bool) \<Rightarrow>
    spool_io \<Rightarrow> string list \<Rightarrow> 'tx page_world \<Rightarrow> http_answer \<times> 'tx page_world \<times> ('tx \<times> FileSendCmd) option" where
  "handle_conn render renew lossy send_ok io ls w =
     (case read_request ls of None \<Rightarrow> (NoAnswer, w, None)
      | Some rq \<Rightarrow>
          (case route_of rq of
             PageRoute \<Rightarrow> (Html 200 (render (pw_pairing w)), w, None)
           | RefreshRoute \<Rightarrow> (SeeOther ''/'', w\<lparr>pw_pairing := renew (pw_pairing w)\<rparr>, None)
           | SendRoute \<Rightarrow>
               (let r = handle_send_file lossy send_ok io (rq_headers rq) (pw_fs w) (pw_bridge w)
                in (case sr_reply r of Some j \<Rightarrow> Json j | None \<Rightarrow> NoAnswer,
                    w\<lparr>pw_fs := sr_fs r, pw_bridge := sr_bridge r\<rparr>, sr_cmd r))
           | CancelRoute p \<Rightarrow>
               (let (j, c) = handle_cancel_send send_ok p (pw_bridge w) in (Json j, w, c))
           | FaviconRoute \<Rightarrow> (Html 404 [], w, None)
           | UnknownRoute \<Rightarrow> (Html 404 ''<h1>404</h1>'', w, None)))"

section \<open>Spooling\<close>

lemma spool_simps [simp]:
  "spool_loop n [] acc = (if n = 0 then (Spooled, acc) else (SpoolPending, acc))"
  "spool_loop n (t # ts) acc = (if n = 0 then (Spooled, acc) else (case st_read t of None \<Rightarrow> (SpoolFailed, acc)
     | Some bs \<Rightarrow> if bs = [] then (SpoolEof, acc) else (case st_write_failed t of
         Some k \<Rightarrow> (SpoolFailed, acc @ take k bs) | None \<Rightarrow> spool_loop (n - length bs) ts (acc @ bs))))"
  by (subst spool_loop.simps, simp)+

lemma spool_complete:
  "reads_fit n ts \<Longrightarrow> spool_loop n ts acc = (Spooled, out) \<Longrightarrow> length out = length acc + n"
proof (induction ts arbitrary: n acc)
  case (Cons t ts)
  from Cons.prems Cons.IH show ?case
    by (fastforce split: if_splits option.splits)
qed (simp split: if_splits)

text \<open>The body, as far as it was read.\<close>

fun body_read :: "nat \<Rightarrow> spool_turn list \<Rightarrow> bytes" where
  "body_read n [] = []"
| "body_read n (t # ts) = (if n = 0 then [] else (case st_read t of None \<Rightarrow> []
     | Some bs \<Rightarrow> if bs = [] then [] else bs @ body_read (n - length bs) ts))"

lemma spool_body: "spool_loop n ts acc = (Spooled, out) \<Longrightarrow> out = acc @ body_read n ts"
proof (induction ts arbitrary: n acc)
  case (Cons t ts)
  from Cons.prems Cons.IH show ?case
    by (fastforce split: if_splits option.splits)
qed (simp split: if_splits)

section \<open>Percent decoding\<close>

text \<open>
  How a browser writes a header value: bytes it may leave alone as they are, every other byte as a
  percent sign and two upper-case hexadecimal digits.
\<close>

definition hex_upper :: "nat \<Rightarrow> u8" where
  "hex_upper d = (if d < 10 then word_of_nat (48 + d) else word_of_nat (55 + d))"

definition percent_encode :: "(u8 \<Rightarrow> bool) \<Rightarrow> bytes \<Rightarrow> bytes" where
  "percent_encode plain bs = concat (map (\<lambda>b. if plain b then [b]
     else [0x25, hex_upper (unat b div 16), hex_upper (unat b mod 16)]) bs)"

lemma unat_hex_upper: "d < 16 \<Longrightarrow> unat (hex_upper d) = (if d < 10 then 48 + d else 55 + d)"
  unfolding hex_upper_def
  by (cases "d < 10") (simp_all only: if_True if_False unsigned_of_nat, simp_all add: take_bit_nat_eq_self)

lemma hex_val_upper: "d < 16 \<Longrightarrow> hex_val (hex_upper d) = Some d"
  by (simp add: hex_val_def unat_hex_upper Let_def)

lemma hex_pair_upper: "hex_pair (hex_upper (unat b div 16)) (hex_upper (unat b mod 16)) = Some b"
proof -
  have "unat b < 256" using unsigned_less [of b, where 'a = nat] by simp
  then have d: "unat b div 16 < 16" "unat b mod 16 < 16" by simp_all
  have "unat (hex_upper (unat b div 16)) \<noteq> 43" using unat_hex_upper [OF d(1)] d(1) by simp
  then have "hex_upper (unat b div 16) \<noteq> 0x2B" by auto
  with d show ?thesis by (simp add: hex_pair_def hex_val_upper)
qed

lemma percent_bytes_plain: "b \<noteq> 0x25 \<Longrightarrow> percent_bytes (b # bs) = b # percent_bytes bs"
  by (cases bs; cases "tl bs") auto

lemma percent_bytes_encode:
  assumes "\<And>b. plain b \<Longrightarrow> b \<noteq> 0x25"
  shows "percent_bytes (percent_encode plain bs) = bs"
proof (induction bs)
  case (Cons b bs)
  then show ?case
    using assms [of b] by (simp add: percent_encode_def percent_bytes_plain hex_pair_upper)
qed (simp add: percent_encode_def)

text \<open>How the upload handler can end.\<close>

definition upload_refused :: "'tx FileSendBridge \<Rightarrow> fs \<Rightarrow> 'tx send_result \<Rightarrow> bool" where
  "upload_refused b d res = (\<exists>st rf. st \<noteq> 200 \<and> res = send_refused st rf d b)"

definition upload_broken :: "spool_io \<Rightarrow> 'tx FileSendBridge \<Rightarrow> fs \<Rightarrow> 'tx send_result \<Rightarrow> bool" where
  "upload_broken io b d res = (\<exists>d'. res = send_broken d' b \<and> (\<forall>q. q \<noteq> sp_path io \<longrightarrow> d' q = d q))"

definition upload_eof :: "spool_io \<Rightarrow> 'tx FileSendBridge \<Rightarrow> fs \<Rightarrow> 'tx send_result \<Rightarrow> bool" where
  "upload_eof io b d res = (\<exists>acc. res = send_refused 400 ClientClosed
     (remove_file (sp_rm_ok io) (sp_path io) (d(sp_path io \<mapsto> acc))) b)"

lemma upload_end_intros:
  "st \<noteq> 200 \<Longrightarrow> upload_refused b d (send_refused st rf d b)"
  "upload_broken io b d (send_broken d b)"
  "upload_broken io b d (send_broken (d(sp_path io \<mapsto> acc)) b)"
  "upload_eof io b d (send_refused 400 ClientClosed (remove_file (sp_rm_ok io) (sp_path io) (d(sp_path io \<mapsto> acc))) b)"
  unfolding upload_refused_def upload_broken_def upload_eof_def by auto

lemma send_file_outcome:
  assumes r: "handle_send_file lossy send_ok io headers d b = res"
  shows "upload_refused b d res \<or> upload_broken io b d res \<or> upload_eof io b d res
    \<or> (\<exists>s len acc name. get_header ''content-length'' headers = Some s \<and> parse_uint (2 ^ 64) s = Some len
        \<and> 0 < len \<and> len \<le> MAX_SPOOL_BYTES \<and> spool_loop len (sp_turns io) [] = (Spooled, acc)
        \<and> res = hand_off send_ok io name len (d(sp_path io \<mapsto> acc)) b)"
proof (cases "get_header ''content-length'' headers")
  case None
  with r show ?thesis by (auto simp: handle_send_file_def upload_end_intros)
next
  case h: (Some s)
  show ?thesis
  proof (cases "parse_uint (2 ^ 64) s")
    case None
    with h r show ?thesis by (auto simp: handle_send_file_def upload_end_intros)
  next
    case p: (Some len)
    show ?thesis
    proof (cases "len = 0 \<or> MAX_SPOOL_BYTES < len \<or> (\<exists>e. dispatch_dry_run b = Inl e) \<or> \<not> sp_create_ok io")
      case True
      then consider "len = 0" | "0 < len" "MAX_SPOOL_BYTES < len"
        | e where "0 < len" "\<not> MAX_SPOOL_BYTES < len" "dispatch_dry_run b = Inl e"
        | u where "0 < len" "\<not> MAX_SPOOL_BYTES < len" "dispatch_dry_run b = Inr u" "\<not> sp_create_ok io"
        by (cases "dispatch_dry_run b") auto
      then have "upload_refused b d res \<or> upload_broken io b d res"
        by cases (use h p r in \<open>simp_all add: handle_send_file_def Let_def upload_end_intros flip: r\<close>)
      then show ?thesis by blast
    next
      case False
      then obtain u where u: "dispatch_dry_run b = Inr u" by (cases "dispatch_dry_run b") auto
      obtain e acc where sp: "spool_loop len (sp_turns io) [] = (e, acc)" by fastforce
      define name where "name = (case get_header ''x-file-name'' headers of Some s \<Rightarrow> percent_decode lossy s
        | None \<Rightarrow> ''upload.bin'')"
      have "res = (case e of
           SpoolEof \<Rightarrow> send_refused 400 ClientClosed (remove_file (sp_rm_ok io) (sp_path io) (d(sp_path io \<mapsto> acc))) b
         | SpoolFailed \<Rightarrow> send_broken (d(sp_path io \<mapsto> acc)) b
         | SpoolPending \<Rightarrow> send_broken (d(sp_path io \<mapsto> acc)) b
         | Spooled \<Rightarrow> if \<not> sp_flush_ok io then send_broken (d(sp_path io \<mapsto> acc)) b
                     else hand_off send_ok io name len (d(sp_path io \<mapsto> acc)) b)"
        using False h p u sp r unfolding name_def
        by (cases e) (simp_all add: handle_send_file_def Let_def)
      with False h p sp show ?thesis
        by (cases e; cases "sp_flush_ok io") (auto simp: upload_end_intros not_less)
    qed
  qed
qed

section \<open>Properties\<close>

text \<open>
  File names survive the browser's header: whatever bytes a browser leaves unescaped, as long as
  the percent sign is not among them, the percent-encoded UTF-8 of a name is decoded to that name, so
  the lossy fallback is never taken for it.
\<close>

theorem file_name_header_roundtrip:
  assumes "\<And>b. plain b \<Longrightarrow> b \<noteq> 0x25" "rust_str name" "as_bytes s = percent_encode plain (as_bytes name)"
  shows "percent_decode lossy s = name"
  using percent_bytes_encode [of plain "as_bytes name"] assms by (simp add: percent_decode_def Let_def)

lemma file_name_header_roundtrip_witness:
  "percent_decode (\<lambda>b. ''?'') ''a%20b'' = ''a b''"
proof -
  have "rust_str ''a b''" by (rule rust_str_ascii) (simp add: is_ascii_def)
  moreover have "as_bytes ''a%20b'' = percent_encode (\<lambda>b. b = 0x61 \<or> b = 0x62) (as_bytes ''a b'')"
    by (simp add: percent_encode_def as_bytes_def byte_of_char_def hex_upper_def)
  moreover have "\<And>b :: u8. b = 0x61 \<or> b = 0x62 \<Longrightarrow> b \<noteq> 0x25" by auto
  ultimately show ?thesis
    using file_name_header_roundtrip [of "\<lambda>b. b = 0x61 \<or> b = 0x62" "''a b''" "''a%20b''" "\<lambda>b. ''?''"] by blast
qed



end
