(* ===== verification/Brackets.thy ===== *)
theory Brackets
  imports Prelude
begin

text \<open>
  Resources of the operating system as they appear in a trace of calls: a call may acquire the resource,
  release it, or only use it. \<open>bracket\<close> runs over a trace and fails where the discipline is
  broken: an acquisition while the resource is held, a release or a use while it is not. The locale
  \<^verbatim>\<open>device\<close> is the contract of a component whose operations keep the discipline; it is
  interpreted on the screen capture and on the hardware encoder.
\<close>

datatype usage = Acquire | Release | Use | Neutral

fun bracket :: "('c \<Rightarrow> usage) \<Rightarrow> bool \<Rightarrow> 'c list \<Rightarrow> bool option" where
  "bracket u held [] = Some held"
| "bracket u held (c # cs) =
     (case u c of
        Acquire \<Rightarrow> if held then None else bracket u True cs
      | Release \<Rightarrow> if held then bracket u False cs else None
      | Use \<Rightarrow> if held then bracket u held cs else None
      | Neutral \<Rightarrow> bracket u held cs)"

lemma bracket_append [simp]:
  "bracket u held (xs @ ys) = (case bracket u held xs of None \<Rightarrow> None | Some h \<Rightarrow> bracket u h ys)"
  by (induction xs arbitrary: held) (auto split: usage.split)

definition calls_of :: "('c \<Rightarrow> usage) \<Rightarrow> usage \<Rightarrow> 'c list \<Rightarrow> nat" where
  "calls_of u k cs = length (filter (\<lambda>c. u c = k) cs)"

lemma calls_of_simps [simp]:
  "calls_of u k [] = 0"
  "calls_of u k (c # cs) = (if u c = k then Suc (calls_of u k cs) else calls_of u k cs)"
  "calls_of u k (xs @ ys) = calls_of u k xs + calls_of u k ys"
  by (simp_all add: calls_of_def)

text \<open>A trace that keeps the discipline releases what it acquires.\<close>

lemma bracket_counts:
  "bracket u held cs = Some held' \<Longrightarrow>
    calls_of u Acquire cs + (if held then 1 else 0) = calls_of u Release cs + (if held' then 1 else 0)"
proof (induction cs arbitrary: held)
  case (Cons c cs)
  from Cons.prems Cons.IH [of True] Cons.IH [of False] show ?case
    by (cases "u c"; cases held) simp_all
qed simp

lemma bracket_closed: "bracket u False cs = Some False \<Longrightarrow> calls_of u Acquire cs = calls_of u Release cs"
  using bracket_counts [of u False cs False] by simp

text \<open>A sequence of operations on a state, with the calls they make.\<close>

fun device_run :: "('op \<Rightarrow> 's \<Rightarrow> 's \<times> 'c list) \<Rightarrow> 'op list \<Rightarrow> 's \<Rightarrow> 's \<times> 'c list" where
  "device_run step [] s = (s, [])"
| "device_run step (op # ops) s =
     (let (s', cs) = step op s; (s'', ds) = device_run step ops s' in (s'', cs @ ds))"

locale device =
  fixes step :: "'op \<Rightarrow> 's \<Rightarrow> 's \<times> 'c list" and held :: "'s \<Rightarrow> bool" and u :: "'c \<Rightarrow> usage"
  assumes step_bracket: "step op s = (s', cs) \<Longrightarrow> bracket u (held s) cs = Some (held s')"
begin

lemma run_bracket: "device_run step ops s = (s', cs) \<Longrightarrow> bracket u (held s) cs = Some (held s')"
proof (induction ops arbitrary: s cs)
  case Nil
  then show ?case by simp
next
  case (Cons op ops)
  obtain s1 c1 where 1: "step op s = (s1, c1)" by fastforce
  obtain s2 c2 where 2: "device_run step ops s1 = (s2, c2)" by fastforce
  from Cons.prems 1 2 have "cs = c1 @ c2" "s' = s2" by simp_all
  with 2 have "device_run step ops s1 = (s', c2)" by simp
  from step_bracket [OF 1] Cons.IH [OF this] \<open>cs = c1 @ c2\<close> show ?case by simp
qed

lemma run_balanced: "device_run step ops s = (s', cs) \<Longrightarrow> \<not> held s \<Longrightarrow> \<not> held s' \<Longrightarrow>
    calls_of u Acquire cs = calls_of u Release cs"
  using run_bracket [of ops s s' cs] bracket_closed [of u cs] by simp

end

end
