(* ===== verification/Capture.thy ===== *)
theory Capture
  imports Brackets Stream
begin

text \<open>
  Screen capture through desktop duplication (\<^verbatim>\<open>server-pc/src/capture/dxgi.rs\<close>), with the frame
  types of \<^verbatim>\<open>video.rs\<close>. What the graphics driver answers to a call is an argument; each
  operation returns its result, the new state and the calls it made, in order.
\<close>

section \<open>Frames\<close>

datatype PixelFormat = Bgra8 | Nv12

fun bytes_per_pixel :: "PixelFormat \<Rightarrow> nat" where
  "bytes_per_pixel Bgra8 = 4"
| "bytes_per_pixel Nv12 = 1"

text \<open>The presentation time is a \<^verbatim>\<open>Duration\<close>, in nanoseconds.\<close>

record CapturedFrame =
  cf_width :: u32
  cf_height :: u32
  cf_stride :: u32
  cf_format :: PixelFormat
  cf_pts :: nat
  cf_pixels :: bytes

record EncodedPacket =
  ep_data :: bytes
  ep_pts :: nat
  ep_is_keyframe :: bool
  ep_has_config :: bool

section \<open>State and answers\<close>

text \<open>
  \<open>dx_staging\<close> says whether the staging texture was created; device, context and duplication are
  handles of the driver.
\<close>

record DxgiCapture =
  dx_width :: u32
  dx_height :: u32
  dx_staging :: bool
  dx_frame_buf :: bytes
  dx_holding_frame :: bool

datatype acquire_answer = AcquireOk | AcquireTimeout | AcquireFailed

datatype create_answer = CreateFailed | CreatedNull | Created

text \<open>
  \<open>fi_map\<close>: the row pitch and the mapped memory, if mapping works; \<open>fi_elapsed\<close>: the time since
  the capture was created.
\<close>

record frame_io =
  fi_acquire :: acquire_answer
  fi_resource :: bool
  fi_cast :: bool
  fi_create :: create_answer
  fi_map :: "(u32 \<times> bytes) option"
  fi_elapsed :: nat

datatype capture_error = AcquireError | NullResource | CastFailed | StagingFailed | MapFailed | StagingMissing

text \<open>The calls to the driver; an acquisition is recorded with its outcome.\<close>

datatype gpu_call = AcquireNextFrame acquire_answer u32 | ReleaseFrame | CopyResource | CreateStaging
  | MapStaging bool | UnmapStaging

section \<open>Operations\<close>

definition new_capture :: "u32 \<Rightarrow> u32 \<Rightarrow> DxgiCapture" where
  "new_capture width height = \<lparr> dx_width = width, dx_height = height, dx_staging = False, dx_frame_buf = [],
     dx_holding_frame = False \<rparr>"

definition release_held :: "DxgiCapture \<Rightarrow> DxgiCapture \<times> gpu_call list" where
  "release_held s = (if dx_holding_frame s then (s\<lparr>dx_holding_frame := False\<rparr>, [ReleaseFrame]) else (s, []))"

definition next_frame_into :: "u32 \<Rightarrow> frame_io \<Rightarrow> DxgiCapture \<Rightarrow>
    (capture_error + bool) \<times> DxgiCapture \<times> gpu_call list" where
  "next_frame_into timeout_ms io s0 =
     (let (s, c0) = release_held s0; c = c0 @ [AcquireNextFrame (fi_acquire io) timeout_ms] in
      case fi_acquire io of
        AcquireTimeout \<Rightarrow> (Inr False, s, c)
      | AcquireFailed \<Rightarrow> (Inl AcquireError, s, c)
      | AcquireOk \<Rightarrow>
          let s = s\<lparr>dx_holding_frame := True\<rparr> in
          if \<not> fi_resource io then (Inl NullResource, s, c)
          else if \<not> fi_cast io then (Inl CastFailed, s, c)
          else (Inr True, s\<lparr>dx_holding_frame := False\<rparr>, c @ [CopyResource, ReleaseFrame]))"

text \<open>
  \<open>expect\<close> on the staging texture panics when the driver reported success without a texture; the
  model gives that case an error of its own.
\<close>

definition ensure_staging :: "frame_io \<Rightarrow> DxgiCapture \<Rightarrow> (capture_error + unit) \<times> DxgiCapture \<times> gpu_call list" where
  "ensure_staging io s =
     (if dx_staging s then (Inr (), s, [])
      else (case fi_create io of
          CreateFailed \<Rightarrow> (Inl StagingFailed, s, [CreateStaging])
        | CreatedNull \<Rightarrow> (Inr (), s\<lparr>dx_staging := False\<rparr>, [CreateStaging])
        | Created \<Rightarrow> (Inr (), s\<lparr>dx_staging := True\<rparr>, [CreateStaging])))"

definition next_frame :: "u32 \<Rightarrow> frame_io \<Rightarrow> DxgiCapture \<Rightarrow>
    (capture_error + CapturedFrame option) \<times> DxgiCapture \<times> gpu_call list" where
  "next_frame timeout_ms io s0 =
     (let (s, c0) = release_held s0; c = c0 @ [AcquireNextFrame (fi_acquire io) timeout_ms] in
      case fi_acquire io of
        AcquireTimeout \<Rightarrow> (Inr None, s, c)
      | AcquireFailed \<Rightarrow> (Inl AcquireError, s, c)
      | AcquireOk \<Rightarrow>
          let s = s\<lparr>dx_holding_frame := True\<rparr> in
          if \<not> fi_resource io then (Inl NullResource, s, c)
          else if \<not> fi_cast io then (Inl CastFailed, s, c)
          else (case ensure_staging io s of
              (Inl e, s, cs) \<Rightarrow> (Inl e, s, c @ cs)
            | (Inr u, s, cs) \<Rightarrow>
                if \<not> dx_staging s then (Inl StagingMissing, s, c @ cs)
                else (case fi_map io of
                    None \<Rightarrow> (Inl MapFailed, s, c @ cs @ [CopyResource, MapStaging False])
                  | Some (stride, mem) \<Rightarrow>
                      let total = unat stride * unat (dx_height s);
                          s = s\<lparr>dx_frame_buf := take total mem\<rparr>
                      in (Inr (Some \<lparr> cf_width = dx_width s, cf_height = dx_height s, cf_stride = stride,
                            cf_format = Bgra8, cf_pts = fi_elapsed io, cf_pixels = dx_frame_buf s \<rparr>),
                          s, c @ cs @ [CopyResource, MapStaging True, UnmapStaging]))))"

definition drop_capture :: "DxgiCapture \<Rightarrow> gpu_call list" where
  "drop_capture s = (if dx_holding_frame s then [ReleaseFrame] else [])"

section \<open>The discipline\<close>

datatype capture_op = NextFrame u32 frame_io | NextFrameInto u32 frame_io

fun capture_step :: "capture_op \<Rightarrow> DxgiCapture \<Rightarrow> DxgiCapture \<times> gpu_call list" where
  "capture_step (NextFrame t io) s = snd (next_frame t io s)"
| "capture_step (NextFrameInto t io) s = snd (next_frame_into t io s)"

text \<open>Copying out of the duplication needs the frame, and so does reading what was copied.\<close>

fun frame_usage :: "gpu_call \<Rightarrow> usage" where
  "frame_usage (AcquireNextFrame a t) = (if a = AcquireOk then Acquire else Neutral)"
| "frame_usage ReleaseFrame = Release"
| "frame_usage CopyResource = Use"
| "frame_usage c = Neutral"

fun map_usage :: "gpu_call \<Rightarrow> usage" where
  "map_usage (MapStaging ok) = (if ok then Acquire else Neutral)"
| "map_usage UnmapStaging = Release"
| "map_usage c = Neutral"

lemma release_held_simps [simp]:
  "dx_holding_frame (fst (release_held s)) = False"
  "bracket frame_usage (dx_holding_frame s) (snd (release_held s)) = Some False"
  "bracket map_usage h (snd (release_held s)) = Some h"
  by (simp_all add: release_held_def)

lemma into_bracket:
  assumes "next_frame_into t io s = (r, s', cs)"
  shows "bracket frame_usage (dx_holding_frame s) cs = Some (dx_holding_frame s')"
    and "bracket map_usage False cs = Some False"
proof -
  obtain s0 c0 where h: "release_held s = (s0, c0)" by fastforce
  have f: "\<not> dx_holding_frame s0" "bracket frame_usage (dx_holding_frame s) c0 = Some False"
    "bracket map_usage False c0 = Some False"
    using release_held_simps(1,2) [of s] release_held_simps(3) [where h = False and s = s] h by simp_all
  with assms h show "bracket frame_usage (dx_holding_frame s) cs = Some (dx_holding_frame s')"
    by (cases "fi_acquire io") (auto simp: next_frame_into_def Let_def split: if_splits)
  from f assms h show "bracket map_usage False cs = Some False"
    by (cases "fi_acquire io") (auto simp: next_frame_into_def Let_def split: if_splits)
qed

lemma staging_calls:
  assumes "ensure_staging io s = (r, s', cs)"
  shows "dx_holding_frame s' = dx_holding_frame s" "bracket frame_usage h cs = Some h" "bracket map_usage h cs = Some h"
    "dx_height s' = dx_height s" "dx_width s' = dx_width s"
  using assms by (auto simp: ensure_staging_def split: if_splits create_answer.splits)

lemma next_bracket:
  assumes "next_frame t io s = (r, s', cs)"
  shows "bracket frame_usage (dx_holding_frame s) cs = Some (dx_holding_frame s')
    \<and> bracket map_usage False cs = Some False"
proof -
  obtain s0 c0 where h: "release_held s = (s0, c0)" by fastforce
  have f: "\<not> dx_holding_frame s0" "bracket frame_usage (dx_holding_frame s) c0 = Some False"
    "bracket map_usage False c0 = Some False"
    using release_held_simps(1,2) [of s] release_held_simps(3) [where h = False and s = s] h by simp_all
  show ?thesis
  proof (cases "fi_acquire io = AcquireOk \<and> fi_resource io \<and> fi_cast io")
    case False
    with assms h f show ?thesis
      by (cases "fi_acquire io") (auto simp: next_frame_def Let_def split: if_splits)
  next
    case True
    obtain e s1 c1 where st: "ensure_staging io (s0\<lparr>dx_holding_frame := True\<rparr>) = (e, s1, c1)"
      by (metis prod_cases3)
    note q = staging_calls [OF st]
    have r: "(r, s', cs) = (let c = c0 @ [AcquireNextFrame AcquireOk t] in case e of
        Inl x \<Rightarrow> (Inl x, s1, c @ c1)
      | Inr u \<Rightarrow> if \<not> dx_staging s1 then (Inl StagingMissing, s1, c @ c1)
          else (case fi_map io of None \<Rightarrow> (Inl MapFailed, s1, c @ c1 @ [CopyResource, MapStaging False])
            | Some (stride, mem) \<Rightarrow>
                let total = unat stride * unat (dx_height s1); s = s1\<lparr>dx_frame_buf := take total mem\<rparr>
                in (Inr (Some \<lparr> cf_width = dx_width s, cf_height = dx_height s, cf_stride = stride,
                      cf_format = Bgra8, cf_pts = fi_elapsed io, cf_pixels = dx_frame_buf s \<rparr>),
                    s, c @ c1 @ [CopyResource, MapStaging True, UnmapStaging])))"
      using assms h True st by (cases e) (simp_all add: next_frame_def Let_def)
    show ?thesis
      using r f q(1) q(2) [of True] q(3) [of False]
      by (cases e; cases "fi_map io") (auto simp: Let_def split: if_splits prod.splits)
  qed
qed

lemma capture_frames: "capture_step op s = (s', cs) \<Longrightarrow> bracket frame_usage (dx_holding_frame s) cs = Some (dx_holding_frame s')"
  using next_bracket into_bracket(1) by (cases op) (fastforce simp: eq_snd_iff dest: sym)+

lemma capture_maps: "capture_step op s = (s', cs) \<Longrightarrow> bracket map_usage False cs = Some False"
  using next_bracket into_bracket(2) by (cases op) (fastforce simp: eq_snd_iff dest: sym)+

interpretation frames: device capture_step dx_holding_frame frame_usage
  by unfold_locales (rule capture_frames)

interpretation maps: device capture_step "\<lambda>s. False" map_usage
  by unfold_locales (rule capture_maps)

section \<open>Properties\<close>

text \<open>
  The desktop frame is never leaked and never taken twice: over every sequence of frame requests
  on a new capture, whatever the driver answers and whichever request fails, and its drop at the end, a
  frame is acquired only while none is held, copied from only while it is held, and every acquired
  frame is released exactly once; a staging texture that was mapped is unmapped before the request
  returns.
\<close>

theorem frames_released:
  "case device_run capture_step ops (new_capture w h) of (s, cs) \<Rightarrow>
     bracket frame_usage False (cs @ drop_capture s) = Some False
     \<and> calls_of frame_usage Acquire (cs @ drop_capture s) = calls_of frame_usage Release (cs @ drop_capture s)
     \<and> bracket map_usage False (cs @ drop_capture s) = Some False"
proof -
  obtain s cs where r: "device_run capture_step ops (new_capture w h) = (s, cs)" by fastforce
  have "bracket frame_usage False cs = Some (dx_holding_frame s)"
    using frames.run_bracket [OF r] by (simp add: new_capture_def)
  then have b: "bracket frame_usage False (cs @ drop_capture s) = Some False" by (simp add: drop_capture_def)
  have "bracket map_usage False (cs @ drop_capture s) = Some False"
    using maps.run_bracket [OF r] by (simp add: drop_capture_def)
  with b bracket_closed [OF b] r show ?thesis by simp
qed

text \<open>A frame that is handed out is held, and holds one row of \<open>stride\<close> bytes for every line.\<close>

lemma next_frame_pixels:
  assumes "next_frame t io s = (Inr (Some f), s', cs)" "fi_map io = Some (stride, mem)"
    and "unat stride * unat (dx_height s) \<le> length mem"
  shows "length (cf_pixels f) = unat (cf_stride f) * unat (cf_height f)" "cf_format f = Bgra8"
    "cf_width f = dx_width s" "cf_height f = dx_height s"
  using assms by (auto simp: next_frame_def release_held_def ensure_staging_def Let_def
      split: if_splits acquire_answer.splits create_answer.splits)

end
