(* ===== verification/Pixels.thy ===== *)
theory Pixels
  imports Capture "HOL-Library.Monad_Syntax"
begin

text \<open>
  From the captured picture to the encoder's input (\<^verbatim>\<open>server-pc/src/encoder/common.rs\<close> and
  \<^verbatim>\<open>encoder/resize.rs\<close>): BGRA rows with padding are packed, resized by the
  \<^verbatim>\<open>fast_image_resize\<close> crate (an argument) and converted to NV12. Slices and indices are checked
  as Rust checks them; \<open>None\<close> is the panic. The intermediate values are computed in \<open>int\<close>: their
  bounds, proved below, are far inside \<^verbatim>\<open>i32\<close>.
\<close>

section \<open>Checked access\<close>

definition at :: "'a list \<Rightarrow> nat \<Rightarrow> 'a option" where
  "at xs i = (if i < length xs then Some (xs ! i) else None)"

definition slice :: "nat \<Rightarrow> nat \<Rightarrow> 'a list \<Rightarrow> 'a list option" where
  "slice a b xs = (if a \<le> b \<and> b \<le> length xs then Some (take (b - a) (drop a xs)) else None)"

text \<open>A row written over a slice of its length.\<close>

definition put :: "nat \<Rightarrow> 'a list \<Rightarrow> 'a list \<Rightarrow> 'a list option" where
  "put off row xs =
     (if off + length row \<le> length xs then Some (take off xs @ row @ drop (off + length row) xs) else None)"

fun copy_rows :: "('i \<Rightarrow> 'a list option) \<Rightarrow> ('i \<Rightarrow> nat) \<Rightarrow> 'i list \<Rightarrow> 'a list \<Rightarrow> 'a list option" where
  "copy_rows row off [] buf = Some buf"
| "copy_rows row off (y # ys) buf = do { r \<leftarrow> row y; buf' \<leftarrow> put (off y) r buf; copy_rows row off ys buf' }"

definition split_at :: "nat \<Rightarrow> 'a list \<Rightarrow> ('a list \<times> 'a list) option" where
  "split_at n xs = (if n \<le> length xs then Some (take n xs, drop n xs) else None)"

text \<open>\<^verbatim>\<open>(0..n).step_by(2)\<close>.\<close>

definition evens :: "nat \<Rightarrow> nat list" where
  "evens n = map (\<lambda>k. 2 * k) [0..<(n + 1) div 2]"

section \<open>Colour\<close>

definition clamp8 :: "int \<Rightarrow> u8" where
  "clamp8 v = word_of_int (if v < 0 then 0 else if v > 255 then 255 else v)"

definition luma :: "int \<Rightarrow> int \<Rightarrow> int \<Rightarrow> int" where
  "luma b g r = (66 * r + 129 * g + 25 * b + 128) div 256 + 16"

definition chroma_u :: "int \<Rightarrow> int \<Rightarrow> int \<Rightarrow> int" where
  "chroma_u b g r = (-38 * r - 74 * g + 112 * b + 128) div 256 + 128"

definition chroma_v :: "int \<Rightarrow> int \<Rightarrow> int \<Rightarrow> int" where
  "chroma_v b g r = (112 * r - 94 * g - 18 * b + 128) div 256 + 128"

text \<open>Blue, green and red of pixel \<open>p\<close> of a row.\<close>

definition pixel :: "bytes \<Rightarrow> nat \<Rightarrow> (int \<times> int \<times> int) option" where
  "pixel row p = do { b \<leftarrow> at row (p * 4); g \<leftarrow> at row (p * 4 + 1); r \<leftarrow> at row (p * 4 + 2);
     Some (uint b, uint g, uint r) }"

definition y_row :: "nat \<Rightarrow> bytes \<Rightarrow> bytes option" where
  "y_row w row = those (map (\<lambda>x. do { (b, g, r) \<leftarrow> pixel row x; Some (clamp8 (luma b g r)) }) [0..<w])"

definition uv_pair :: "nat \<Rightarrow> bytes \<Rightarrow> bytes \<Rightarrow> nat \<Rightarrow> bytes option" where
  "uv_pair w r0 r1 x = do {
     (b0, g0, red0) \<leftarrow> pixel r0 x; (b1, g1, red1) \<leftarrow> pixel r0 (x + 1);
     (b2, g2, red2) \<leftarrow> pixel r1 x; (b3, g3, red3) \<leftarrow> pixel r1 (x + 1);
     let b = (b0 + b1 + b2 + b3) div 4; let g = (g0 + g1 + g2 + g3) div 4; let r = (red0 + red1 + red2 + red3) div 4;
     if x + 1 < w then Some [clamp8 (chroma_u b g r), clamp8 (chroma_v b g r)] else None }"

definition uv_row :: "nat \<Rightarrow> bytes \<Rightarrow> bytes \<Rightarrow> bytes option" where
  "uv_row w r0 r1 = map_option concat (those (map (uv_pair w r0 r1) (evens w)))"

definition bgra_to_nv12 :: "bytes \<Rightarrow> nat \<Rightarrow> nat \<Rightarrow> nat \<Rightarrow> bytes \<Rightarrow> bytes option" where
  "bgra_to_nv12 bgra stride w h out = do {
     (y_plane, uv_plane) \<leftarrow> split_at (w * h) out;
     y_plane \<leftarrow> copy_rows (\<lambda>y. do { row \<leftarrow> slice (y * stride) (y * stride + w * 4) bgra; y_row w row })
       (\<lambda>y. y * w) [0..<h] y_plane;
     uv_plane \<leftarrow> copy_rows (\<lambda>y. do {
         r0 \<leftarrow> slice (y * stride) (y * stride + w * 4) bgra;
         r1 \<leftarrow> slice ((y + 1) * stride) ((y + 1) * stride + w * 4) bgra;
         uv_row w r0 r1 }) (\<lambda>y. (y div 2) * w) (evens h) uv_plane;
     Some (y_plane @ uv_plane) }"

section \<open>Resizing\<close>

record BgraResizer =
  br_packed_src :: bytes
  br_src_w :: u32
  br_src_h :: u32

definition new_resizer :: "u32 \<Rightarrow> u32 \<Rightarrow> BgraResizer" where
  "new_resizer src_w src_h = \<lparr> br_packed_src = replicate (unat src_w * unat src_h * 4) 0, br_src_w = src_w, br_src_h = src_h \<rparr>"

datatype pixel_error = Panic | ResizeFailed

text \<open>\<^verbatim>\<open>dst.resize(needed, 0)\<close>.\<close>

definition resize_buf :: "nat \<Rightarrow> bytes \<Rightarrow> bytes" where
  "resize_buf n xs = take n xs @ replicate (n - length xs) 0"

text \<open>
  \<open>convolve\<close> is the crate: from the source picture and its dimensions, the destination buffer and its
  dimensions to the new contents of that buffer, or an error.
\<close>

type_synonym convolve = "u32 \<Rightarrow> u32 \<Rightarrow> bytes \<Rightarrow> u32 \<Rightarrow> u32 \<Rightarrow> bytes \<Rightarrow> bytes option"

definition pack_rows :: "bytes \<Rightarrow> nat \<Rightarrow> nat \<Rightarrow> nat \<Rightarrow> bytes \<Rightarrow> bytes option" where
  "pack_rows src src_stride row_bytes h packed =
     copy_rows (\<lambda>y. slice (y * src_stride) (y * src_stride + row_bytes) src) (\<lambda>y. y * row_bytes) [0..<h] packed"

definition resize_into :: "convolve \<Rightarrow> bytes \<Rightarrow> nat \<Rightarrow> u32 \<Rightarrow> u32 \<Rightarrow> bytes \<Rightarrow> BgraResizer \<Rightarrow>
    (pixel_error + bytes) \<times> BgraResizer" where
  "resize_into convolve src src_stride dst_w dst_h dst r =
     (case pack_rows src src_stride (unat (br_src_w r) * 4) (unat (br_src_h r)) (br_packed_src r) of
        None \<Rightarrow> (Inl Panic, r)
      | Some packed \<Rightarrow>
          let r = r\<lparr>br_packed_src := packed\<rparr>;
              needed = unat dst_w * unat dst_h * 4;
              dst = (if length dst \<noteq> needed then resize_buf needed dst else dst)
          in (case convolve (br_src_w r) (br_src_h r) packed dst_w dst_h dst of
                None \<Rightarrow> (Inl ResizeFailed, r)
              | Some dst' \<Rightarrow> (Inr dst', r)))"

text \<open>
  The state the encoders keep for it: the resizer, created with the first frame that needs it, the
  resized picture and the NV12 buffer. A failing call leaves the buffers as the last complete state.
\<close>

record nv12_state =
  ns_resizer :: "BgraResizer option"
  ns_resized :: bytes
  ns_nv12 :: bytes

definition frame_to_nv12 :: "convolve \<Rightarrow> CapturedFrame \<Rightarrow> u32 \<Rightarrow> u32 \<Rightarrow> nv12_state \<Rightarrow> (pixel_error + unit) \<times> nv12_state" where
  "frame_to_nv12 convolve frame target_w target_h s =
     (if cf_width frame = target_w \<and> cf_height frame = target_h
      then (case bgra_to_nv12 (cf_pixels frame) (unat (cf_stride frame)) (unat target_w) (unat target_h) (ns_nv12 s) of
              None \<Rightarrow> (Inl Panic, s) | Some out \<Rightarrow> (Inr (), s\<lparr>ns_nv12 := out\<rparr>))
      else
        let r = (case ns_resizer s of Some r \<Rightarrow> r | None \<Rightarrow> new_resizer (cf_width frame) (cf_height frame)) in
        (case resize_into convolve (cf_pixels frame) (unat (cf_stride frame)) target_w target_h (ns_resized s) r of
           (Inl e, r') \<Rightarrow> (Inl e, s\<lparr>ns_resizer := Some r'\<rparr>)
         | (Inr resized, r') \<Rightarrow>
             let s = s\<lparr>ns_resizer := Some r', ns_resized := resized\<rparr> in
             (case bgra_to_nv12 resized (unat target_w * 4) (unat target_w) (unat target_h) (ns_nv12 s) of
                None \<Rightarrow> (Inl Panic, s) | Some out \<Rightarrow> (Inr (), s\<lparr>ns_nv12 := out\<rparr>))))"

section \<open>Rows\<close>

lemma copy_rows_append:
  "copy_rows row off (xs @ ys) buf = do { b \<leftarrow> copy_rows row off xs buf; copy_rows row off ys b }"
  by (induction xs arbitrary: buf) (simp_all split: Option.bind_splits)

lemma concat_length_same:
  "(\<And>i. i < n \<Longrightarrow> length (rows i) = l) \<Longrightarrow> length (concat (map rows [0..<n])) = n * l"
  by (induction n) auto

lemma put_after: "length pre = off \<Longrightarrow> off + length row \<le> length buf \<Longrightarrow>
    put off row (pre @ drop off buf) = Some (pre @ row @ drop (off + length row) buf)"
  by (simp add: put_def add.commute)

text \<open>Rows of one length at consecutive offsets fill the front of the buffer.\<close>

lemma copy_rows_fill:
  assumes "\<And>i. i < n \<Longrightarrow> row (g i) = Some (rows i)" "\<And>i. i < n \<Longrightarrow> length (rows i) = l"
    and "\<And>i. i < n \<Longrightarrow> off (g i) = i * l" "n * l \<le> length buf"
  shows "copy_rows row off (map g [0..<n]) buf = Some (concat (map rows [0..<n]) @ drop (n * l) buf)"
  using assms
proof (induction n)
  case (Suc n)
  have "length (concat (map rows [0..<n])) = n * l" using Suc.prems(2) by (intro concat_length_same) simp
  moreover have "n * l + l \<le> length buf" using Suc.prems(4) by simp
  ultimately have "put (n * l) (rows n) (concat (map rows [0..<n]) @ drop (n * l) buf)
      = Some (concat (map rows [0..<n]) @ rows n @ drop (Suc n * l) buf)"
    using Suc.prems(2) [of n] put_after [of "concat (map rows [0..<n])" "n * l" "rows n" buf] by (simp add: add.commute)
  moreover have "copy_rows row off (map g [0..<n]) buf = Some (concat (map rows [0..<n]) @ drop (n * l) buf)"
    using Suc.prems by (intro Suc.IH) simp_all
  ultimately show ?case using Suc.prems(1) [of n] Suc.prems(3) [of n] by (simp add: copy_rows_append)
qed simp

lemma nth_rows:
  assumes "\<And>i. i < n \<Longrightarrow> length (rows i) = l" "i < n" "j < l"
  shows "concat (map rows [0..<n]) ! (i * l + j) = rows i ! j"
  using assms
proof (induction n)
  case (Suc n)
  have len: "length (concat (map rows [0..<n])) = n * l" using Suc.prems(1) by (intro concat_length_same) simp
  show ?case
  proof (cases "i < n")
    case True
    have "i * l + j < n * l"
    proof -
      have "i * l + j < Suc i * l" using Suc.prems(3) by simp
      also have "\<dots> \<le> n * l" using True by (intro mult_le_mono1) simp
      finally show ?thesis .
    qed
    with True Suc len show ?thesis by (simp add: nth_append)
  next
    case False
    with Suc.prems(2) have "i = n" by simp
    with len Suc.prems show ?thesis by (simp add: nth_append)
  qed
qed simp

lemma those_map: "(\<And>x. x \<in> set xs \<Longrightarrow> f x = Some (g x)) \<Longrightarrow> those (map f xs) = Some (map g xs)"
  by (induction xs) auto

lemma pixel_row:
  assumes "slice a (a + w * 4) bgra = Some row" "x < w"
  shows "pixel row x = Some (uint (bgra ! (a + x * 4)), uint (bgra ! (a + x * 4 + 1)), uint (bgra ! (a + x * 4 + 2)))"
  using assms by (auto simp: pixel_def at_def slice_def add.assoc split: if_splits)

lemma slice_row: "a + n \<le> length xs \<Longrightarrow> slice a (a + n) xs = Some (take n (drop a xs))"
  by (simp add: slice_def)

section \<open>Ranges\<close>

lemma byte_range: "0 \<le> uint (b :: u8)" "uint (b :: u8) \<le> 255"
  using unsigned_less [of b, where 'a = int] by simp_all

lemma div256_range:
  fixes e :: int
  assumes "lo * 256 \<le> e" "e < (hi + 1) * 256"
  shows "lo \<le> e div 256 \<and> e div 256 \<le> hi"
proof
  show "lo \<le> e div 256" using zdiv_mono1 [OF assms(1), of 256] by simp
  have "e \<le> hi * 256 + 255" using assms(2) by simp
  from zdiv_mono1 [OF this, of 256] show "e div 256 \<le> hi" by simp
qed

lemma luma_range:
  assumes "0 \<le> b" "b \<le> 255" "0 \<le> g" "g \<le> 255" "0 \<le> r" "r \<le> 255"
  shows "16 \<le> luma b g r \<and> luma b g r \<le> 235"
  using div256_range [of 0 "66 * r + 129 * g + 25 * b + 128" 219] assms by (simp add: luma_def)

lemma chroma_range:
  assumes "0 \<le> b" "b \<le> 255" "0 \<le> g" "g \<le> 255" "0 \<le> r" "r \<le> 255"
  shows "16 \<le> chroma_u b g r \<and> chroma_u b g r \<le> 240" "16 \<le> chroma_v b g r \<and> chroma_v b g r \<le> 240"
  using div256_range [of "-112" "-38 * r - 74 * g + 112 * b + 128" 112]
    div256_range [of "-112" "112 * r - 94 * g - 18 * b + 128" 112] assms
  by (simp_all add: chroma_u_def chroma_v_def)

lemma clamp8_uint: "0 \<le> v \<Longrightarrow> v \<le> 255 \<Longrightarrow> uint (clamp8 v) = v"
  by (simp add: clamp8_def uint_word_of_int)

section \<open>The picture by itself\<close>

text \<open>Colour \<open>c\<close> of pixel \<open>(x, y)\<close>, its average over a block of four pixels, and what NV12 stores of it.\<close>

definition colour :: "bytes \<Rightarrow> nat \<Rightarrow> nat \<Rightarrow> nat \<Rightarrow> nat \<Rightarrow> int" where
  "colour bgra stride c x y = uint (bgra ! (y * stride + x * 4 + c))"

definition block :: "bytes \<Rightarrow> nat \<Rightarrow> nat \<Rightarrow> nat \<Rightarrow> nat \<Rightarrow> int" where
  "block bgra stride c x y = (colour bgra stride c x y + colour bgra stride c (x + 1) y
     + colour bgra stride c x (y + 1) + colour bgra stride c (x + 1) (y + 1)) div 4"

definition luma_at :: "bytes \<Rightarrow> nat \<Rightarrow> nat \<Rightarrow> nat \<Rightarrow> int" where
  "luma_at bgra stride x y = luma (colour bgra stride 0 x y) (colour bgra stride 1 x y) (colour bgra stride 2 x y)"

definition u_at :: "bytes \<Rightarrow> nat \<Rightarrow> nat \<Rightarrow> nat \<Rightarrow> int" where
  "u_at bgra stride x y = chroma_u (block bgra stride 0 x y) (block bgra stride 1 x y) (block bgra stride 2 x y)"

definition v_at :: "bytes \<Rightarrow> nat \<Rightarrow> nat \<Rightarrow> nat \<Rightarrow> int" where
  "v_at bgra stride x y = chroma_v (block bgra stride 0 x y) (block bgra stride 1 x y) (block bgra stride 2 x y)"

lemma colour_range: "0 \<le> colour bgra stride c x y \<and> colour bgra stride c x y \<le> 255"
  by (simp add: colour_def byte_range)

lemma average_range:
  fixes a b c d :: int
  assumes "0 \<le> a \<and> a \<le> 255" "0 \<le> b \<and> b \<le> 255" "0 \<le> c \<and> c \<le> 255" "0 \<le> d \<and> d \<le> 255"
  shows "0 \<le> (a + b + c + d) div 4 \<and> (a + b + c + d) div 4 \<le> 255"
  using assms by linarith

lemma block_range: "0 \<le> block bgra stride c x y \<and> block bgra stride c x y \<le> 255"
  unfolding block_def by (intro average_range colour_range)

lemma stored_luma: "uint (clamp8 (luma_at bgra stride x y)) = luma_at bgra stride x y
    \<and> 16 \<le> luma_at bgra stride x y \<and> luma_at bgra stride x y \<le> 235"
  using luma_range [of "colour bgra stride 0 x y" "colour bgra stride 1 x y" "colour bgra stride 2 x y"]
  by (simp add: luma_at_def colour_range clamp8_uint)

lemma stored_chroma:
  "uint (clamp8 (u_at bgra stride x y)) = u_at bgra stride x y \<and> 16 \<le> u_at bgra stride x y \<and> u_at bgra stride x y \<le> 240"
  "uint (clamp8 (v_at bgra stride x y)) = v_at bgra stride x y \<and> 16 \<le> v_at bgra stride x y \<and> v_at bgra stride x y \<le> 240"
  using chroma_range [of "block bgra stride 0 x y" "block bgra stride 1 x y" "block bgra stride 2 x y"]
  by (simp_all add: u_at_def v_at_def block_range clamp8_uint)

text \<open>The rows the conversion writes.\<close>

definition y_line :: "bytes \<Rightarrow> nat \<Rightarrow> nat \<Rightarrow> nat \<Rightarrow> bytes" where
  "y_line bgra stride w y = map (\<lambda>x. clamp8 (luma_at bgra stride x y)) [0..<w]"

definition uv_line :: "bytes \<Rightarrow> nat \<Rightarrow> nat \<Rightarrow> nat \<Rightarrow> bytes" where
  "uv_line bgra stride w y = concat (map (\<lambda>k. [clamp8 (u_at bgra stride (2 * k) y), clamp8 (v_at bgra stride (2 * k) y)])
     [0..<w div 2])"

lemma y_row_line:
  assumes "y * stride + w * 4 \<le> length bgra"
  shows "do { row \<leftarrow> slice (y * stride) (y * stride + w * 4) bgra; y_row w row } = Some (y_line bgra stride w y)"
proof -
  obtain row where s: "slice (y * stride) (y * stride + w * 4) bgra = Some row"
    using slice_row [OF assms] by blast
  have "y_row w row = Some (map (\<lambda>x. clamp8 (luma_at bgra stride x y)) [0..<w])"
    unfolding y_row_def by (rule those_map) (simp add: pixel_row [OF s] luma_at_def colour_def add.assoc)
  with s show ?thesis by (simp add: y_line_def)
qed

lemma evens_even: "even n \<Longrightarrow> evens n = map (\<lambda>k. 2 * k) [0..<n div 2]"
  by (auto simp: evens_def elim!: evenE)

lemma uv_row_line:
  assumes "even w" "y * stride + w * 4 \<le> length bgra" "(y + 1) * stride + w * 4 \<le> length bgra"
  shows "do { r0 \<leftarrow> slice (y * stride) (y * stride + w * 4) bgra;
      r1 \<leftarrow> slice ((y + 1) * stride) ((y + 1) * stride + w * 4) bgra; uv_row w r0 r1 } = Some (uv_line bgra stride w y)"
proof -
  obtain r0 where s0: "slice (y * stride) (y * stride + w * 4) bgra = Some r0" using slice_row [OF assms(2)] by blast
  obtain r1 where s1: "slice ((y + 1) * stride) ((y + 1) * stride + w * 4) bgra = Some r1"
    using slice_row [OF assms(3)] by blast
  have "uv_pair w r0 r1 (2 * k) = Some [clamp8 (u_at bgra stride (2 * k) y), clamp8 (v_at bgra stride (2 * k) y)]"
    if "k < w div 2" for k
  proof -
    have "2 * k < w" "2 * k + 1 < w" using that assms(1) by presburger+
    then show ?thesis
      by (simp add: uv_pair_def pixel_row [OF s0] pixel_row [OF s1] Let_def u_at_def v_at_def block_def colour_def
          add.assoc add.left_commute)
  qed
  then have "those (map (uv_pair w r0 r1) (evens w)) = Some (map (\<lambda>k. [clamp8 (u_at bgra stride (2 * k) y),
      clamp8 (v_at bgra stride (2 * k) y)]) [0..<w div 2])"
    unfolding evens_even [OF assms(1)] map_map by (intro those_map) simp
  with s0 s1 show ?thesis by (simp add: uv_row_def uv_line_def)
qed

lemma line_lengths: "length (y_line bgra stride w y) = w" "even w \<Longrightarrow> length (uv_line bgra stride w y) = w"
  by (auto simp: y_line_def uv_line_def length_concat comp_def sum_list_triv elim!: evenE)

lemma uv_line_nth:
  assumes "k < w div 2"
  shows "uv_line bgra stride w y ! (2 * k) = clamp8 (u_at bgra stride (2 * k) y)"
    "uv_line bgra stride w y ! (2 * k + 1) = clamp8 (v_at bgra stride (2 * k) y)"
proof -
  let ?r = "\<lambda>k. [clamp8 (u_at bgra stride (2 * k) y), clamp8 (v_at bgra stride (2 * k) y)]"
  show "uv_line bgra stride w y ! (2 * k) = clamp8 (u_at bgra stride (2 * k) y)"
    using nth_rows [of "w div 2" ?r 2 k 0] assms by (simp add: uv_line_def mult.commute)
  show "uv_line bgra stride w y ! (2 * k + 1) = clamp8 (v_at bgra stride (2 * k) y)"
    using nth_rows [of "w div 2" ?r 2 k 1] assms by (simp add: uv_line_def mult.commute)
qed

lemma nv12_planes:
  assumes "even w" "even h" "h = 0 \<or> (h - 1) * stride + w * 4 \<le> length bgra" "w * h + w * (h div 2) \<le> length out"
  shows "bgra_to_nv12 bgra stride w h out = Some (concat (map (y_line bgra stride w) [0..<h])
    @ concat (map (\<lambda>j. uv_line bgra stride w (2 * j)) [0..<h div 2]) @ drop (w * h + w * (h div 2)) out)"
proof -
  have inside: "y * stride + w * 4 \<le> length bgra" if "y < h" for y
  proof -
    have "y * stride \<le> (h - 1) * stride" using that by (intro mult_le_mono1) simp
    moreover have "(h - 1) * stride + w * 4 \<le> length bgra" using that assms(3) by simp
    ultimately show ?thesis by linarith
  qed
  have "copy_rows (\<lambda>y. do { row \<leftarrow> slice (y * stride) (y * stride + w * 4) bgra; y_row w row }) (\<lambda>y. y * w)
      (map (\<lambda>y. y) [0..<h]) (take (w * h) out) = Some (concat (map (y_line bgra stride w) [0..<h]) @ drop (h * w) (take (w * h) out))"
    using assms(4) by (intro copy_rows_fill) (simp_all add: y_row_line inside line_lengths mult.commute)
  moreover have "copy_rows (\<lambda>y. do { r0 \<leftarrow> slice (y * stride) (y * stride + w * 4) bgra;
        r1 \<leftarrow> slice ((y + 1) * stride) ((y + 1) * stride + w * 4) bgra; uv_row w r0 r1 }) (\<lambda>y. (y div 2) * w)
      (map (\<lambda>k. 2 * k) [0..<h div 2]) (drop (w * h) out)
      = Some (concat (map (\<lambda>j. uv_line bgra stride w (2 * j)) [0..<h div 2]) @ drop (h div 2 * w) (drop (w * h) out))"
  proof (intro copy_rows_fill)
    fix j assume "j < h div 2"
    then have "2 * j < h" "2 * j + 1 < h" using assms(2) by presburger+
    then show "do { r0 \<leftarrow> slice (2 * j * stride) (2 * j * stride + w * 4) bgra;
        r1 \<leftarrow> slice ((2 * j + 1) * stride) ((2 * j + 1) * stride + w * 4) bgra; uv_row w r0 r1 }
      = Some (uv_line bgra stride w (2 * j))"
      by (intro uv_row_line assms inside)
  qed (use assms in \<open>simp_all add: line_lengths mult.commute\<close>)
  moreover have "w * h \<le> length out" using assms(4) by simp
  ultimately show ?thesis
    by (simp add: bgra_to_nv12_def split_at_def evens_even [OF assms(2)] mult.commute add.commute)
qed

text \<open>
  An odd height makes the last chroma row read past the picture: with a buffer of exactly \<open>h\<close> rows
  the conversion panics. The dimensions of the desktop are not rounded anywhere before it.
\<close>

lemma nv12_odd_height:
  assumes "odd h" "0 < w" "length bgra = h * stride" "4 * w \<le> stride"
  shows "bgra_to_nv12 bgra stride w h out = None"
proof -
  obtain n where h: "h = 2 * n + 1" using assms(1) by (auto elim: oddE)
  have ev: "evens h = map (\<lambda>k. 2 * k) [0..<n] @ [2 * n]" by (simp add: evens_def h)
  have "slice ((2 * n + 1) * stride) ((2 * n + 1) * stride + w * 4) bgra = None"
    using assms h by (auto simp: slice_def)
  then have "copy_rows (\<lambda>y. do { r0 \<leftarrow> slice (y * stride) (y * stride + w * 4) bgra;
      r1 \<leftarrow> slice ((y + 1) * stride) ((y + 1) * stride + w * 4) bgra; uv_row w r0 r1 })
      (\<lambda>y. (y div 2) * w) (evens h) uv = None" for uv
    by (simp add: ev copy_rows_append split: Option.bind_splits)
  then show ?thesis by (simp add: bgra_to_nv12_def split: Option.bind_splits prod.splits)
qed

section \<open>Properties\<close>

text \<open>
  C32. The CPU colour conversion is right and total on pictures of even dimensions: it never indexes out
  of range, fills exactly the two planes and leaves the rest of the buffer, stores for every pixel its
  BT.601 luma and for every block of four pixels the chroma of their average, and every stored value is
  in the limited range (16 to 235 and 16 to 240), so the clamps to a byte never change a value.
\<close>

theorem nv12_conversion:
  assumes even: "even w" "even h"
    and inside: "h = 0 \<or> (h - 1) * stride + w * 4 \<le> length bgra" and out: "w * h + w * (h div 2) \<le> length out"
  shows "\<exists>nv12. bgra_to_nv12 bgra stride w h out = Some nv12 \<and> length nv12 = length out
    \<and> drop (w * h + w * (h div 2)) nv12 = drop (w * h + w * (h div 2)) out
    \<and> (\<forall>y<h. \<forall>x<w. uint (nv12 ! (y * w + x)) = luma_at bgra stride x y
          \<and> 16 \<le> luma_at bgra stride x y \<and> luma_at bgra stride x y \<le> 235)
    \<and> (\<forall>j<h div 2. \<forall>k<w div 2. uint (nv12 ! (w * h + j * w + 2 * k)) = u_at bgra stride (2 * k) (2 * j)
          \<and> uint (nv12 ! (w * h + j * w + 2 * k + 1)) = v_at bgra stride (2 * k) (2 * j)
          \<and> 16 \<le> u_at bgra stride (2 * k) (2 * j) \<and> u_at bgra stride (2 * k) (2 * j) \<le> 240
          \<and> 16 \<le> v_at bgra stride (2 * k) (2 * j) \<and> v_at bgra stride (2 * k) (2 * j) \<le> 240)"
proof -
  let ?ys = "concat (map (y_line bgra stride w) [0..<h])"
  let ?uvs = "concat (map (\<lambda>j. uv_line bgra stride w (2 * j)) [0..<h div 2])"
  let ?nv12 = "?ys @ ?uvs @ drop (w * h + w * (h div 2)) out"
  have ys: "length ?ys = w * h" using concat_length_same [of h "y_line bgra stride w" w] by (simp add: line_lengths)
  have uvs: "length ?uvs = w * (h div 2)"
    using concat_length_same [of "h div 2" "\<lambda>j. uv_line bgra stride w (2 * j)" w] even by (simp add: line_lengths)
  have luma: "uint (?nv12 ! (y * w + x)) = luma_at bgra stride x y" if "y < h" "x < w" for x y
  proof -
    have "y * w + x < w * h" using that mult_le_mono1 [of "Suc y" h w] by (simp add: mult.commute)
    then have "?nv12 ! (y * w + x) = y_line bgra stride w y ! x"
      using that ys nth_rows [of h "y_line bgra stride w" w y x] by (simp add: nth_append line_lengths)
    with that show ?thesis by (simp add: y_line_def stored_luma)
  qed
  have chroma: "?nv12 ! (w * h + j * w + i) = uv_line bgra stride w (2 * j) ! i" if "j < h div 2" "i < w" for i j
  proof -
    have "j * w + i < w * (h div 2)" using that mult_le_mono1 [of "Suc j" "h div 2" w] by (simp add: mult.commute)
    then show ?thesis
      using that ys uvs even nth_rows [of "h div 2" "\<lambda>j. uv_line bgra stride w (2 * j)" w j i]
      by (simp add: nth_append line_lengths)
  qed
  have uv: "uint (?nv12 ! (w * h + j * w + 2 * k)) = u_at bgra stride (2 * k) (2 * j)
      \<and> uint (?nv12 ! (w * h + j * w + 2 * k + 1)) = v_at bgra stride (2 * k) (2 * j)"
    if "j < h div 2" "k < w div 2" for j k
  proof -
    have "2 * k < w" "2 * k + 1 < w" using that even by presburger+
    then show ?thesis
      using chroma [OF that(1), of "2 * k"] chroma [OF that(1), of "2 * k + 1"] uv_line_nth [OF that(2)]
      by (simp add: stored_chroma add.assoc)
  qed
  have "drop (w * h + w * (h div 2)) ?nv12 = drop (w * h + w * (h div 2)) out" using ys uvs by simp
  moreover have "length ?nv12 = length out" using ys uvs out by simp
  ultimately show ?thesis
    using nv12_planes [OF even inside out] luma uv by (intro exI [of _ ?nv12] conjI) (simp_all add: stored_luma stored_chroma)
qed

lemma nv12_conversion_witness:
  "\<exists>nv12. bgra_to_nv12 (replicate 16 255) 8 2 2 (replicate 6 0) = Some nv12 \<and> length nv12 = 6 \<and> uint (nv12 ! 0) = 235"
proof -
  have "luma_at (replicate 16 255) 8 0 0 = 235" by (simp add: luma_at_def colour_def luma_def)
  with nv12_conversion [of 2 2 8 "replicate 16 255" "replicate 6 0"] show ?thesis by (auto simp: numeral_2_eq_2)
qed

end
