(* ===== verification/Mft_Encoder.thy ===== *)
theory Mft_Encoder
  imports Pixels
begin

text \<open>
  The Media Foundation encoders: Microsoft's synchronous software encoder
  (\<^verbatim>\<open>server-pc/src/encoder/mf_h264.rs\<close>) and NVIDIA's asynchronous hardware transform
  (\<^verbatim>\<open>encoder/nvenc_mft.rs\<close>). Both convert a frame to NV12, wrap it in a sample and hand it to
  the transform; the asynchronous one queues samples and follows the transform's events. What Media
  Foundation answers is an argument.
\<close>

section \<open>Settings\<close>

datatype NvencCodec = NcH264 | NcHevc

fun nc_name :: "NvencCodec \<Rightarrow> string" where
  "nc_name NcH264 = ''nvenc-mft-h264''"
| "nc_name NcHevc = ''nvenc-mft-hevc''"

fun nc_wire_name :: "NvencCodec \<Rightarrow> string" where
  "nc_wire_name NcH264 = ''h264''"
| "nc_wire_name NcHevc = ''hevc''"

text \<open>\<^verbatim>\<open>saturating_mul\<close> on \<^verbatim>\<open>u32\<close>.\<close>

definition saturating_mul :: "u32 \<Rightarrow> u32 \<Rightarrow> u32" where
  "saturating_mul a b = (if unat a * unat b < 2 ^ 32 then a * b else - 1)"

text \<open>\<^verbatim>\<open>set_packed_uint64\<close>: two 32-bit numbers in one attribute.\<close>

definition packed_uint64 :: "u32 \<Rightarrow> u32 \<Rightarrow> u64" where
  "packed_uint64 hi lo = or (push_bit 32 (ucast hi)) (ucast lo)"

datatype mt_profile = ProfileBase | ProfileMain | ProfileHigh | HevcMain8

record media_type =
  mt_avg_bitrate :: "u32 option"
  mt_frame_size :: u64
  mt_frame_rate :: u64
  mt_pixel_aspect :: u64
  mt_profile :: "mt_profile option"

fun h264_profile :: "H264Profile \<Rightarrow> mt_profile" where
  "h264_profile Baseline = ProfileBase"
| "h264_profile MainProfile = ProfileMain"
| "h264_profile High = ProfileHigh"

definition mf_output_type :: "EncoderConfig \<Rightarrow> media_type" where
  "mf_output_type c = \<lparr> mt_avg_bitrate = Some (saturating_mul (ec_bitrate_kbps c) 1000),
     mt_frame_size = packed_uint64 (ec_width c) (ec_height c), mt_frame_rate = packed_uint64 (ec_fps c) 1,
     mt_pixel_aspect = packed_uint64 1 1, mt_profile = Some (h264_profile (ec_profile c)) \<rparr>"

definition mf_input_type :: "EncoderConfig \<Rightarrow> media_type" where
  "mf_input_type c = \<lparr> mt_avg_bitrate = None, mt_frame_size = packed_uint64 (ec_width c) (ec_height c),
     mt_frame_rate = packed_uint64 (ec_fps c) 1, mt_pixel_aspect = packed_uint64 1 1, mt_profile = None \<rparr>"

definition nv_output_type :: "EncoderConfig \<Rightarrow> NvencCodec \<Rightarrow> media_type" where
  "nv_output_type c cd = \<lparr> mt_avg_bitrate = Some (saturating_mul (ec_bitrate_kbps c) 1000),
     mt_frame_size = packed_uint64 (ec_width c) (ec_height c), mt_frame_rate = packed_uint64 (ec_fps c) 1,
     mt_pixel_aspect = packed_uint64 1 1,
     mt_profile = Some (case cd of NcH264 \<Rightarrow> h264_profile (ec_profile c) | NcHevc \<Rightarrow> HevcMain8) \<rparr>"

section \<open>Samples\<close>

record input_sample =
  is_data :: bytes
  is_time :: "64 word"
  is_duration :: int
  is_clean :: bool

record output_sample =
  os_bytes :: "bytes option"           \<comment> \<open>none: the buffer could not be read\<close>
  os_time :: "int option"
  os_clean :: "u32 option"

datatype mf_error = NotBgra | Nv12Failed pixel_error | PrepareFailed | ZeroFps | FlagFailed | InputFailed
  | OutputFailed | NoSample | UnreadableSample | EventFailed | DrainFailed

definition sample_to_packet :: "output_sample \<Rightarrow> mf_error + EncodedPacket" where
  "sample_to_packet smp =
     (case os_bytes smp of None \<Rightarrow> Inl UnreadableSample
      | Some bs \<Rightarrow>
          let pts_100ns = (case os_time smp of Some t \<Rightarrow> t | None \<Rightarrow> 0);
              is_keyframe = ((case os_clean smp of Some c \<Rightarrow> c | None \<Rightarrow> 0) = 1)
          in Inr \<lparr> ep_data = bs, ep_pts = min (nat (max pts_100ns 0) * 100) (2 ^ 64 - 1),
               ep_is_keyframe = is_keyframe, ep_has_config = is_keyframe \<rparr>)"

text \<open>
  What \<^verbatim>\<open>ProcessOutput\<close> yields: a sample (or none in spite of success), the request for more input,
  or an error; \<open>OutAlloc\<close> is the failure to allocate the output sample before it.
\<close>

datatype output_answer = OutSample "output_sample option" | NeedMoreInput | OutError | OutAlloc

definition take_output :: "output_sample option \<Rightarrow> mf_error + EncodedPacket" where
  "take_output smp = (case smp of None \<Rightarrow> Inl NoSample | Some o' \<Rightarrow> sample_to_packet o')"

text \<open>
  The input sample: the NV12 buffer, the time in units of 100 ns, the duration of a frame, and the
  clean-point flag if a key frame is pending, which is then no longer pending.
\<close>

record prepare_io =
  pi_prepare_ok :: bool
  pi_flag_ok :: bool

definition make_sample :: "EncoderConfig \<Rightarrow> prepare_io \<Rightarrow> CapturedFrame \<Rightarrow> bytes \<Rightarrow> bool \<Rightarrow> (mf_error + input_sample) \<times> bool" where
  "make_sample cfg io frame nv12 pending_keyframe =
     (if \<not> pi_prepare_ok io then (Inl PrepareFailed, pending_keyframe)
      else if ec_fps cfg = 0 then (Inl ZeroFps, pending_keyframe)
      else if pending_keyframe \<and> \<not> pi_flag_ok io then (Inl FlagFailed, pending_keyframe)
      else (Inr \<lparr> is_data = nv12, is_time = word_of_nat (cf_pts frame div 100),
              is_duration = 10000000 div uint (ec_fps cfg), is_clean = pending_keyframe \<rparr>, False))"

section \<open>The software encoder\<close>

record mf_encoder =
  me_config :: EncoderConfig
  me_nv12 :: nv12_state
  me_pending_keyframe :: bool
  me_given :: "input_sample list"       \<comment> \<open>what the transform got so far\<close>

definition new_mf_encoder :: "EncoderConfig \<Rightarrow> mf_encoder" where
  "new_mf_encoder cfg = \<lparr> me_config = cfg,
     me_nv12 = \<lparr> ns_resizer = None, ns_resized = [], ns_nv12 = replicate (unat (ec_width cfg) * unat (ec_height cfg) * 3 div 2) 0 \<rparr>,
     me_pending_keyframe = True, me_given = [] \<rparr>"

text \<open>The output loop; when the answers run out, the transform is still producing.\<close>

fun drain_output :: "output_answer list \<Rightarrow> EncodedPacket list \<Rightarrow> (mf_error + unit) option \<times> EncodedPacket list" where
  "drain_output [] out = (None, out)"
| "drain_output (a # as) out =
     (case a of
        OutAlloc \<Rightarrow> (Some (Inl PrepareFailed), out)
      | OutSample smp \<Rightarrow> (case take_output smp of Inl e \<Rightarrow> (Some (Inl e), out) | Inr pkt \<Rightarrow> drain_output as (out @ [pkt]))
      | NeedMoreInput \<Rightarrow> (Some (Inr ()), out)
      | OutError \<Rightarrow> (Some (Inl OutputFailed), out))"

record mf_io =
  mi_prepare :: prepare_io
  mi_process_ok :: bool
  mi_outputs :: "output_answer list"

definition mf_encode :: "convolve \<Rightarrow> mf_io \<Rightarrow> CapturedFrame \<Rightarrow> mf_encoder \<Rightarrow>
    (mf_error + unit) option \<times> mf_encoder \<times> EncodedPacket list" where
  "mf_encode convolve io frame s =
     (if cf_format frame \<noteq> Bgra8 then (Some (Inl NotBgra), s, [])
      else (case frame_to_nv12 convolve frame (ec_width (me_config s)) (ec_height (me_config s)) (me_nv12 s) of
          (Inl e, n) \<Rightarrow> (Some (Inl (Nv12Failed e)), s\<lparr>me_nv12 := n\<rparr>, [])
        | (Inr u, n) \<Rightarrow>
            let s = s\<lparr>me_nv12 := n\<rparr> in
            (case make_sample (me_config s) (mi_prepare io) frame (ns_nv12 n) (me_pending_keyframe s) of
               (Inl e, kf) \<Rightarrow> (Some (Inl e), s\<lparr>me_pending_keyframe := kf\<rparr>, [])
             | (Inr smp, kf) \<Rightarrow>
                 let s = s\<lparr>me_pending_keyframe := kf\<rparr> in
                 if \<not> mi_process_ok io then (Some (Inl InputFailed), s, [])
                 else (let (r, out) = drain_output (mi_outputs io) []
                       in (r, s\<lparr>me_given := me_given s @ [smp]\<rparr>, out)))))"

definition mf_force_keyframe :: "mf_encoder \<Rightarrow> mf_encoder" where
  "mf_force_keyframe s = s\<lparr>me_pending_keyframe := True\<rparr>"

definition mf_flush :: "bool \<Rightarrow> output_answer list \<Rightarrow> (mf_error + unit) option \<times> EncodedPacket list" where
  "mf_flush drain_ok as = (if drain_ok then drain_output as [] else (Some (Inl DrainFailed), []))"

section \<open>The hardware transform\<close>

record mft_encoder =
  ne_config :: EncoderConfig
  ne_codec :: NvencCodec
  ne_nv12 :: nv12_state
  ne_pending_inputs :: "input_sample list"
  ne_pending_keyframe :: bool
  ne_given :: "input_sample list"       \<comment> \<open>what the transform got so far\<close>

definition new_with_codec :: "EncoderConfig \<Rightarrow> NvencCodec \<Rightarrow> mft_encoder" where
  "new_with_codec cfg cd = \<lparr> ne_config = cfg, ne_codec = cd,
     ne_nv12 = \<lparr> ns_resizer = None, ns_resized = [], ns_nv12 = replicate (unat (ec_width cfg) * unat (ec_height cfg) * 3 div 2) 0 \<rparr>,
     ne_pending_inputs = [], ne_pending_keyframe = True, ne_given = [] \<rparr>"

datatype mft_event = NeedInput | HaveOutput | OtherEvent

datatype event_answer = Event mft_event | NoEvents | EventError

text \<open>One turn of the event loop: the event, and what the call it leads to answers.\<close>

record event_turn =
  et_event :: event_answer
  et_process_ok :: bool
  et_output :: output_answer

definition process_one_output :: "output_answer \<Rightarrow> mf_error + EncodedPacket" where
  "process_one_output a =
     (case a of OutAlloc \<Rightarrow> Inl PrepareFailed | OutSample smp \<Rightarrow> take_output smp
      | NeedMoreInput \<Rightarrow> Inl OutputFailed | OutError \<Rightarrow> Inl OutputFailed)"

fun drain_events :: "event_turn list \<Rightarrow> mft_encoder \<Rightarrow> EncodedPacket list \<Rightarrow>
    (mf_error + unit) option \<times> mft_encoder \<times> EncodedPacket list" where
  "drain_events [] s out = (None, s, out)"
| "drain_events (t # ts) s out =
     (case et_event t of
        NoEvents \<Rightarrow> (Some (Inr ()), s, out)
      | EventError \<Rightarrow> (Some (Inl EventFailed), s, out)
      | Event NeedInput \<Rightarrow>
          (case ne_pending_inputs s of
             [] \<Rightarrow> drain_events ts s out
           | smp # rest \<Rightarrow>
               let s = s\<lparr>ne_pending_inputs := rest\<rparr> in
               if et_process_ok t then drain_events ts (s\<lparr>ne_given := ne_given s @ [smp]\<rparr>) out
               else (Some (Inl InputFailed), s, out))
      | Event HaveOutput \<Rightarrow>
          (case process_one_output (et_output t) of
             Inl e \<Rightarrow> (Some (Inl e), s, out)
           | Inr pkt \<Rightarrow> drain_events ts s (out @ [pkt]))
      | Event OtherEvent \<Rightarrow> drain_events ts s out)"

record mft_io =
  mx_prepare :: prepare_io
  mx_turns :: "event_turn list"

definition mft_encode :: "convolve \<Rightarrow> mft_io \<Rightarrow> CapturedFrame \<Rightarrow> mft_encoder \<Rightarrow>
    (mf_error + unit) option \<times> mft_encoder \<times> EncodedPacket list" where
  "mft_encode convolve io frame s =
     (if cf_format frame \<noteq> Bgra8 then (Some (Inl NotBgra), s, [])
      else (case frame_to_nv12 convolve frame (ec_width (ne_config s)) (ec_height (ne_config s)) (ne_nv12 s) of
          (Inl e, n) \<Rightarrow> (Some (Inl (Nv12Failed e)), s\<lparr>ne_nv12 := n\<rparr>, [])
        | (Inr u, n) \<Rightarrow>
            let s = s\<lparr>ne_nv12 := n\<rparr> in
            (case make_sample (ne_config s) (mx_prepare io) frame (ns_nv12 n) (ne_pending_keyframe s) of
               (Inl e, kf) \<Rightarrow> (Some (Inl e), s\<lparr>ne_pending_keyframe := kf\<rparr>, [])
             | (Inr smp, kf) \<Rightarrow>
                 drain_events (mx_turns io)
                   (s\<lparr>ne_pending_keyframe := kf, ne_pending_inputs := ne_pending_inputs s @ [smp]\<rparr>) [])))"

definition mft_force_keyframe :: "mft_encoder \<Rightarrow> mft_encoder" where
  "mft_force_keyframe s = s\<lparr>ne_pending_keyframe := True\<rparr>"

text \<open>
  The flush: after the drain message, one turn for every time the clock is read before the deadline of
  200 ms, each draining what events there are and stopping once no input is pending.
\<close>

fun flush_loop :: "event_turn list list \<Rightarrow> mft_encoder \<Rightarrow> EncodedPacket list \<Rightarrow>
    (mf_error + unit) option \<times> mft_encoder \<times> EncodedPacket list" where
  "flush_loop [] s out = (Some (Inr ()), s, out)"
| "flush_loop (ts # tss) s out =
     (case drain_events ts s out of
        (Some (Inr u), s', out') \<Rightarrow>
          if ne_pending_inputs s' = [] then (Some (Inr ()), s', out') else flush_loop tss s' out'
      | r \<Rightarrow> r)"

definition mft_flush :: "bool \<Rightarrow> event_turn list list \<Rightarrow> mft_encoder \<Rightarrow>
    (mf_error + unit) option \<times> mft_encoder \<times> EncodedPacket list" where
  "mft_flush drain_ok tss s = (if drain_ok then flush_loop tss s [] else (Some (Inl DrainFailed), s, []))"

section \<open>Requests and inputs\<close>

text \<open>How many requests for input a list of turns holds, up to the end of the loop.\<close>

definition requests :: "event_turn list \<Rightarrow> nat" where
  "requests ts = length (filter (\<lambda>t. et_event t = Event NeedInput) ts)"

text \<open>The requests that meet an empty queue: they are taken from the transform and answered with nothing.\<close>

fun unanswered :: "event_turn list \<Rightarrow> nat \<Rightarrow> nat" where
  "unanswered [] pending = 0"
| "unanswered (t # ts) pending =
     (if et_event t = Event NeedInput
      then (case pending of 0 \<Rightarrow> Suc (unanswered ts 0) | Suc n \<Rightarrow> unanswered ts n)
      else unanswered ts pending)"

text \<open>The turns up to the first time no event is there.\<close>

definition seen :: "event_turn list \<Rightarrow> event_turn list" where
  "seen ts = takeWhile (\<lambda>t. et_event t \<noteq> NoEvents) ts"

lemma requests_simps [simp]:
  "requests [] = 0"
  "requests (t # ts) = (if et_event t = Event NeedInput then Suc (requests ts) else requests ts)"
  "requests (ts @ us) = requests ts + requests us"
  by (simp_all add: requests_def)

lemma unanswered_requests: "unanswered ts p + min (requests ts) p = requests ts"
proof (induction ts arbitrary: p)
  case (Cons t ts)
  from Cons.IH [of 0] Cons.IH [of p] Cons.IH [of "p - 1"] show ?case by (cases p) simp_all
qed simp

text \<open>The loop takes the queue from the front, one sample for each request as long as there is one.\<close>

lemma drain_events_queue:
  "drain_events ts s out = (Some (Inr ()), s', out') \<Longrightarrow>
    ne_pending_inputs s' = drop (requests (seen ts)) (ne_pending_inputs s)
    \<and> ne_given s' = ne_given s @ take (requests (seen ts)) (ne_pending_inputs s)
    \<and> ne_pending_keyframe s' = ne_pending_keyframe s \<and> ne_config s' = ne_config s"
proof (induction ts arbitrary: s out)
  case (Cons t ts)
  show ?case
  proof (cases "et_event t")
    case (Event e)
    show ?thesis
    proof (cases e)
      case NeedInput
      show ?thesis
      proof (cases "ne_pending_inputs s")
        case Nil
        with Event NeedInput Cons.prems Cons.IH [of s out] show ?thesis by (simp add: seen_def)
      next
        case p: (Cons smp rest)
        with Event NeedInput Cons.prems
          Cons.IH [of "s\<lparr>ne_pending_inputs := rest, ne_given := ne_given s @ [smp]\<rparr>" out]
        show ?thesis by (simp add: seen_def Let_def split: if_splits)
      qed
    next
      case HaveOutput
      from Event HaveOutput Cons.prems obtain pkt where "drain_events ts s (out @ [pkt]) = (Some (Inr ()), s', out')"
        by (auto split: sum.splits)
      from Cons.IH [OF this] Event HaveOutput show ?thesis by (simp add: seen_def)
    next
      case OtherEvent
      with Event Cons.prems Cons.IH [of s out] show ?thesis by (simp add: seen_def)
    qed
  next
    case NoEvents
    with Cons.prems show ?thesis by (simp add: seen_def)
  next
    case EventError
    with Cons.prems show ?thesis by simp
  qed
qed simp

definition frame_time :: "CapturedFrame \<Rightarrow> 64 word" where
  "frame_time f = word_of_nat (cf_pts f div 100)"

lemma make_sample_Inr:
  "make_sample cfg io f nv12 kf = (Inr smp, kf') \<Longrightarrow> is_time smp = frame_time f \<and> is_clean smp = kf \<and> is_data smp = nv12 \<and> \<not> kf'"
  by (auto simp: make_sample_def frame_time_def split: if_splits)

lemma mft_encode_queue:
  assumes "mft_encode convolve io f s = (Some (Inr ()), s', out)"
  shows "\<exists>smp. is_time smp = frame_time f \<and> is_clean smp = ne_pending_keyframe s \<and> \<not> ne_pending_keyframe s'
    \<and> ne_pending_inputs s' = drop (requests (seen (mx_turns io))) (ne_pending_inputs s @ [smp])
    \<and> ne_given s' = ne_given s @ take (requests (seen (mx_turns io))) (ne_pending_inputs s @ [smp])"
proof -
  obtain r n where n: "frame_to_nv12 convolve f (ec_width (ne_config s)) (ec_height (ne_config s)) (ne_nv12 s) = (r, n)"
    by fastforce
  obtain q kf where m: "make_sample (ne_config s) (mx_prepare io) f (ns_nv12 n) (ne_pending_keyframe s) = (q, kf)"
    by fastforce
  from assms n m obtain smp where q: "q = Inr smp" and d: "drain_events (mx_turns io) (s\<lparr>ne_nv12 := n,
      ne_pending_keyframe := kf, ne_pending_inputs := ne_pending_inputs s @ [smp]\<rparr>) [] = (Some (Inr ()), s', out)"
    by (auto simp: mft_encode_def Let_def split: if_splits sum.splits)
  from drain_events_queue [OF d] make_sample_Inr [OF m [unfolded q]] show ?thesis by (intro exI [of _ smp]) simp
qed

section \<open>Feeding frames\<close>

text \<open>A run of encode calls that all succeed.\<close>

fun mft_feed :: "convolve \<Rightarrow> (mft_io \<times> CapturedFrame) list \<Rightarrow> mft_encoder \<Rightarrow> mft_encoder option" where
  "mft_feed convolve [] s = Some s"
| "mft_feed convolve ((io, f) # calls) s =
     (case mft_encode convolve io f s of (Some (Inr u), s', out) \<Rightarrow> mft_feed convolve calls s' | _ \<Rightarrow> None)"

definition call_turns :: "mft_io \<times> CapturedFrame \<Rightarrow> event_turn list" where
  "call_turns c = seen (mx_turns (fst c))"

fun lost_requests :: "event_turn list list \<Rightarrow> nat \<Rightarrow> nat" where
  "lost_requests [] pending = 0"
| "lost_requests (ts # tss) pending = unanswered ts (Suc pending) + lost_requests tss (Suc pending - requests ts)"

text \<open>
  The documented contract of an asynchronous transform of a given depth: it asks for at most so many
  inputs more than it was given. \<open>credit\<close> is what it may still ask for; a request that gets no sample
  is not renewed.
\<close>

fun grants :: "event_turn list \<Rightarrow> nat \<Rightarrow> nat \<Rightarrow> bool" where
  "grants [] pending credit = True"
| "grants (t # ts) pending credit =
     (if et_event t = Event NeedInput
      then credit > 0 \<and> (case pending of 0 \<Rightarrow> grants ts 0 (credit - 1) | Suc n \<Rightarrow> grants ts n credit)
      else grants ts pending credit)"

fun obeys :: "nat \<Rightarrow> event_turn list list \<Rightarrow> nat \<Rightarrow> bool" where
  "obeys credit [] pending = True"
| "obeys credit (ts # tss) pending = (grants ts (Suc pending) credit
     \<and> obeys (credit - unanswered ts (Suc pending)) tss (Suc pending - requests ts))"

lemma mft_feed_append:
  "mft_feed convolve (xs @ ys) s = (case mft_feed convolve xs s of None \<Rightarrow> None | Some s' \<Rightarrow> mft_feed convolve ys s')"
  by (induction xs arbitrary: s) (auto split: prod.splits option.splits sum.splits)

lemma mft_feed_Cons:
  assumes "mft_feed convolve ((io, f) # calls) s = Some s'"
  obtains s1 out where "mft_encode convolve io f s = (Some (Inr ()), s1, out)" "mft_feed convolve calls s1 = Some s'"
  using assms by (auto split: prod.splits option.splits sum.splits)

lemma mft_feed_queue:
  "mft_feed convolve calls s = Some s' \<Longrightarrow>
    map is_time (ne_given s' @ ne_pending_inputs s') = map is_time (ne_given s @ ne_pending_inputs s) @ map (frame_time \<circ> snd) calls
    \<and> length (ne_given s') + lost_requests (map call_turns calls) (length (ne_pending_inputs s))
        = length (ne_given s) + sum_list (map (requests \<circ> call_turns) calls)"
proof (induction calls arbitrary: s)
  case Nil
  then show ?case by simp
next
  case (Cons c calls)
  obtain io f where c: "c = (io, f)" by fastforce
  obtain s1 out where e: "mft_encode convolve io f s = (Some (Inr ()), s1, out)"
    and rest: "mft_feed convolve calls s1 = Some s'" by (rule mft_feed_Cons [OF Cons.prems(1) [unfolded c]])
  obtain smp where q: "is_time smp = frame_time f"
    "ne_pending_inputs s1 = drop (requests (seen (mx_turns io))) (ne_pending_inputs s @ [smp])"
    "ne_given s1 = ne_given s @ take (requests (seen (mx_turns io))) (ne_pending_inputs s @ [smp])"
    using mft_encode_queue [OF e] by blast
  have "ne_given s1 @ ne_pending_inputs s1 = ne_given s @ ne_pending_inputs s @ [smp]"
    unfolding q(2,3) by (metis append.assoc append_take_drop_id)
  then have order: "map is_time (ne_given s1 @ ne_pending_inputs s1) = map is_time (ne_given s @ ne_pending_inputs s) @ [frame_time f]"
    by (simp add: q(1))
  have n: "length (ne_pending_inputs s1) = Suc (length (ne_pending_inputs s)) - requests (call_turns c)"
    by (simp add: q(2) c call_turns_def)
  have g: "length (ne_given s1) = length (ne_given s) + min (requests (call_turns c)) (Suc (length (ne_pending_inputs s)))"
    by (simp add: q(3) c call_turns_def min.commute)
  from Cons.IH [OF rest] order n g unanswered_requests [of "call_turns c" "Suc (length (ne_pending_inputs s))"]
  show ?case by (simp add: c)
qed

lemma no_credit: "grants ts p 0 \<Longrightarrow> requests ts = 0"
  by (induction ts arbitrary: p) (auto split: if_splits)

lemma starved:
  "mft_feed convolve calls s = Some s' \<Longrightarrow> obeys 0 (map call_turns calls) p \<Longrightarrow>
    ne_given s' = ne_given s \<and> map is_time (ne_pending_inputs s') = map is_time (ne_pending_inputs s) @ map (frame_time \<circ> snd) calls"
proof (induction calls arbitrary: s p)
  case Nil
  then show ?case by simp
next
  case (Cons c calls)
  obtain io f where c: "c = (io, f)" by fastforce
  obtain s1 out where e: "mft_encode convolve io f s = (Some (Inr ()), s1, out)"
    and rest: "mft_feed convolve calls s1 = Some s'" by (rule mft_feed_Cons [OF Cons.prems(1) [unfolded c]])
  have r: "requests (seen (mx_turns io)) = 0" using Cons.prems(2) no_credit by (auto simp: c call_turns_def)
  obtain smp where "is_time smp = frame_time f" "ne_pending_inputs s1 = ne_pending_inputs s @ [smp]" "ne_given s1 = ne_given s"
    using mft_encode_queue [OF e] r by auto
  moreover have "obeys 0 (map call_turns calls) (Suc p - requests (call_turns c))" using Cons.prems(2) by simp
  ultimately show ?case using Cons.IH [OF rest] by (simp add: c)
qed

lemma obeys_append:
  "obeys credit (xs @ ys) p \<Longrightarrow> \<exists>p'. obeys (credit - lost_requests xs p) ys p'"
proof (induction xs arbitrary: credit p)
  case Nil
  then show ?case by auto
next
  case (Cons ts xs)
  then show ?case
    using Cons.IH [of "credit - unanswered ts (Suc p)" "Suc p - requests ts"] by simp
qed

section \<open>A small example\<close>

text \<open>A picture of two by two pixels, and an encoder for it.\<close>

definition demo_frame :: "nat \<Rightarrow> CapturedFrame" where
  "demo_frame pts = \<lparr> cf_width = 2, cf_height = 2, cf_stride = 8, cf_format = Bgra8, cf_pts = pts, cf_pixels = replicate 16 0 \<rparr>"

definition demo_config :: EncoderConfig where
  "demo_config = \<lparr> ec_width = 2, ec_height = 2, ec_fps = 30, ec_bitrate_kbps = 1000, ec_keyframe_interval_frames = 30,
     ec_profile = High \<rparr>"

definition demo_turn :: "event_answer \<Rightarrow> event_turn" where
  "demo_turn e = \<lparr> et_event = e, et_process_ok = True, et_output = NeedMoreInput \<rparr>"

definition demo_call :: "event_answer list \<Rightarrow> nat \<Rightarrow> mft_io \<times> CapturedFrame" where
  "demo_call es pts = (\<lparr> mx_prepare = \<lparr> pi_prepare_ok = True, pi_flag_ok = True \<rparr>,
     mx_turns = map demo_turn (es @ [NoEvents]) \<rparr>, demo_frame pts)"

lemma demo_nv12:
  assumes "length out = 6"
  shows "\<exists>out'. bgra_to_nv12 (replicate 16 0) 8 2 2 out = Some out' \<and> length out' = 6"
proof -
  have "length (concat (map (y_line (replicate 16 0) 8 2) [0..<2])) = 2 * 2" by (rule concat_length_same) (simp add: line_lengths)
  moreover have "length (concat (map (\<lambda>j. uv_line (replicate 16 0) 8 2 (2 * j)) [0..<1])) = 1 * 2"
    by (rule concat_length_same) (simp add: line_lengths)
  ultimately show ?thesis using nv12_planes [of 2 2 8 "replicate 16 0" out] assms by simp
qed

lemma demo_step:
  assumes "ne_config s = demo_config" "length (ns_nv12 (ne_nv12 s)) = 6"
  shows "\<exists>n smp. length (ns_nv12 n) = 6 \<and> mft_encode convolve (fst (demo_call es pts)) (snd (demo_call es pts)) s =
    drain_events (map demo_turn (es @ [NoEvents]))
      (s\<lparr>ne_nv12 := n, ne_pending_keyframe := False, ne_pending_inputs := ne_pending_inputs s @ [smp]\<rparr>) []"
proof -
  obtain out where "bgra_to_nv12 (replicate 16 0) 8 2 2 (ns_nv12 (ne_nv12 s)) = Some out" "length out = 6"
    using demo_nv12 [OF assms(2)] by blast
  with assms(1) show ?thesis
    by (intro exI [of _ "(ne_nv12 s)\<lparr>ns_nv12 := out\<rparr>"])
      (simp add: mft_encode_def demo_call_def demo_frame_def demo_config_def frame_to_nv12_def make_sample_def Let_def, blast)
qed

text \<open>One slot: the second request of the first call finds nothing queued.\<close>

lemma demo_feed:
  "\<exists>s. mft_feed convolve [demo_call [Event NeedInput, Event NeedInput] 0, demo_call [] 33] (new_with_codec demo_config NcH264) = Some s"
proof -
  let ?s0 = "new_with_codec demo_config NcH264"
  have 0: "ne_config ?s0 = demo_config" "length (ns_nv12 (ne_nv12 ?s0)) = 6" "ne_pending_inputs ?s0 = []"
    by (simp_all add: new_with_codec_def demo_config_def)
  obtain n smp where n: "length (ns_nv12 n) = 6" and e: "mft_encode convolve (fst (demo_call [Event NeedInput, Event NeedInput] 0))
      (snd (demo_call [Event NeedInput, Event NeedInput] 0)) ?s0 = drain_events (map demo_turn ([Event NeedInput, Event NeedInput] @ [NoEvents]))
      (?s0\<lparr>ne_nv12 := n, ne_pending_keyframe := False, ne_pending_inputs := ne_pending_inputs ?s0 @ [smp]\<rparr>) []"
    using demo_step [OF 0(1,2), of convolve "[Event NeedInput, Event NeedInput]" 0] by blast
  define s1 where "s1 = ?s0\<lparr>ne_nv12 := n, ne_pending_keyframe := False, ne_pending_inputs := [], ne_given := ne_given ?s0 @ [smp]\<rparr>"
  have e1: "mft_encode convolve (fst (demo_call [Event NeedInput, Event NeedInput] 0))
      (snd (demo_call [Event NeedInput, Event NeedInput] 0)) ?s0 = (Some (Inr ()), s1, [])"
    unfolding e by (simp add: 0 demo_turn_def s1_def)
  have s1: "ne_config s1 = demo_config" "length (ns_nv12 (ne_nv12 s1)) = 6" by (simp_all add: s1_def 0 n)
  obtain n' smp' where "mft_encode convolve (fst (demo_call [] 33)) (snd (demo_call [] 33)) s1 =
      drain_events (map demo_turn ([] @ [NoEvents]))
      (s1\<lparr>ne_nv12 := n', ne_pending_keyframe := False, ne_pending_inputs := ne_pending_inputs s1 @ [smp']\<rparr>) []"
    using demo_step [OF s1, of convolve "[]" 33] by blast
  then have e2: "\<exists>s2. mft_encode convolve (fst (demo_call [] 33)) (snd (demo_call [] 33)) s1 = (Some (Inr ()), s2, [])"
    by (simp add: demo_turn_def)
  from e1 e2 show ?thesis by (auto simp: demo_call_def)
qed

lemma demo_turns: "call_turns (demo_call es pts) = takeWhile (\<lambda>t. et_event t \<noteq> NoEvents) (map demo_turn (es @ [NoEvents]))"
  by (simp add: call_turns_def demo_call_def seen_def)

section \<open>Properties\<close>



text \<open>
  A request of the hardware transform that finds the queue empty is lost: once as many requests were
  lost as the transform has input slots, every later frame stays in the queue and none reaches the
  transform, for as long as the transform keeps its contract not to ask for more than its slots.
\<close>

theorem mft_starvation:
  assumes run: "mft_feed convolve (calls @ later) (new_with_codec cfg cd) = Some s"
    and contract: "obeys depth (map call_turns (calls @ later)) 0"
    and lost: "lost_requests (map call_turns calls) 0 = depth"
  shows "\<exists>waiting. map is_time (ne_pending_inputs s) = waiting @ map (frame_time \<circ> snd) later
    \<and> length (ne_given s) \<le> length calls"
proof -
  obtain s1 where s1: "mft_feed convolve calls (new_with_codec cfg cd) = Some s1" and s: "mft_feed convolve later s1 = Some s"
    using run by (auto simp: mft_feed_append split: option.splits)
  obtain p where "obeys 0 (map call_turns later) p"
    using obeys_append [of depth "map call_turns calls" "map call_turns later" 0] contract lost by auto
  from starved [OF s this] have *: "ne_given s = ne_given s1"
    "map is_time (ne_pending_inputs s) = map is_time (ne_pending_inputs s1) @ map (frame_time \<circ> snd) later" by simp_all
  have "length (map is_time (ne_given s1 @ ne_pending_inputs s1)) = length calls"
    using mft_feed_queue [OF s1] by (simp add: new_with_codec_def del: map_append)
  with * show ?thesis by auto
qed

lemma mft_starvation_witness:
  "\<exists>s. mft_feed (\<lambda>a b c d e f. None) ([demo_call [Event NeedInput, Event NeedInput] 0] @ [demo_call [] 33])
      (new_with_codec demo_config NcH264) = Some s \<and> ne_pending_inputs s \<noteq> []"
proof -
  obtain s where s: "mft_feed (\<lambda>a b c d e f. None) ([demo_call [Event NeedInput, Event NeedInput] 0] @ [demo_call [] 33])
      (new_with_codec demo_config NcH264) = Some s" using demo_feed by auto
  have "\<exists>waiting. map is_time (ne_pending_inputs s) = waiting @ map (frame_time \<circ> snd) [demo_call [] 33]
      \<and> length (ne_given s) \<le> length [demo_call [Event NeedInput, Event NeedInput] 0]"
    by (rule mft_starvation [OF s, of 1]) (simp_all add: demo_turns demo_turn_def)
  with s show ?thesis by auto
qed

end
