(* ===== verification/Nvenc_Sdk.thy ===== *)
theory Nvenc_Sdk
  imports Mft_Encoder
begin

text \<open>
  The direct NVENC encoder (\<^verbatim>\<open>server-pc/src/encoder/nvenc_sdk.rs\<close>): how a session is opened, how
  one picture goes through it, how it is flushed and closed. The driver's answers are arguments; each
  operation returns the calls it made, in order, so that what it holds can be read off the trace.
\<close>

section \<open>Calls\<close>

datatype nv_status = NvSuccess | NvNeedMoreInput | NvFailure u32

datatype wait_answer = WaitObject0 | WaitFailed | WaitTimedOut

datatype pic_type = PicP | PicB | PicI | PicIdr | PicOther

record nv_settings =
  nvs_gop_length :: u32
  nvs_frame_interval_p :: nat
  nvs_average_bit_rate :: u32
  nvs_vbv_buffer_size :: u32
  nvs_vbv_initial_delay :: u32
  nvs_repeat_sps_pps :: bool
  nvs_encode_width :: u32
  nvs_encode_height :: u32
  nvs_frame_rate :: u32

text \<open>The flags of a submitted picture: a forced IDR with parameter sets, or the end of the stream.\<close>

datatype pic_flags = PicNone | PicForceIdr | PicEos

datatype nv_call =
    Gpu gpu_call
  | OpenSession bool | GetPreset bool | CreateEvent bool | InitEncoder nv_settings bool | RegisterEvent bool
  | CreateTexture create_answer | RegisterResource "u32 \<times> u32" bool | CreateBitstream bool
  | MapInput bool | EncodePicture pic_flags nv_status | WaitEvent nat wait_answer | ResetEvent
  | LockBitstream bool | UnlockBitstream | UnmapInput
  | DestroyBitstream | UnregisterResource | UnregisterEvent | DestroyEncoder | CloseEvent

datatype nv_error = NvLoad | NvOpen | NvPreset | NvEvent | NvInit | NvRegisterEvent | NvTexture | NvNullTexture
  | NvRegisterResource | NvBitstream | NvCapture capture_error | NvMap | NvEncode nv_status | NvWaitFailed | NvTimeout | NvLock

section \<open>The session\<close>

text \<open>The handles say whether they are not null.\<close>

record nv_encoder =
  nv_handle :: bool
  nv_config :: EncoderConfig
  nv_input_dims :: "u32 \<times> u32"
  nv_registered_input :: bool
  nv_output_buffer :: bool
  nv_event_valid :: bool
  nv_async_mode :: bool
  nv_pending_idr :: bool
  nv_frames_submitted :: u64
  nv_first_kf_dumped :: u8

definition nv_settings_of :: "EncoderConfig \<Rightarrow> nv_settings" where
  "nv_settings_of config =
     (let avg_bps = saturating_mul (ec_bitrate_kbps config) 1000 in
      \<lparr> nvs_gop_length = ec_keyframe_interval_frames config, nvs_frame_interval_p = 1,
        nvs_average_bit_rate = avg_bps, nvs_vbv_buffer_size = avg_bps div 2, nvs_vbv_initial_delay = avg_bps div 2,
        nvs_repeat_sps_pps = True, nvs_encode_width = ec_width config, nvs_encode_height = ec_height config,
        nvs_frame_rate = ec_fps config \<rparr>)"

record nv_new_io =
  nn_load :: bool
  nn_open :: bool
  nn_preset :: bool
  nn_event :: bool
  nn_init :: bool
  nn_register_event :: bool
  nn_texture :: create_answer
  nn_register :: bool
  nn_bitstream :: bool

text \<open>A handle the driver created is not null; \<open>dims\<close> are the dimensions of the capture.\<close>

definition nv_new :: "nv_new_io \<Rightarrow> EncoderConfig \<Rightarrow> u32 \<times> u32 \<Rightarrow> (nv_error + nv_encoder) \<times> nv_call list" where
  "nv_new io config dims =
     (if \<not> nn_load io then (Inl NvLoad, [])
      else if \<not> nn_open io then (Inl NvOpen, [OpenSession False])
      else if \<not> nn_preset io then (Inl NvPreset, [OpenSession True, GetPreset False])
      else if \<not> nn_event io then (Inl NvEvent, [OpenSession True, GetPreset True, CreateEvent False])
      else let c = [OpenSession True, GetPreset True, CreateEvent True]; set = nv_settings_of config in
        if \<not> nn_init io then (Inl NvInit, c @ [InitEncoder set False])
        else if \<not> nn_register_event io then (Inl NvRegisterEvent, c @ [InitEncoder set True, RegisterEvent False])
        else let c = c @ [InitEncoder set True, RegisterEvent True, CreateTexture (nn_texture io)] in
          (case nn_texture io of
             CreateFailed \<Rightarrow> (Inl NvTexture, c)
           | CreatedNull \<Rightarrow> (Inl NvNullTexture, c)
           | Created \<Rightarrow>
               if \<not> nn_register io then (Inl NvRegisterResource, c @ [RegisterResource dims False])
               else if \<not> nn_bitstream io then (Inl NvBitstream, c @ [RegisterResource dims True, CreateBitstream False])
               else (Inr \<lparr> nv_handle = True, nv_config = config, nv_input_dims = dims, nv_registered_input = True,
                        nv_output_buffer = True, nv_event_valid = True, nv_async_mode = True, nv_pending_idr = True,
                        nv_frames_submitted = 0, nv_first_kf_dumped = 0 \<rparr>,
                     c @ [RegisterResource dims True, CreateBitstream True])))"

definition nv_force_keyframe :: "nv_encoder \<Rightarrow> nv_encoder" where
  "nv_force_keyframe s = s\<lparr>nv_pending_idr := True\<rparr>"

text \<open>One capture and encode; \<open>ni_pts\<close> is the time since the session started, in microseconds.\<close>

record nv_io =
  ni_frame :: frame_io
  ni_map_ok :: bool
  ni_submit :: nv_status
  ni_wait :: wait_answer
  ni_lock :: "(bytes \<times> pic_type) option"
  ni_pts :: nat

definition is_key :: "pic_type \<Rightarrow> bool" where
  "is_key p = (p = PicIdr \<or> p = PicI)"

definition note_keyframe :: "pic_type \<Rightarrow> nv_encoder \<Rightarrow> nv_encoder" where
  "note_keyframe p s =
     (if (nv_frames_submitted s \<le> 5 \<or> is_key p \<and> nv_first_kf_dumped s < 4) \<and> is_key p
      then s\<lparr>nv_first_kf_dumped := (if nv_first_kf_dumped s = - 1 then - 1 else nv_first_kf_dumped s + 1)\<rparr>
      else s)"

text \<open>From the wait for the output event on, the picture having been accepted.\<close>

definition nv_collect :: "nv_io \<Rightarrow> nv_encoder \<Rightarrow> (nv_error + nat) \<times> nv_encoder \<times> nv_call list \<times> EncodedPacket list" where
  "nv_collect io s =
     (if nv_async_mode s \<and> ni_wait io \<noteq> WaitObject0
      then (Inl (if ni_wait io = WaitFailed then NvWaitFailed else NvTimeout), s, [WaitEvent 1000 (ni_wait io), UnmapInput], [])
      else let c = (if nv_async_mode s then [WaitEvent 1000 WaitObject0, ResetEvent] else []) in
        (case ni_lock io of
           None \<Rightarrow> (Inl NvLock, s, c @ [LockBitstream False, UnmapInput], [])
         | Some (data, p) \<Rightarrow>
             (Inr 1, note_keyframe p s, c @ [LockBitstream True, UnlockBitstream, UnmapInput],
              [\<lparr> ep_data = data, ep_pts = ni_pts io * 1000, ep_is_keyframe = is_key p, ep_has_config = is_key p \<rparr>])))"

definition capture_and_encode :: "u32 \<Rightarrow> nv_io \<Rightarrow> DxgiCapture \<times> nv_encoder \<Rightarrow>
    (nv_error + nat) \<times> (DxgiCapture \<times> nv_encoder) \<times> nv_call list \<times> EncodedPacket list" where
  "capture_and_encode timeout_ms io st =
     (case st of (cap0, s) \<Rightarrow>
       (case next_frame_into timeout_ms (ni_frame io) cap0 of
          (Inl e, cap, gs) \<Rightarrow> (Inl (NvCapture e), (cap, s), map Gpu gs, [])
        | (Inr got, cap, gs) \<Rightarrow>
            if \<not> got then (Inr 0, (cap, s), map Gpu gs, [])
            else if \<not> ni_map_ok io then (Inl NvMap, (cap, s), map Gpu gs @ [MapInput False], [])
            else let flags = (if nv_pending_idr s then PicForceIdr else PicNone);
                     s = s\<lparr>nv_pending_idr := False, nv_frames_submitted := nv_frames_submitted s + 1\<rparr>;
                     c = map Gpu gs @ [MapInput True, EncodePicture flags (ni_submit io)] in
              (case ni_submit io of
                 NvNeedMoreInput \<Rightarrow> (Inr 0, (cap, s), c @ [UnmapInput], [])
               | NvFailure v \<Rightarrow> (Inl (NvEncode (NvFailure v)), (cap, s), c @ [UnmapInput], [])
               | NvSuccess \<Rightarrow> (let (r, s, cs, out) = nv_collect io s in (r, (cap, s), c @ cs, out)))))"

text \<open>The flush; nothing of it fails.\<close>

definition nv_flush :: "nv_io \<Rightarrow> nv_encoder \<Rightarrow> nv_call list \<times> EncodedPacket list" where
  "nv_flush io s =
     (if \<not> nv_handle s then ([], [])
      else let c = EncodePicture PicEos (ni_submit io) # (if nv_async_mode s then [WaitEvent 200 (ni_wait io), ResetEvent] else []) in
        (case ni_lock io of
           None \<Rightarrow> (c @ [LockBitstream False], [])
         | Some (data, p) \<Rightarrow>
             if data = [] then (c @ [LockBitstream True], [])
             else (c @ [LockBitstream True, UnlockBitstream],
                   [\<lparr> ep_data = data, ep_pts = ni_pts io * 1000, ep_is_keyframe = (p = PicIdr), ep_has_config = False \<rparr>])))"

definition nv_drop :: "nv_encoder \<Rightarrow> nv_call list" where
  "nv_drop s =
     (if nv_output_buffer s then [DestroyBitstream] else [])
     @ (if nv_registered_input s then [UnregisterResource] else [])
     @ (if nv_async_mode s \<and> nv_event_valid s then [UnregisterEvent] else [])
     @ (if nv_handle s then [DestroyEncoder] else [])
     @ (if nv_event_valid s then [CloseEvent] else [])"

section \<open>What is held\<close>

text \<open>The mapped input, which a picture needs; the locked bitstream; the desktop frame.\<close>

fun input_usage :: "nv_call \<Rightarrow> usage" where
  "input_usage (MapInput ok) = (if ok then Acquire else Neutral)"
| "input_usage UnmapInput = Release"
| "input_usage (EncodePicture f r) = (if f = PicEos then Neutral else Use)"
| "input_usage c = Neutral"

fun lock_usage :: "nv_call \<Rightarrow> usage" where
  "lock_usage (LockBitstream ok) = (if ok then Acquire else Neutral)"
| "lock_usage UnlockBitstream = Release"
| "lock_usage c = Neutral"

fun desktop_usage :: "nv_call \<Rightarrow> usage" where
  "desktop_usage (Gpu c) = frame_usage c"
| "desktop_usage c = Neutral"

text \<open>The five things a session is made of; while a session is open, the rest may be used.\<close>

fun session_usage :: "nv_call \<Rightarrow> usage" where
  "session_usage (OpenSession ok) = (if ok then Acquire else Neutral)"
| "session_usage DestroyEncoder = Release"
| "session_usage (Gpu c) = Neutral"
| "session_usage (CreateEvent ok) = Neutral"
| "session_usage CloseEvent = Neutral"
| "session_usage (CreateTexture a) = Neutral"
| "session_usage (WaitEvent n a) = Neutral"
| "session_usage ResetEvent = Neutral"
| "session_usage c = Use"

fun event_usage :: "nv_call \<Rightarrow> usage" where
  "event_usage (CreateEvent ok) = (if ok then Acquire else Neutral)"
| "event_usage CloseEvent = Release"
| "event_usage (RegisterEvent ok) = Use"
| "event_usage (WaitEvent n a) = Use"
| "event_usage ResetEvent = Use"
| "event_usage UnregisterEvent = Use"
| "event_usage c = Neutral"

fun registration_usage :: "nv_call \<Rightarrow> usage" where
  "registration_usage (RegisterEvent ok) = (if ok then Acquire else Neutral)"
| "registration_usage UnregisterEvent = Release"
| "registration_usage c = Neutral"

fun resource_usage :: "nv_call \<Rightarrow> usage" where
  "resource_usage (RegisterResource d ok) = (if ok then Acquire else Neutral)"
| "resource_usage UnregisterResource = Release"
| "resource_usage (MapInput ok) = Use"
| "resource_usage c = Neutral"

fun bitstream_usage :: "nv_call \<Rightarrow> usage" where
  "bitstream_usage (CreateBitstream ok) = (if ok then Acquire else Neutral)"
| "bitstream_usage DestroyBitstream = Release"
| "bitstream_usage (LockBitstream ok) = Use"
| "bitstream_usage c = Neutral"

lemma bracket_Gpu:
  "bracket desktop_usage h (map Gpu gs) = bracket frame_usage h gs"
  "bracket input_usage h (map Gpu gs) = Some h" "bracket lock_usage h (map Gpu gs) = Some h"
  "bracket session_usage h (map Gpu gs) = Some h" "bracket event_usage h (map Gpu gs) = Some h"
  "bracket registration_usage h (map Gpu gs) = Some h" "bracket resource_usage h (map Gpu gs) = Some h"
  "bracket bitstream_usage h (map Gpu gs) = Some h"
  by (induction gs arbitrary: h) (simp_all split: usage.split)

definition encode_step :: "u32 \<times> nv_io \<Rightarrow> DxgiCapture \<times> nv_encoder \<Rightarrow> (DxgiCapture \<times> nv_encoder) \<times> nv_call list" where
  "encode_step op st = (case capture_and_encode (fst op) (snd op) st of (r, st', cs, out) \<Rightarrow> (st', cs))"

lemma encode_calls:
  assumes "encode_step op st = (st', cs)"
  shows "bracket input_usage False cs = Some False" "bracket lock_usage False cs = Some False"
    "bracket desktop_usage (dx_holding_frame (fst st)) cs = Some (dx_holding_frame (fst st'))"
    "bracket session_usage True cs = Some True" "bracket event_usage True cs = Some True"
    "bracket registration_usage h cs = Some h" "bracket resource_usage True cs = Some True"
    "bracket bitstream_usage True cs = Some True"
    "nv_output_buffer (snd st') = nv_output_buffer (snd st)" "nv_registered_input (snd st') = nv_registered_input (snd st)"
    "nv_async_mode (snd st') = nv_async_mode (snd st)" "nv_event_valid (snd st') = nv_event_valid (snd st)"
    "nv_handle (snd st') = nv_handle (snd st)"
proof -
  obtain cap s where st: "st = (cap, s)" by fastforce
  obtain g cap' gs where n: "next_frame_into (fst op) (ni_frame (snd op)) cap = (g, cap', gs)" by (metis prod_cases3)
  note d = into_bracket(1) [OF n]
  let ?P = "\<lambda>st' cs. bracket input_usage False cs = Some False \<and> bracket lock_usage False cs = Some False
    \<and> bracket desktop_usage (dx_holding_frame cap) cs = Some (dx_holding_frame (fst st'))
    \<and> bracket session_usage True cs = Some True \<and> bracket event_usage True cs = Some True
    \<and> bracket registration_usage h cs = Some h \<and> bracket resource_usage True cs = Some True
    \<and> bracket bitstream_usage True cs = Some True
    \<and> nv_output_buffer (snd st') = nv_output_buffer s \<and> nv_registered_input (snd st') = nv_registered_input s
    \<and> nv_async_mode (snd st') = nv_async_mode s \<and> nv_event_valid (snd st') = nv_event_valid s
    \<and> nv_handle (snd st') = nv_handle s"
  have "?P st' cs"
  proof (cases "g = Inr True \<and> ni_map_ok (snd op) \<and> ni_submit (snd op) = NvSuccess")
    case True
    with assms st n d show ?thesis
      by (cases "ni_lock (snd op)") (auto simp: encode_step_def capture_and_encode_def nv_collect_def note_keyframe_def
          Let_def bracket_Gpu split: if_splits)
  next
    case False
    with assms st n d show ?thesis
      by (cases g; cases "ni_submit (snd op)") (auto simp: encode_step_def capture_and_encode_def Let_def bracket_Gpu split: if_splits)
  qed
  then show "bracket input_usage False cs = Some False" "bracket lock_usage False cs = Some False"
    "bracket desktop_usage (dx_holding_frame (fst st)) cs = Some (dx_holding_frame (fst st'))"
    "bracket session_usage True cs = Some True" "bracket event_usage True cs = Some True"
    "bracket registration_usage h cs = Some h" "bracket resource_usage True cs = Some True"
    "bracket bitstream_usage True cs = Some True"
    "nv_output_buffer (snd st') = nv_output_buffer (snd st)" "nv_registered_input (snd st') = nv_registered_input (snd st)"
    "nv_async_mode (snd st') = nv_async_mode (snd st)" "nv_event_valid (snd st') = nv_event_valid (snd st)"
    "nv_handle (snd st') = nv_handle (snd st)"
    by (simp_all add: st)
qed

interpretation inputs: device encode_step "\<lambda>st. False" input_usage
  by unfold_locales (rule encode_calls(1))

interpretation locks: device encode_step "\<lambda>st. False" lock_usage
  by unfold_locales (rule encode_calls(2))

interpretation desktop: device encode_step "\<lambda>st. dx_holding_frame (fst st)" desktop_usage
  by unfold_locales (rule encode_calls(3))

interpretation sessions: device encode_step "\<lambda>st. True" session_usage
  by unfold_locales (rule encode_calls(4))

interpretation events: device encode_step "\<lambda>st. True" event_usage
  by unfold_locales (rule encode_calls(5))

interpretation registrations: device encode_step "\<lambda>st. True" registration_usage
  by unfold_locales (rule encode_calls(6))

interpretation resources: device encode_step "\<lambda>st. True" resource_usage
  by unfold_locales (rule encode_calls(7))

interpretation bitstreams: device encode_step "\<lambda>st. True" bitstream_usage
  by unfold_locales (rule encode_calls(8))

lemma run_handles:
  "device_run encode_step ops st = (st', cs) \<Longrightarrow> nv_drop (snd st') = nv_drop (snd st)"
proof (induction ops arbitrary: st cs)
  case (Cons op ops)
  obtain st1 c1 where 1: "encode_step op st = (st1, c1)" by fastforce
  obtain st2 c2 where 2: "device_run encode_step ops st1 = (st2, c2)" by fastforce
  from Cons.prems 1 2 have "device_run encode_step ops st1 = (st', c2)" by simp
  from Cons.IH [OF this] encode_calls(9-13) [OF 1] show ?case by (simp add: nv_drop_def)
qed simp

lemma new_handles: "nv_new io config dims = (Inr s, cs) \<Longrightarrow>
    nv_drop s = [DestroyBitstream, UnregisterResource, UnregisterEvent, DestroyEncoder, CloseEvent]"
  by (auto simp: nv_new_def nv_drop_def Let_def split: if_splits create_answer.splits)

lemma new_calls: "nv_new io config dims = (Inr s, cs) \<Longrightarrow>
    cs = [OpenSession True, GetPreset True, CreateEvent True, InitEncoder (nv_settings_of config) True, RegisterEvent True,
      CreateTexture Created, RegisterResource dims True, CreateBitstream True]"
  by (auto simp: nv_new_def Let_def split: if_splits create_answer.splits)

text \<open>The flush locks the bitstream without unlocking it when the encoder had nothing left.\<close>

lemma flush_keeps_lock:
  "nv_handle s \<Longrightarrow> ni_lock io = Some ([], p) \<Longrightarrow> bracket lock_usage False (fst (nv_flush io s)) = Some True"
  by (simp add: nv_flush_def)

text \<open>A forced key frame reaches the next picture that is submitted, and only that one.\<close>

lemma idr_next:
  assumes "capture_and_encode t io (cap, s) = (r, (cap', s'), cs, out)" "EncodePicture f v \<in> set cs"
  shows "f = (if nv_pending_idr s then PicForceIdr else PicNone)" "\<not> nv_pending_idr s'"
  using assms by (auto simp: capture_and_encode_def nv_collect_def note_keyframe_def Let_def
      split: if_splits prod.splits sum.splits nv_status.splits option.splits)

section \<open>Properties\<close>


text \<open>
  An encoder that came up is taken down completely: from its construction over any sequence of
  calls to its drop, the session, the event and its registration, the registered texture and the
  bitstream buffer are each acquired once, used only in between, and released in an order in which none
  is used after its release. A construction that fails after the session was opened, however, leaves
  the session open: nothing of it is released.
\<close>

theorem nvenc_session_lifecycle:
  "case nv_new io config dims of
     (Inl e, cs) \<Rightarrow> bracket session_usage False cs = Some (nn_load io \<and> nn_open io)
   | (Inr s, cs) \<Rightarrow>
       (case device_run encode_step ops (cap, s) of (st, ds) \<Rightarrow>
          list_all (\<lambda>u. bracket u False (cs @ ds @ nv_drop (snd st)) = Some False)
            [session_usage, event_usage, registration_usage, resource_usage, bitstream_usage])"
proof (cases "nv_new io config dims")
  case (Pair r cs)
  show ?thesis
  proof (cases r)
    case (Inl e)
    with Pair show ?thesis by (auto simp: nv_new_def Let_def split: if_splits create_answer.splits)
  next
    case (Inr s)
    note new = Pair [unfolded Inr]
    obtain st ds where d: "device_run encode_step ops (cap, s) = (st, ds)" by fastforce
    have "nv_drop (snd st) = [DestroyBitstream, UnregisterResource, UnregisterEvent, DestroyEncoder, CloseEvent]"
      using run_handles [OF d] new_handles [OF new] by simp
    with new_calls [OF new] show ?thesis
      using Pair Inr d sessions.run_bracket [OF d] events.run_bracket [OF d] registrations.run_bracket [OF d]
        resources.run_bracket [OF d] bitstreams.run_bracket [OF d] by simp
  qed
qed

end
