(* ===== verification/Media_Loops.thy ===== *)
theory Media_Loops
  imports Nvenc_Sdk
begin

text \<open>
  The two worker threads of a stream: \<^verbatim>\<open>run_video_loop\<close> and \<^verbatim>\<open>run_audio_loop\<close> of
  \<^verbatim>\<open>server-pc/src/stream.rs\<close>, with the loopback reader of \<^verbatim>\<open>audio/capture.rs\<close> and the
  Opus wrapper of \<^verbatim>\<open>audio/encoder.rs\<close>. Times are in nanoseconds; the clock, the driver and the
  receiver of the packet queue are arguments, one record for each turn of a loop. The logging of
  statistics is left out.
\<close>

section \<open>The video loop\<close>

text \<open>The encoder of a stream: one of the two Media Foundation encoders, or the direct one.\<close>

datatype slot = SlotMf mf_encoder | SlotMft mft_encoder | SlotSdk nv_encoder

fun slot_force_keyframe :: "slot \<Rightarrow> slot" where
  "slot_force_keyframe (SlotMf e) = SlotMf (mf_force_keyframe e)"
| "slot_force_keyframe (SlotMft e) = SlotMft (mft_force_keyframe e)"
| "slot_force_keyframe (SlotSdk e) = SlotSdk (nv_force_keyframe e)"

record video_turn =
  vt_stop :: bool
  vt_now :: nat                    \<comment> \<open>the clock at the gate\<close>
  vt_force :: bool                 \<comment> \<open>what the swap of the force flag returned\<close>
  vt_frame :: frame_io
  vt_mf :: mf_io
  vt_mft :: mft_io
  vt_nv :: nv_io
  vt_after :: nat                  \<comment> \<open>the clock after a successful capture\<close>
  vt_pts_us :: "nat list"          \<comment> \<open>the time of each packet, in microseconds\<close>
  vt_send_ok :: "bool list"

record video_state =
  vs_capture :: DxgiCapture
  vs_slot :: slot
  vs_idle_strikes :: u32
  vs_next_due :: nat
  vs_sent :: "bytes list"
  vs_captured :: "nat list"        \<comment> \<open>when frames were captured, for the record\<close>

datatype turn_end = Continues | StopRequested | ConsumerGone | CaptureStopped | EncoderStopped | StillEncoding

definition early_margin :: nat where "early_margin = 2000000"

definition add_strike :: "slot \<Rightarrow> u32 \<Rightarrow> slot \<times> u32" where
  "add_strike e idle =
     (let idle = (if idle = - 1 then - 1 else idle + 1)
      in if idle \<ge> 30 then (slot_force_keyframe e, 0) else (e, idle))"

text \<open>
  One capture and encode: whether it ended the loop, whether a frame was consumed, and the packets. An
  encoder whose output loop does not come to an end leaves the thread in it.
\<close>

definition encode_frame :: "convolve \<Rightarrow> video_turn \<Rightarrow> CapturedFrame \<Rightarrow> slot \<Rightarrow> (mf_error + unit) option \<times> slot \<times> EncodedPacket list" where
  "encode_frame convolve t frame e =
     (case e of
        SlotMf m \<Rightarrow> (let (r, m', out) = mf_encode convolve (vt_mf t) frame m in (r, SlotMf m', out))
      | SlotMft m \<Rightarrow> (let (r, m', out) = mft_encode convolve (vt_mft t) frame m in (r, SlotMft m', out))
      | SlotSdk m \<Rightarrow> (None, SlotSdk m, []))"

definition capture_turn :: "convolve \<Rightarrow> video_turn \<Rightarrow> DxgiCapture \<Rightarrow> slot \<Rightarrow> u32 \<Rightarrow>
    turn_end \<times> bool \<times> DxgiCapture \<times> slot \<times> u32 \<times> EncodedPacket list" where
  "capture_turn convolve t cap e idle =
     (case e of
        SlotSdk m \<Rightarrow>
          (case capture_and_encode 100 (vt_nv t) (cap, m) of
             (Inl err, (cap, m), cs, out) \<Rightarrow> (EncoderStopped, False, cap, SlotSdk m, idle, [])
           | (Inr n, (cap, m), cs, out) \<Rightarrow>
               if n = 0 then (let (e, idle) = add_strike (SlotSdk m) idle in (Continues, False, cap, e, idle, []))
               else (Continues, True, cap, SlotSdk m, 0, out))
      | _ \<Rightarrow>
          (case next_frame 100 (vt_frame t) cap of
             (Inl err, cap, cs) \<Rightarrow> (CaptureStopped, False, cap, e, idle, [])
           | (Inr None, cap, cs) \<Rightarrow> (let (e, idle) = add_strike e idle in (Continues, False, cap, e, idle, []))
           | (Inr (Some frame), cap, cs) \<Rightarrow>
               (case encode_frame convolve t frame e of
                  (None, e, out) \<Rightarrow> (StillEncoding, False, cap, e, 0, [])
                | (Some (Inl err), e, out) \<Rightarrow> (EncoderStopped, False, cap, e, 0, [])
                | (Some (Inr u), e, out) \<Rightarrow> (Continues, True, cap, e, 0, out))))"

text \<open>Sending the packets of a turn; the clock gives each its presentation time.\<close>

fun send_packets :: "EncodedPacket list \<Rightarrow> nat list \<Rightarrow> bool list \<Rightarrow> bytes list \<Rightarrow> turn_end \<times> bytes list" where
  "send_packets [] pts oks sent = (Continues, sent)"
| "send_packets (pkt # pkts) pts oks sent =
     (let pts_us = word_of_nat (min (case pts of p # ps \<Rightarrow> p | [] \<Rightarrow> 0) (2 ^ 64 - 1));
          bin = build_video_frame (ep_data pkt) pts_us (ep_is_keyframe pkt) (ep_has_config pkt)
      in if (case oks of b # bs \<Rightarrow> b | [] \<Rightarrow> True) then send_packets pkts (tl pts) (tl oks) (sent @ [bin])
         else (ConsumerGone, sent))"

definition video_step :: "convolve \<Rightarrow> nat \<Rightarrow> video_turn \<Rightarrow> video_state \<Rightarrow> turn_end \<times> video_state" where
  "video_step convolve frame_interval t s =
     (if vt_stop t then (StopRequested, s)
      else if vt_now t + early_margin < vs_next_due s then (Continues, s)
      else
        let e = (if vt_force t then slot_force_keyframe (vs_slot s) else vs_slot s) in
        (case capture_turn convolve t (vs_capture s) e (vs_idle_strikes s) of
           (end, captured, cap, e, idle, out) \<Rightarrow>
             let s = s\<lparr>vs_capture := cap, vs_slot := e, vs_idle_strikes := idle\<rparr> in
             if end \<noteq> Continues \<or> \<not> captured then (end, s)
             else
               let s = s\<lparr>vs_next_due := max (vs_next_due s + frame_interval) (vt_after t),
                         vs_captured := vs_captured s @ [vt_now t]\<rparr>;
                   (end, sent) = send_packets out (vt_pts_us t) (vt_send_ok t) (vs_sent s)
               in (end, s\<lparr>vs_sent := sent\<rparr>)))"

text \<open>The loop over as many turns as are given; the sleep at the gate is at most 20 ms.\<close>

definition gate_sleep_ms :: "nat \<Rightarrow> nat \<Rightarrow> nat" where
  "gate_sleep_ms next_due now = min ((next_due - now) div 1000000) 20"

fun run_video_loop :: "convolve \<Rightarrow> nat \<Rightarrow> video_turn list \<Rightarrow> video_state \<Rightarrow> turn_end \<times> video_state" where
  "run_video_loop convolve frame_interval [] s = (Continues, s)"
| "run_video_loop convolve frame_interval (t # ts) s =
     (case video_step convolve frame_interval t s of
        (Continues, s') \<Rightarrow> run_video_loop convolve frame_interval ts s'
      | r \<Rightarrow> r)"

definition new_video :: "DxgiCapture \<Rightarrow> slot \<Rightarrow> nat \<Rightarrow> video_state" where
  "new_video cap e now = \<lparr> vs_capture = cap, vs_slot = e, vs_idle_strikes = 0, vs_next_due = now, vs_sent = [], vs_captured = [] \<rparr>"

section \<open>The audio loop\<close>

text \<open>
  One round of the loopback reader: the size of the next packet (none: the call failed), the buffer call
  and what the packet holds, and whether releasing it worked.
\<close>

datatype audio_packet = SizeFailed | NoPacket | BufferFailed | Packet "f32 list" nat bool bool

text \<open>The fields of \<^verbatim>\<open>Packet\<close>: the samples, the number of frames, silence (or a null pointer), release.\<close>

fun read_into :: "nat \<Rightarrow> audio_packet list \<Rightarrow> f32 list \<Rightarrow> bool \<times> f32 list" where
  "read_into channels [] out = (True, out)"
| "read_into channels (p # ps) out =
     (case p of
        SizeFailed \<Rightarrow> (False, out)
      | NoPacket \<Rightarrow> (True, out)
      | BufferFailed \<Rightarrow> (False, out)
      | Packet dat frames silent release_ok \<Rightarrow>
          let n = frames * channels; out' = out @ (if silent then replicate n 0 else take n dat)
          in if release_ok then read_into channels ps out' else (False, out'))"

text \<open>The Opus wrapper: the crate writes into a buffer of 4000 bytes and returns how many.\<close>

record OpusEncoder =
  oe_out_buf :: bytes
  oe_frame_samples_per_ch :: nat

definition new_opus :: OpusEncoder where
  "new_opus = \<lparr> oe_out_buf = replicate 4000 0, oe_frame_samples_per_ch = 960 \<rparr>"

definition opus_encode :: "(f32 list \<Rightarrow> bytes \<Rightarrow> (nat \<times> bytes) option) \<Rightarrow> f32 list \<Rightarrow> OpusEncoder \<Rightarrow> bytes option \<times> OpusEncoder" where
  "opus_encode encode_float pcm e =
     (case encode_float pcm (oe_out_buf e) of None \<Rightarrow> (None, e)
      | Some (n, buf) \<Rightarrow> (Some (take n buf), e\<lparr>oe_out_buf := buf\<rparr>))"

record audio_state =
  au_encoder :: OpusEncoder
  au_pending :: "f32 list"
  au_encoded :: "f32 list list"    \<comment> \<open>the frames that went into the encoder\<close>
  au_sent :: "bytes list"

datatype audio_end = AudioGoesOn | AudioBusy | AudioStopped | AudioCaptureError | AudioEncodeError | AudioConsumerGone

text \<open>
  The inner loop takes frames off the front of the pending samples. Its answers are, for each frame, the
  crate's result, the clock and whether the send worked; \<open>AudioBusy\<close> means that they ran out before
  the samples did.
\<close>

record audio_answer =
  aa_opus :: "f32 list \<Rightarrow> bytes \<Rightarrow> (nat \<times> bytes) option"
  aa_pts_us :: nat
  aa_send_ok :: bool

fun encode_pending :: "nat \<Rightarrow> audio_answer list \<Rightarrow> audio_state \<Rightarrow> audio_end \<times> audio_state" where
  "encode_pending frame_total [] s = (if length (au_pending s) < frame_total then AudioGoesOn else AudioBusy, s)"
| "encode_pending frame_total (a # as) s =
     (if length (au_pending s) < frame_total then (AudioGoesOn, s)
      else
        let frame = take frame_total (au_pending s);
            s = s\<lparr>au_pending := drop frame_total (au_pending s), au_encoded := au_encoded s @ [frame]\<rparr>
        in (case opus_encode (aa_opus a) frame (au_encoder s) of
              (None, e) \<Rightarrow> (AudioEncodeError, s\<lparr>au_encoder := e\<rparr>)
            | (Some pkt, e) \<Rightarrow>
                let s = s\<lparr>au_encoder := e\<rparr>;
                    bin = build_audio_frame pkt (word_of_nat (min (aa_pts_us a) (2 ^ 64 - 1)))
                in if aa_send_ok a then encode_pending frame_total as (s\<lparr>au_sent := au_sent s @ [bin]\<rparr>)
                   else (AudioConsumerGone, s)))"

record audio_turn =
  at_stop :: bool
  at_packets :: "audio_packet list"
  at_answers :: "audio_answer list"

definition audio_step :: "nat \<Rightarrow> nat \<Rightarrow> audio_turn \<Rightarrow> audio_state \<Rightarrow> audio_end \<times> audio_state" where
  "audio_step channels frame_total t s =
     (if at_stop t then (AudioStopped, s)
      else (case read_into channels (at_packets t) (au_pending s) of
          (ok, pending) \<Rightarrow>
            let s = s\<lparr>au_pending := pending\<rparr> in
            if \<not> ok then (AudioCaptureError, s) else encode_pending frame_total (at_answers t) s))"

fun audio_turns :: "nat \<Rightarrow> nat \<Rightarrow> audio_turn list \<Rightarrow> audio_state \<Rightarrow> audio_end \<times> audio_state" where
  "audio_turns channels frame_total [] s = (AudioGoesOn, s)"
| "audio_turns channels frame_total (t # ts) s =
     (case audio_step channels frame_total t s of
        (AudioGoesOn, s') \<Rightarrow> audio_turns channels frame_total ts s'
      | r \<Rightarrow> r)"

definition new_audio :: audio_state where
  "new_audio = \<lparr> au_encoder = new_opus, au_pending = [], au_encoded = [], au_sent = [] \<rparr>"

text \<open>The whole worker; a device of another format ends it before the loop.\<close>

definition run_audio_loop :: "u32 \<Rightarrow> u32 \<Rightarrow> audio_turn list \<Rightarrow> audio_end \<times> audio_state" where
  "run_audio_loop cap_channels cap_sample_rate ts =
     (if cap_channels \<noteq> 2 \<or> cap_sample_rate \<noteq> 48000 then (AudioStopped, new_audio)
      else let frame_total = oe_frame_samples_per_ch new_opus * unat cap_channels
           in audio_turns (unat cap_channels) frame_total ts new_audio)"

section \<open>Samples\<close>

text \<open>The samples the reader yields in a turn.\<close>

definition read_samples :: "nat \<Rightarrow> audio_turn \<Rightarrow> f32 list" where
  "read_samples channels t = snd (read_into channels (at_packets t) [])"

lemma read_into_prefix: "read_into channels ps out = (fst (read_into channels ps []), out @ snd (read_into channels ps []))"
proof (induction ps arbitrary: out)
  case (Cons p ps)
  show ?case
  proof (cases p)
    case (Packet dat frames silent release_ok)
    then show ?thesis
      using Cons.IH [of "out @ (if silent then replicate (frames * channels) 0 else take (frames * channels) dat)"]
        Cons.IH [of "if silent then replicate (frames * channels) 0 else take (frames * channels) dat"]
      by (simp add: Let_def)
  qed simp_all
qed simp

lemma encode_pending_samples:
  "encode_pending n as s = (r, s') \<Longrightarrow> 0 < n \<Longrightarrow>
    concat (au_encoded s') @ au_pending s' = concat (au_encoded s) @ au_pending s
    \<and> (list_all (\<lambda>f. length f = n) (au_encoded s) \<longrightarrow> list_all (\<lambda>f. length f = n) (au_encoded s'))
    \<and> length (au_sent s') + length (au_encoded s) \<le> length (au_sent s) + length (au_encoded s')
    \<and> (r = AudioGoesOn \<longrightarrow> length (au_sent s') + length (au_encoded s) = length (au_sent s) + length (au_encoded s'))
    \<and> length (au_sent s) + length (au_encoded s') \<le> length (au_sent s') + length (au_encoded s) + 1
    \<and> (r = AudioGoesOn \<longrightarrow> length (au_pending s') < n)"
proof (induction as arbitrary: s)
  case (Cons a as)
  show ?case
  proof (cases "length (au_pending s) < n")
    case True
    with Cons.prems show ?thesis by simp
  next
    case False
    let ?f = "take n (au_pending s)"
    let ?s = "s\<lparr>au_pending := drop n (au_pending s), au_encoded := au_encoded s @ [?f]\<rparr>"
    obtain q e where o: "opus_encode (aa_opus a) ?f (au_encoder s) = (q, e)" by fastforce
    show ?thesis
    proof (cases "q \<noteq> None \<and> aa_send_ok a")
      case True
      then obtain pkt where q: "q = Some pkt" by auto
      let ?s2 = "?s\<lparr>au_encoder := e, au_sent := au_sent s @ [build_audio_frame pkt (word_of_nat (min (aa_pts_us a) (2 ^ 64 - 1)))]\<rparr>"
      have "encode_pending n as ?s2 = (r, s')" using Cons.prems False o q True by (simp add: Let_def)
      from Cons.IH [OF this Cons.prems(2)] False show ?thesis by (simp add: list_all_append)
    next
      case q: False
      have "s' = ?s\<lparr>au_encoder := e\<rparr> \<and> r \<noteq> AudioGoesOn"
        using Cons.prems False o q by (cases q) (auto simp: Let_def)
      with False show ?thesis by (auto simp: list_all_append)
    qed
  qed
qed (simp split: if_splits)

text \<open>The turns that were begun before the loop ended.\<close>

fun turns_begun :: "nat \<Rightarrow> nat \<Rightarrow> audio_turn list \<Rightarrow> audio_state \<Rightarrow> audio_turn list" where
  "turns_begun channels n [] s = []"
| "turns_begun channels n (t # ts) s =
     (if at_stop t then []
      else t # (case audio_step channels n t s of (AudioGoesOn, s') \<Rightarrow> turns_begun channels n ts s' | _ \<Rightarrow> []))"

lemma audio_step_samples:
  assumes "audio_step c n t s = (r, s')" "0 < n"
  shows "concat (au_encoded s') @ au_pending s' = concat (au_encoded s) @ au_pending s
      @ (if at_stop t then [] else read_samples c t)"
    and "list_all (\<lambda>f. length f = n) (au_encoded s) \<Longrightarrow> list_all (\<lambda>f. length f = n) (au_encoded s')"
    and "r = AudioGoesOn \<longrightarrow> length (au_sent s') + length (au_encoded s) = length (au_sent s) + length (au_encoded s')"
    and "length (au_sent s') + length (au_encoded s) \<le> length (au_sent s) + length (au_encoded s')"
    and "length (au_sent s) + length (au_encoded s') \<le> length (au_sent s') + length (au_encoded s) + 1"
    and "r = AudioGoesOn \<Longrightarrow> length (au_pending s') < n"
proof -
  have p: "read_into c (at_packets t) (au_pending s)
      = (fst (read_into c (at_packets t) []), au_pending s @ read_samples c t)"
    using read_into_prefix [of c "at_packets t" "au_pending s"] by (simp add: read_samples_def)
  have "s' = s \<and> at_stop t \<and> r = AudioStopped
      \<or> \<not> at_stop t \<and> s' = s\<lparr>au_pending := au_pending s @ read_samples c t\<rparr> \<and> r = AudioCaptureError
      \<or> \<not> at_stop t \<and> encode_pending n (at_answers t) (s\<lparr>au_pending := au_pending s @ read_samples c t\<rparr>) = (r, s')"
    using assms(1) p by (auto simp: audio_step_def Let_def split: if_splits)
  then consider "s' = s" "at_stop t" "r = AudioStopped"
    | "\<not> at_stop t" "s' = s\<lparr>au_pending := au_pending s @ read_samples c t\<rparr>" "r = AudioCaptureError"
    | "\<not> at_stop t" "encode_pending n (at_answers t) (s\<lparr>au_pending := au_pending s @ read_samples c t\<rparr>) = (r, s')"
    by blast
  then have "concat (au_encoded s') @ au_pending s' = concat (au_encoded s) @ au_pending s
      @ (if at_stop t then [] else read_samples c t)
    \<and> (list_all (\<lambda>f. length f = n) (au_encoded s) \<longrightarrow> list_all (\<lambda>f. length f = n) (au_encoded s'))
    \<and> (r = AudioGoesOn \<longrightarrow> length (au_sent s') + length (au_encoded s) = length (au_sent s) + length (au_encoded s'))
    \<and> length (au_sent s') + length (au_encoded s) \<le> length (au_sent s) + length (au_encoded s')
    \<and> length (au_sent s) + length (au_encoded s') \<le> length (au_sent s') + length (au_encoded s) + 1
    \<and> (r = AudioGoesOn \<longrightarrow> length (au_pending s') < n)"
  proof cases
    case 3
    from encode_pending_samples [OF 3(2) assms(2)] 3(1) show ?thesis by simp
  qed simp_all
  then show "concat (au_encoded s') @ au_pending s' = concat (au_encoded s) @ au_pending s
      @ (if at_stop t then [] else read_samples c t)"
    and "list_all (\<lambda>f. length f = n) (au_encoded s) \<Longrightarrow> list_all (\<lambda>f. length f = n) (au_encoded s')"
    and "r = AudioGoesOn \<longrightarrow> length (au_sent s') + length (au_encoded s) = length (au_sent s) + length (au_encoded s')"
    and "length (au_sent s') + length (au_encoded s) \<le> length (au_sent s) + length (au_encoded s')"
    and "length (au_sent s) + length (au_encoded s') \<le> length (au_sent s') + length (au_encoded s) + 1"
    and "r = AudioGoesOn \<Longrightarrow> length (au_pending s') < n"
    by simp_all
qed

lemma audio_turns_samples:
  assumes "0 < n"
  shows "audio_turns c n ts s = (r, s') \<Longrightarrow> list_all (\<lambda>f. length f = n) (au_encoded s) \<Longrightarrow>
    length (au_sent s) = length (au_encoded s) \<Longrightarrow> length (au_pending s) < n \<Longrightarrow>
    concat (au_encoded s') @ au_pending s' = concat (au_encoded s) @ au_pending s @ concat (map (read_samples c) (turns_begun c n ts s))
    \<and> list_all (\<lambda>f. length f = n) (au_encoded s')
    \<and> length (au_sent s') \<le> length (au_encoded s') \<and> length (au_encoded s') \<le> length (au_sent s') + 1
    \<and> (r = AudioGoesOn \<longrightarrow> length (au_pending s') < n)"
proof (induction ts arbitrary: s)
  case (Cons t ts)
  obtain q s1 where t: "audio_step c n t s = (q, s1)" by fastforce
  note a = audio_step_samples [OF t assms]
  show ?case
  proof (cases "q = AudioGoesOn")
    case True
    with Cons.prems t have "audio_turns c n ts s1 = (r, s')" by simp
    moreover have "\<not> at_stop t" using True t by (auto simp: audio_step_def)
    ultimately show ?thesis using Cons.IH [of s1] a(1) a(2) [OF Cons.prems(2)] a(3) a(6) True t Cons.prems(3) by simp
  next
    case False
    with Cons.prems t have "s' = s1" by (cases q) simp_all
    moreover have "turns_begun c n (t # ts) s = (if at_stop t then [] else [t])" using False t by (cases q) simp_all
    ultimately show ?thesis using a(1) a(2) [OF Cons.prems(2)] a(4,5) Cons.prems(1,3) False t by (cases q) simp_all
  qed
qed simp

section \<open>Pacing\<close>

text \<open>A clock that does not run backwards.\<close>

fun clock_ok :: "nat \<Rightarrow> video_turn list \<Rightarrow> bool" where
  "clock_ok now [] = True"
| "clock_ok now (t # ts) = (now \<le> vt_now t \<and> vt_now t \<le> vt_after t \<and> clock_ok (vt_after t) ts)"

definition paced :: "nat \<Rightarrow> video_state \<Rightarrow> bool" where
  "paced iv s \<longleftrightarrow>
     (\<forall>i<length (vs_captured s). vs_captured s ! i + (length (vs_captured s) - 1 - i) * iv \<le> vs_next_due s)
     \<and> (\<forall>i j. i < j \<longrightarrow> j < length (vs_captured s) \<longrightarrow> vs_captured s ! i + (j - i - 1) * iv \<le> vs_captured s ! j + early_margin)"

text \<open>A turn either leaves the pace alone, or captures a frame that was due.\<close>

lemma video_step_pace:
  assumes "video_step convolve iv t s = (r, s')"
  shows "vs_captured s' = vs_captured s \<and> vs_next_due s' = vs_next_due s
    \<or> vs_next_due s \<le> vt_now t + early_margin \<and> vs_captured s' = vs_captured s @ [vt_now t]
      \<and> vs_next_due s' = max (vs_next_due s + iv) (vt_after t)"
proof (cases "vt_stop t \<or> vt_now t + early_margin < vs_next_due s")
  case True
  with assms show ?thesis by (auto simp: video_step_def split: if_splits)
next
  case False
  obtain fin captured cap e idle out where "capture_turn convolve t (vs_capture s)
      (if vt_force t then slot_force_keyframe (vs_slot s) else vs_slot s) (vs_idle_strikes s) = (fin, captured, cap, e, idle, out)"
    by (metis prod_cases6)
  with False assms show ?thesis
    by (auto simp: video_step_def Let_def split: if_splits prod.splits)
qed

lemma video_step_paced:
  assumes "video_step convolve iv t s = (r, s')" "paced iv s" "vt_now t \<le> vt_after t"
  shows "paced iv s'"
  using video_step_pace [OF assms(1)]
proof
  assume "vs_captured s' = vs_captured s \<and> vs_next_due s' = vs_next_due s"
  with assms(2) show ?thesis by (simp add: paced_def)
next
  assume c: "vs_next_due s \<le> vt_now t + early_margin \<and> vs_captured s' = vs_captured s @ [vt_now t]
      \<and> vs_next_due s' = max (vs_next_due s + iv) (vt_after t)"
  let ?c = "vs_captured s" and ?n = "length (vs_captured s)"
  have old: "?c ! i + (?n - 1 - i) * iv \<le> vs_next_due s" if "i < ?n" for i using assms(2) that by (simp add: paced_def)
  have pair: "?c ! i + (j - i - 1) * iv \<le> ?c ! j + early_margin" if "i < j" "j < ?n" for i j
    using assms(2) that by (simp add: paced_def)
  have due: "?c ! i + (?n - i) * iv \<le> vs_next_due s + iv" if "i < ?n" for i
  proof -
    have "?n - i = Suc (?n - 1 - i)" using that by simp
    then have "(?n - i) * iv = (?n - 1 - i) * iv + iv" by simp
    with old [OF that] show ?thesis by linarith
  qed
  have "vs_captured s' ! i + (length (vs_captured s') - 1 - i) * iv \<le> vs_next_due s'" if "i < length (vs_captured s')" for i
    using that c due [of i] assms(3) by (cases "i < ?n") (auto simp: nth_append less_Suc_eq)
  moreover have "vs_captured s' ! i + (j - i - 1) * iv \<le> vs_captured s' ! j + early_margin"
    if "i < j" "j < length (vs_captured s')" for i j
    using that c pair [of i j] old [of i] by (cases "j < ?n") (auto simp: nth_append less_Suc_eq)
  ultimately show ?thesis by (simp add: paced_def)
qed

lemma video_loop_paced:
  "run_video_loop convolve iv ts s = (r, s') \<Longrightarrow> paced iv s \<Longrightarrow> clock_ok now ts \<Longrightarrow> paced iv s'"
proof (induction ts arbitrary: s now)
  case (Cons t ts)
  obtain q s1 where t: "video_step convolve iv t s = (q, s1)" by fastforce
  have p: "paced iv s1" using video_step_paced [OF t Cons.prems(2)] Cons.prems(3) by simp
  show ?case
  proof (cases "q = Continues")
    case True
    with Cons.prems t have "run_video_loop convolve iv ts s1 = (r, s')" by simp
    with Cons.IH p Cons.prems(3) show ?thesis by auto
  next
    case False
    with Cons.prems t have "s' = s1" by (cases q) simp_all
    with p show ?thesis by simp
  qed
qed simp

text \<open>Thirty turns without a new picture ask for a key frame; the counter starts over then.\<close>

lemma strikes_bounded: "idle < 30 \<Longrightarrow> snd (add_strike e idle) < 30"
  by (auto simp: add_strike_def Let_def not_le)

section \<open>Properties\<close>

text \<open>
  C36. Audio is framed without loss: on a device of the supported format, after any number of turns and
  however the loop ended, the frames that went into the encoder followed by the samples still pending
  are exactly the samples read, in order; every frame is 20 ms of stereo sound (1920 samples); every
  frame but possibly the last was sent; and between turns less than one frame is pending.
\<close>

theorem audio_lossless:
  "case run_audio_loop 2 48000 ts of (r, s) \<Rightarrow>
     concat (au_encoded s) @ au_pending s = concat (map (read_samples 2) (turns_begun 2 1920 ts new_audio))
     \<and> list_all (\<lambda>f. length f = 1920) (au_encoded s)
     \<and> length (au_sent s) \<le> length (au_encoded s) \<and> length (au_encoded s) \<le> length (au_sent s) + 1
     \<and> (r = AudioGoesOn \<longrightarrow> length (au_pending s) < 1920)"
proof -
  obtain r s where "audio_turns 2 1920 ts new_audio = (r, s)" by fastforce
  moreover have "run_audio_loop 2 48000 ts = audio_turns 2 1920 ts new_audio"
    by (simp add: run_audio_loop_def new_opus_def Let_def)
  ultimately show ?thesis using audio_turns_samples [of 1920 2 ts new_audio r s] by (simp add: new_audio_def)
qed

lemma audio_lossless_witness:
  "\<exists>s. run_audio_loop 2 48000 [\<lparr> at_stop = False, at_packets = [Packet [] 480 True True, NoPacket], at_answers = [] \<rparr>] = (AudioGoesOn, s)
    \<and> length (au_pending s) < 1920"
proof -
  let ?t = "\<lparr> at_stop = False, at_packets = [Packet [] 480 True True, NoPacket], at_answers = [] \<rparr>"
  obtain r s where rs: "run_audio_loop 2 48000 [?t] = (r, s)" by fastforce
  then have "r = AudioGoesOn"
    by (auto simp: run_audio_loop_def audio_step_def new_audio_def new_opus_def Let_def)
  with rs audio_lossless [of "[?t]"] show ?thesis by simp
qed


text \<open>Two turns of the direct encoder, 34 ms apart.\<close>

definition demo_frame_io :: frame_io where
  "demo_frame_io = \<lparr> fi_acquire = AcquireOk, fi_resource = True, fi_cast = True, fi_create = Created, fi_map = None, fi_elapsed = 0 \<rparr>"

definition demo_video_turn :: "nat \<Rightarrow> video_turn" where
  "demo_video_turn now = \<lparr> vt_stop = False, vt_now = now, vt_force = False, vt_frame = demo_frame_io,
     vt_mf = \<lparr> mi_prepare = \<lparr> pi_prepare_ok = True, pi_flag_ok = True \<rparr>, mi_process_ok = True, mi_outputs = [] \<rparr>,
     vt_mft = \<lparr> mx_prepare = \<lparr> pi_prepare_ok = True, pi_flag_ok = True \<rparr>, mx_turns = [] \<rparr>,
     vt_nv = \<lparr> ni_frame = demo_frame_io, ni_map_ok = True, ni_submit = NvSuccess, ni_wait = WaitObject0,
       ni_lock = Some ([1], PicP), ni_pts = now \<rparr>,
     vt_after = now, vt_pts_us = [0], vt_send_ok = [True] \<rparr>"

definition demo_slot :: slot where
  "demo_slot = SlotSdk \<lparr> nv_handle = True, nv_config = demo_config, nv_input_dims = (2, 2), nv_registered_input = True,
     nv_output_buffer = True, nv_event_valid = True, nv_async_mode = True, nv_pending_idr = True,
     nv_frames_submitted = 0, nv_first_kf_dumped = 0 \<rparr>"


end
