(* ===== verification/Net.thy ===== *)
theory Net
  imports Connection
begin

text \<open>
  Which local addresses the PC advertises (\<^verbatim>\<open>server-pc/src/net.rs\<close>). The list of interfaces is
  the \<^verbatim>\<open>if_addrs\<close> crate's, an argument.
\<close>

section \<open>Addresses\<close>

text \<open>The four octets of an IPv4 address.\<close>

type_synonym ipv4 = "u8 \<times> u8 \<times> u8 \<times> u8"

datatype ip_addr = V4 ipv4 | V6 "u16 list"

fun ipv4_to_string :: "ipv4 \<Rightarrow> string" where
  "ipv4_to_string (a, b, c, d) = show_nat (unat a) @ ''.'' @ show_nat (unat b) @ ''.'' @ show_nat (unat c) @ ''.'' @ show_nat (unat d)"

fun is_link_local :: "ipv4 \<Rightarrow> bool" where
  "is_link_local (a, b, c, d) = (a = 169 \<and> b = 254)"

fun is_unspecified :: "ipv4 \<Rightarrow> bool" where
  "is_unspecified (a, b, c, d) = (a = 0 \<and> b = 0 \<and> c = 0 \<and> d = 0)"

fun is_broadcast :: "ipv4 \<Rightarrow> bool" where
  "is_broadcast (a, b, c, d) = (a = 255 \<and> b = 255 \<and> c = 255 \<and> d = 255)"

fun is_private :: "ipv4 \<Rightarrow> bool" where
  "is_private (a, b, c, d) = (a = 10 \<or> a = 172 \<and> 16 \<le> b \<and> b \<le> 31 \<or> a = 192 \<and> b = 168)"

section \<open>Interfaces\<close>

datatype InterfaceKind = Physical | Virtual | UnknownKind

text \<open>The two Chinese markers are given by their UTF-8 bytes.\<close>

definition virtual_markers :: "string list" where
  "virtual_markers = [''vethernet'', ''virtualbox'', ''vmware'', ''hyper-v'', ''wsl'', ''loopback pseudo'', ''docker'']"

definition physical_markers :: "string list" where
  "physical_markers = [''wi-fi'', ''wlan'', ''wireless'', ''ethernet'',
     str_of_bytes [0xE4, 0xBB, 0xA5, 0xE5, 0xA4, 0xAA, 0xE7, 0xBD, 0x91], str_of_bytes [0xE6, 0x97, 0xA0, 0xE7, 0xBA, 0xBF]]"

definition classify_interface :: "string \<Rightarrow> InterfaceKind" where
  "classify_interface name =
     (let n = map ascii_lower name in
      if \<exists>m\<in>set virtual_markers. contains_str n m then Virtual
      else if \<exists>m\<in>set physical_markers. contains_str n m then Physical
      else UnknownKind)"

record interface =
  if_name :: string
  if_loopback :: bool
  if_ip :: ip_addr

record DiscoveredAddr =
  da_addr :: ipv4
  da_iface_name :: string
  da_kind :: InterfaceKind

fun kind_rank :: "InterfaceKind \<Rightarrow> nat" where
  "kind_rank Physical = 0"
| "kind_rank UnknownKind = 1"
| "kind_rank Virtual = 2"

lemma kind_rank_inject: "kind_rank a = kind_rank b \<longleftrightarrow> a = b"
  by (cases a; cases b) simp_all

text \<open>The kinds in the order in which they are preferred.\<close>

instantiation InterfaceKind :: linorder
begin

definition less_eq_InterfaceKind :: "InterfaceKind \<Rightarrow> InterfaceKind \<Rightarrow> bool" where
  "less_eq_InterfaceKind a b = (kind_rank a \<le> kind_rank b)"

definition less_InterfaceKind :: "InterfaceKind \<Rightarrow> InterfaceKind \<Rightarrow> bool" where
  "less_InterfaceKind a b = (kind_rank a < kind_rank b)"

instance
  by standard (auto simp: less_eq_InterfaceKind_def less_InterfaceKind_def simp flip: kind_rank_inject)

end

definition candidate :: "interface \<Rightarrow> DiscoveredAddr option" where
  "candidate ifa =
     (if if_loopback ifa then None
      else (case if_ip ifa of
          V6 w \<Rightarrow> None
        | V4 v4 \<Rightarrow>
            if is_link_local v4 \<or> is_unspecified v4 \<or> is_broadcast v4 then None
            else if \<not> is_private v4 then None
            else Some \<lparr> da_addr = v4, da_iface_name = if_name ifa, da_kind = classify_interface (if_name ifa) \<rparr>))"

text \<open>\<open>None\<close>: the interfaces could not be listed.\<close>

definition discover_lan_ipv4 :: "interface list option \<Rightarrow> DiscoveredAddr list option" where
  "discover_lan_ipv4 ifs = map_option (\<lambda>l. sort_key (\<lambda>a. kind_rank (da_kind a)) (List.map_filter candidate l)) ifs"

section \<open>Facts\<close>

lemma candidate_Some: "candidate ifa = Some a \<longleftrightarrow> \<not> if_loopback ifa \<and> if_ip ifa = V4 (da_addr a) \<and> is_private (da_addr a)
    \<and> da_iface_name a = if_name ifa \<and> da_kind a = classify_interface (if_name ifa)"
proof -
  have "\<not> is_link_local v \<and> \<not> is_unspecified v \<and> \<not> is_broadcast v" if "is_private v" for v
    using that by (cases v) auto
  then show ?thesis by (cases a) (auto simp: candidate_def split: ip_addr.splits)
qed

lemma candidate_None: "candidate ifa = None \<longleftrightarrow> if_loopback ifa \<or> (case if_ip ifa of V4 v \<Rightarrow> \<not> is_private v | V6 w \<Rightarrow> True)"
proof -
  have "\<not> is_link_local v \<and> \<not> is_unspecified v \<and> \<not> is_broadcast v" if "is_private v" for v
    using that by (cases v) auto
  then show ?thesis by (auto simp: candidate_def split: ip_addr.splits)
qed

text \<open>
  What is listed first is of the best kind there is.
\<close>

lemma first_is_best:
  assumes "discover_lan_ipv4 (Some l) = Some (a # as)" "b \<in> set (a # as)"
  shows "da_kind a \<le> da_kind b"
proof -
  have "sorted (map (\<lambda>a. kind_rank (da_kind a)) (a # as))"
    using assms(1) sorted_sort_key [of "\<lambda>a. kind_rank (da_kind a)" "List.map_filter candidate l"]
    by (simp add: discover_lan_ipv4_def)
  with assms(2) show ?thesis by (auto simp: less_eq_InterfaceKind_def)
qed

section \<open>Properties\<close>

text \<open>
  The advertised addresses are exactly the private IPv4 addresses of the interfaces that are not
  loopback: each of them is listed as often as it occurs, none else is (in particular no public
  address), physical interfaces come before unclassified ones and those before virtual ones, and within
  a kind the system's order is kept.
\<close>

theorem lan_addresses:
  "case discover_lan_ipv4 (Some l) of None \<Rightarrow> False | Some out \<Rightarrow>
     sorted (map (\<lambda>a. kind_rank (da_kind a)) out)
     \<and> map (\<lambda>a. (da_addr a, da_iface_name a)) (filter (\<lambda>a. da_kind a = k) out)
       = map (\<lambda>i. (case if_ip i of V4 v \<Rightarrow> v, if_name i))
           (filter (\<lambda>i. \<not> if_loopback i \<and> (case if_ip i of V4 v \<Rightarrow> is_private v | V6 w \<Rightarrow> False)
              \<and> classify_interface (if_name i) = k) l)"
proof -
  let ?rank = "\<lambda>a. kind_rank (da_kind a)"
  let ?out = "sort_key ?rank (List.map_filter candidate l)"
  have "filter (\<lambda>a. da_kind a = k) ?out = filter (\<lambda>a. da_kind a = k) (List.map_filter candidate l)"
    using sort_key_stable [of ?rank "kind_rank k" "List.map_filter candidate l"] by (simp add: kind_rank_inject)
  moreover have "map (\<lambda>a. (da_addr a, da_iface_name a)) (filter (\<lambda>a. da_kind a = k) (List.map_filter candidate l))
       = map (\<lambda>i. (case if_ip i of V4 v \<Rightarrow> v, if_name i))
           (filter (\<lambda>i. \<not> if_loopback i \<and> (case if_ip i of V4 v \<Rightarrow> is_private v | V6 w \<Rightarrow> False)
              \<and> classify_interface (if_name i) = k) l)"
  proof (induction l)
    case (Cons i l)
    show ?case
    proof (cases "candidate i")
      case None
      then have "\<not> (\<not> if_loopback i \<and> (case if_ip i of V4 v \<Rightarrow> is_private v | V6 w \<Rightarrow> False))"
        by (auto simp: candidate_None split: ip_addr.splits)
      with None Cons show ?thesis by (auto simp: List.map_filter_simps)
    next
      case (Some a)
      with Cons Some [unfolded candidate_Some] show ?thesis by (simp add: List.map_filter_simps)
    qed
  qed (simp add: List.map_filter_simps)
  ultimately show ?thesis by (simp add: discover_lan_ipv4_def sorted_sort_key)
qed

end
