(* ===== verification/Qr_Payload.thy ===== *)
theory Qr_Payload
  imports Net Relay_Client Qr_Server
begin

text \<open>
  What the pairing code says (\<^verbatim>\<open>server-pc/src/qr.rs\<close>) and how the phone reads it
  (\<^verbatim>\<open>model/QrPayload.kt\<close>): the LAN endpoint, the pairing code, the key and, for a PC behind a relay,
  the relay's endpoint as the fallback. Android's \<^verbatim>\<open>Uri\<close> is an argument of the phone's side. The
  drawing of the code and the text of the page are not modelled.
\<close>

section \<open>The PC's side\<close>

definition build_payload :: "string \<Rightarrow> u16 \<Rightarrow> string \<Rightarrow> string \<Rightarrow> string" where
  "build_payload host port code key_b64url =
     ''rc://'' @ host @ '':'' @ show_nat (unat port) @ ''/?v='' @ show_nat (unat PROTOCOL_VERSION)
     @ ''&c='' @ code @ ''&k='' @ key_b64url"

record RelayQrInfo =
  rq_base_url :: string
  rq_host_id :: string

text \<open>\<^verbatim>\<open>trim_start_matches\<close> with a non-empty pattern, which it removes as often as it can.\<close>

function trim_start_str :: "string \<Rightarrow> string \<Rightarrow> string" where
  "trim_start_str pat s = (if pat = [] then s else (case strip_prefix pat s of None \<Rightarrow> s | Some r \<Rightarrow> trim_start_str pat r))"
  by pat_completeness auto
termination
  by (relation "measure (\<lambda>(pat, s). length s)") (auto simp: strip_prefix_Some)

declare trim_start_str.simps [simp del]

definition relay_stripped :: "string \<Rightarrow> string" where
  "relay_stripped base_url =
     trim_end_char (CHR ''/'') (trim_start_str ''http://'' (trim_start_str ''https://'' base_url))"

definition relay_authority :: "string \<Rightarrow> string" where
  "relay_authority base_url =
     (let stripped = relay_stripped base_url in
      if CHR '':'' \<in> set stripped then stripped
      else stripped @ '':'' @ show_nat (if starts_with base_url ''https://'' then 443 else 80))"

definition build_combined_payload :: "string \<Rightarrow> u16 \<Rightarrow> string \<Rightarrow> string \<Rightarrow> RelayQrInfo option \<Rightarrow> string" where
  "build_combined_payload lan_host lan_port code key_b64url relay =
     (let base = build_payload lan_host lan_port code key_b64url in
      case relay of None \<Rightarrow> base
      | Some r \<Rightarrow>
          base @ ''&rh='' @ relay_authority (rq_base_url r) @ ''&rid='' @ rq_host_id r
          @ ''&rtls='' @ show_nat (if starts_with (rq_base_url r) ''https://'' then 1 else 0))"

text \<open>What the page shows: the endpoint and the interface chosen, and the payload.\<close>

record qr_card =
  qc_addr :: string
  qc_kind :: InterfaceKind
  qc_iface :: string
  qc_payload :: string
  qc_lan_display :: string
  qc_relay_display :: string

definition visible_addrs :: "DiscoveredAddr list \<Rightarrow> DiscoveredAddr list" where
  "visible_addrs addrs = (let physical = filter (\<lambda>a. da_kind a \<noteq> Virtual) addrs in if physical = [] then addrs else physical)"

definition build_qr_card :: "DiscoveredAddr list \<Rightarrow> u16 \<Rightarrow> string \<Rightarrow> string \<Rightarrow> RelayQrInfo option \<Rightarrow> qr_card option" where
  "build_qr_card addrs port code key_b64url relay =
     (if addrs = [] \<and> relay = None then None
      else
        let (addr, kind, iface) = (case visible_addrs addrs of
              first # rest \<Rightarrow> (ipv4_to_string (da_addr first), da_kind first, da_iface_name first)
            | [] \<Rightarrow> (''0.0.0.0'', UnknownKind, ''relay-only''))
        in Some \<lparr> qc_addr = addr, qc_kind = kind, qc_iface = iface,
             qc_payload = build_combined_payload addr port code key_b64url relay,
             qc_lan_display = addr @ '':'' @ show_nat (unat port),
             qc_relay_display = (case relay of Some r \<Rightarrow> relay_stripped (rq_base_url r) | None \<Rightarrow> []) \<rparr>)"

definition replace_char :: "char \<Rightarrow> string \<Rightarrow> string \<Rightarrow> string" where
  "replace_char c r s = concat (map (\<lambda>x. if x = c then r else [x]) s)"

definition html_escape :: "string \<Rightarrow> string" where
  "html_escape s = replace_char (CHR 0x22) ''&quot;'' (replace_char (CHR ''>'') ''&gt;''
     (replace_char (CHR ''<'') ''&lt;'' (replace_char (CHR ''&'') ''&amp;'' s)))"

section \<open>The phone's side\<close>

text \<open>What \<^verbatim>\<open>Uri.parse\<close> finds in a string; a port that is absent is negative there.\<close>

record android_uri =
  uri_scheme :: "string option"
  uri_host :: "string option"
  uri_port :: int
  uri_query :: "string \<Rightarrow> string option"

datatype QrPayload = QrPayload (qp_host: string) (qp_port: int) (qp_code: string) (qp_key: string) (qp_version: int)
  (qp_relay_host_id: "string option") (qp_secure: bool) (qp_fallback: "QrPayload option")

text \<open>\<^verbatim>\<open>toIntOrNull\<close> of Kotlin: an optional sign, digits, and the range of \<^verbatim>\<open>Int\<close>.\<close>

definition toIntOrNull :: "string \<Rightarrow> int option" where
  "toIntOrNull s =
     (let (neg, d) = (case s of c # r \<Rightarrow> if c = CHR ''-'' then (True, r) else if c = CHR ''+'' then (False, r) else (False, s)
                      | [] \<Rightarrow> (False, s))
      in if d \<noteq> [] \<and> list_all is_digit d \<and> int (dec_val d) \<le> (if neg then 2 ^ 31 else 2 ^ 31 - 1)
         then Some (if neg then - int (dec_val d) else int (dec_val d)) else None)"

definition not_blank :: "string option \<Rightarrow> string option" where
  "not_blank q = (case q of Some s \<Rightarrow> if list_all is_whitespace (chars s) then None else Some s | None \<Rightarrow> None)"

definition parseAuthority :: "string \<Rightarrow> bool \<Rightarrow> (string \<times> int) option" where
  "parseAuthority authority tls =
     (case rsplit_once (CHR '':'') authority of
        None \<Rightarrow> Some (authority, if tls then 443 else 80)
      | Some (host, port) \<Rightarrow>
          if host = [] then Some (authority, if tls then 443 else 80)
          else (case toIntOrNull port of None \<Rightarrow> None | Some p \<Rightarrow> Some (host, p)))"

definition buildFallback :: "string option \<Rightarrow> string option \<Rightarrow> string option \<Rightarrow> int \<Rightarrow> string \<Rightarrow> string \<Rightarrow> QrPayload option" where
  "buildFallback rh rid rtls version code key =
     (case rh of None \<Rightarrow> None | Some rh \<Rightarrow>
        (case rid of None \<Rightarrow> None | Some rid \<Rightarrow>
          let tls = (rtls \<noteq> Some ''0'') in
          (case parseAuthority rh tls of None \<Rightarrow> None
           | Some (rHost, rPort) \<Rightarrow> Some (QrPayload rHost rPort code key version (Some rid) tls None))))"

definition parseLan :: "android_uri \<Rightarrow> QrPayload option" where
  "parseLan uri =
     (case uri_host uri of None \<Rightarrow> None
      | Some host \<Rightarrow>
          if uri_port uri \<le> 0 then None
          else (case Option.bind (uri_query uri ''v'') toIntOrNull of None \<Rightarrow> None
          | Some version \<Rightarrow>
              (case not_blank (uri_query uri ''c'') of None \<Rightarrow> None
               | Some code \<Rightarrow>
                   (case not_blank (uri_query uri ''k'') of None \<Rightarrow> None
                    | Some key \<Rightarrow>
                        Some (QrPayload host (uri_port uri) code key version None False
                          (buildFallback (not_blank (uri_query uri ''rh'')) (not_blank (uri_query uri ''rid''))
                             (uri_query uri ''rtls'') version code key))))))"

definition parseRelay :: "android_uri \<Rightarrow> QrPayload option" where
  "parseRelay uri =
     (case uri_host uri of None \<Rightarrow> None
      | Some host \<Rightarrow>
          (case Option.bind (uri_query uri ''v'') toIntOrNull of None \<Rightarrow> None
          | Some version \<Rightarrow>
              (case not_blank (uri_query uri ''c'') of None \<Rightarrow> None
               | Some code \<Rightarrow>
                   (case not_blank (uri_query uri ''k'') of None \<Rightarrow> None
                    | Some key \<Rightarrow>
                        (case not_blank (uri_query uri ''host'') of None \<Rightarrow> None
                         | Some hostId \<Rightarrow>
                             let tls = (case uri_query uri ''tls'' of Some t \<Rightarrow> t \<noteq> ''0'' | None \<Rightarrow> True);
                                 port = (if uri_port uri > 0 then uri_port uri else if tls then 443 else 80)
                             in Some (QrPayload host port code key version (Some hostId) tls None))))))"

text \<open>\<^verbatim>\<open>raw.trim()\<close> is left to the \<open>uri\<close> argument; an exception of the parser is \<open>None\<close>.\<close>

definition qr_parse :: "(string \<Rightarrow> android_uri option) \<Rightarrow> string \<Rightarrow> QrPayload option" where
  "qr_parse uri_of raw =
     (case uri_of raw of None \<Rightarrow> None
      | Some uri \<Rightarrow>
          (case map_option (map ascii_lower) (uri_scheme uri) of
             None \<Rightarrow> None
           | Some scheme \<Rightarrow>
               if scheme = ''rc'' then parseLan uri else if scheme = ''rcrelay'' then parseRelay uri else None))"

definition wsUrl :: "QrPayload \<Rightarrow> string" where
  "wsUrl q =
     (let scheme = (if qp_secure q then ''wss'' else ''ws''); port = (if qp_port q < 0 then ''-'' else []) @ show_nat (nat \<bar>qp_port q\<bar>) in
      (case qp_relay_host_id q of
         Some rid \<Rightarrow> scheme @ ''://'' @ qp_host q @ '':'' @ port @ ''/v1/client?host='' @ rid
       | None \<Rightarrow> scheme @ ''://'' @ qp_host q @ '':'' @ port @ ''/ws''))"

section \<open>Documented behaviour of Uri\<close>

text \<open>
  A text without the characters that have a meaning in a URI: letters, digits, hyphen, dot, underscore. For a URI put together from such texts,
  Android finds the scheme, the host, the port and the first value of every query parameter.
\<close>

definition plain_char :: "char \<Rightarrow> bool" where
  "plain_char c = (let n = (of_char c :: nat) in 48 \<le> n \<and> n \<le> 57 \<or> 65 \<le> n \<and> n \<le> 90 \<or> 97 \<le> n \<and> n \<le> 122
     \<or> n = 45 \<or> n = 46 \<or> n = 95)"

definition uri_plain :: "string \<Rightarrow> bool" where
  "uri_plain s \<longleftrightarrow> s \<noteq> [] \<and> list_all plain_char s"

text \<open>A query value may also hold a colon.\<close>

definition query_plain :: "string \<Rightarrow> bool" where
  "query_plain s \<longleftrightarrow> s \<noteq> [] \<and> list_all (\<lambda>c. plain_char c \<or> c = CHR '':'') s"

fun query_text :: "(string \<times> string) list \<Rightarrow> string" where
  "query_text [] = []"
| "query_text [(k, v)] = k @ ''='' @ v"
| "query_text ((k, v) # p # ps) = k @ ''='' @ v @ ''&'' @ query_text (p # ps)"

definition uri_text :: "string \<Rightarrow> string \<Rightarrow> nat \<Rightarrow> (string \<times> string) list \<Rightarrow> string" where
  "uri_text scheme host port ps = scheme @ ''://'' @ host @ '':'' @ show_nat port @ ''/?'' @ query_text ps"

definition uri_documented :: "(string \<Rightarrow> android_uri option) \<Rightarrow> bool" where
  "uri_documented uri_of \<longleftrightarrow> (\<forall>scheme host port ps. uri_plain scheme \<and> uri_plain host \<and> ps \<noteq> []
     \<and> list_all (\<lambda>(k, v). uri_plain k \<and> query_plain v) ps \<longrightarrow>
     uri_of (uri_text scheme host port ps) = Some \<lparr> uri_scheme = Some scheme, uri_host = Some host, uri_port = int port,
       uri_query = map_of ps \<rparr>)"

text \<open>A parser that does: it cuts the text at the separators.\<close>

definition split_first :: "char \<Rightarrow> string \<Rightarrow> string \<times> string" where
  "split_first c s = (takeWhile (\<lambda>x. x \<noteq> c) s, tl (dropWhile (\<lambda>x. x \<noteq> c) s))"

definition cut_uri :: "string \<Rightarrow> android_uri option" where
  "cut_uri s =
     (let (scheme, r) = split_first (CHR '':'') s; (host, r) = split_first (CHR '':'') (drop 2 r);
          (port, r) = split_first (CHR ''/'') r
      in Some \<lparr> uri_scheme = Some scheme, uri_host = Some host, uri_port = int (dec_val port),
           uri_query = map_of (map (split_first (CHR ''='')) (split_on (CHR ''&'') (tl r))) \<rparr>)"

lemma split_first_append: "c \<notin> set a \<Longrightarrow> split_first c (a @ c # r) = (a, r)"
  by (auto simp: split_first_def takeWhile_append dropWhile_append)

lemma split_on_append: "c \<notin> set a \<Longrightarrow> split_on c (a @ c # r) = a # split_on c r"
  by (induction a) auto

lemma plain_char_not:
  "\<not> plain_char (CHR '':'')" "\<not> plain_char (CHR ''/'')" "\<not> plain_char (CHR ''='')" "\<not> plain_char (CHR ''&'')"
  by (simp_all add: plain_char_def)

lemma uri_plain_set: "uri_plain s \<Longrightarrow> CHR '':'' \<notin> set s \<and> CHR ''/'' \<notin> set s \<and> CHR ''='' \<notin> set s \<and> CHR ''&'' \<notin> set s"
  using plain_char_not unfolding uri_plain_def list_all_iff by blast

lemma query_plain_set: "query_plain s \<Longrightarrow> CHR ''&'' \<notin> set s"
  using plain_char_not unfolding query_plain_def list_all_iff by fastforce

lemma query_text_split:
  "ps \<noteq> [] \<Longrightarrow> list_all (\<lambda>(k, v). uri_plain k \<and> query_plain v) ps \<Longrightarrow>
    map (split_first (CHR ''='')) (split_on (CHR ''&'') (query_text ps)) = ps"
proof (induction ps rule: query_text.induct)
  case (2 k v)
  then have "CHR ''&'' \<notin> set (k @ ''='' @ v)" using uri_plain_set query_plain_set by auto
  moreover have "split_first (CHR ''='') (k @ CHR ''='' # v) = (k, v)"
    using 2 by (intro split_first_append) (auto dest: uri_plain_set)
  ultimately show ?case by (simp add: split_on_single)
next
  case (3 k v p ps)
  have "CHR ''&'' \<notin> set (k @ ''='' @ v)" using 3 uri_plain_set query_plain_set by auto
  then have "split_on (CHR ''&'') ((k @ ''='' @ v) @ CHR ''&'' # query_text (p # ps)) = (k @ ''='' @ v) # split_on (CHR ''&'') (query_text (p # ps))"
    by (rule split_on_append)
  moreover have "split_first (CHR ''='') (k @ CHR ''='' # v) = (k, v)"
    using 3 by (intro split_first_append) (auto dest: uri_plain_set)
  ultimately show ?case using 3 by simp
qed simp

lemma digits_no_slash: "CHR ''/'' \<notin> set (show_nat n)" "CHR '':'' \<notin> set (show_nat n)" "CHR ''&'' \<notin> set (show_nat n)"
  by (auto dest!: show_nat_digits simp: is_digit_def)

lemma cut_uri_documented: "uri_documented cut_uri"
  unfolding uri_documented_def
proof (intro allI impI)
  fix scheme host port ps
  assume p: "uri_plain scheme \<and> uri_plain host \<and> ps \<noteq> [] \<and> list_all (\<lambda>(k, v). uri_plain k \<and> query_plain v) ps"
  have "split_first (CHR '':'') (uri_text scheme host port ps) = (scheme, ''//'' @ host @ '':'' @ show_nat port @ ''/?'' @ query_text ps)"
    using split_first_append [of "CHR '':''" scheme] uri_plain_set [of scheme] p by (simp add: uri_text_def)
  moreover have "split_first (CHR '':'') (host @ CHR '':'' # show_nat port @ ''/?'' @ query_text ps) = (host, show_nat port @ ''/?'' @ query_text ps)"
    using split_first_append [of "CHR '':''" host] uri_plain_set [of host] p by simp
  moreover have "split_first (CHR ''/'') (show_nat port @ CHR ''/'' # ''?'' @ query_text ps) = (show_nat port, ''?'' @ query_text ps)"
    using split_first_append [of "CHR ''/''" "show_nat port"] digits_no_slash by simp
  ultimately show "cut_uri (uri_text scheme host port ps) = Some \<lparr> uri_scheme = Some scheme, uri_host = Some host,
      uri_port = int port, uri_query = map_of ps \<rparr>"
    using query_text_split [of ps] p by (simp add: cut_uri_def)
qed

section \<open>The payload as a URI\<close>

text \<open>The relay's base URL as a user types it: scheme, host, an optional port, any number of slashes.\<close>

definition relay_url :: "bool \<Rightarrow> string \<Rightarrow> nat option \<Rightarrow> nat \<Rightarrow> string" where
  "relay_url tls host port slashes = (if tls then ''https://'' else ''http://'') @ host
     @ (case port of Some p \<Rightarrow> '':'' @ show_nat p | None \<Rightarrow> []) @ replicate slashes (CHR ''/'')"

definition relay_port :: "bool \<Rightarrow> nat option \<Rightarrow> nat" where
  "relay_port tls port = (case port of Some p \<Rightarrow> p | None \<Rightarrow> if tls then 443 else 80)"

lemma no_scheme_left:
  assumes "uri_plain host" "tail = [] \<or> (\<exists>p n. tail = '':'' @ show_nat p @ replicate n (CHR ''/'')) \<or> (\<exists>n. tail = replicate n (CHR ''/''))"
    and "CHR '':'' \<notin> set pre"
  shows "strip_prefix (pre @ ''://'') (host @ tail) = None"
proof (rule ccontr)
  assume "strip_prefix (pre @ ''://'') (host @ tail) \<noteq> None"
  then obtain r where r: "host @ tail = pre @ CHR '':'' # ''//'' @ r" by (auto simp: strip_prefix_Some)
  have tw: "takeWhile (\<lambda>x. x \<noteq> CHR '':'') (host @ tail) = pre" unfolding r using assms(3) by (subst takeWhile_append2) auto
  have nh: "CHR '':'' \<notin> set host" using uri_plain_set [OF assms(1)] by simp
  have "CHR '':'' \<in> set (host @ tail)" unfolding r by simp
  with nh assms(2) obtain p n where t: "tail = '':'' @ show_nat p @ replicate n (CHR ''/'')" by auto
  have "takeWhile (\<lambda>x. x \<noteq> CHR '':'') (host @ tail) = host" unfolding t using nh by (subst takeWhile_append2) auto
  with tw r t have "show_nat p @ replicate n (CHR ''/'') = ''//'' @ r" by simp
  then have "hd (show_nat p) = CHR ''/''" by (cases "show_nat p") auto
  then show False using digits_no_slash(1) [of p] by (cases "show_nat p") auto
qed

lemma trim_start_str_none: "strip_prefix pat s = None \<Longrightarrow> trim_start_str pat s = s"
  by (subst trim_start_str.simps) simp

lemma trim_start_str_some: "pat \<noteq> [] \<Longrightarrow> trim_start_str pat (pat @ s) = trim_start_str pat s"
  by (subst trim_start_str.simps) simp

lemma stripped_url:
  assumes "uri_plain host"
  shows "relay_stripped (relay_url tls host port slashes) = host @ (case port of Some p \<Rightarrow> '':'' @ show_nat p | None \<Rightarrow> [])"
proof -
  define tail where "tail = (case port of Some p \<Rightarrow> '':'' @ show_nat p | None \<Rightarrow> []) @ replicate slashes (CHR ''/'')"
  have t: "tail = [] \<or> (\<exists>p n. tail = '':'' @ show_nat p @ replicate n (CHR ''/'')) \<or> (\<exists>n. tail = replicate n (CHR ''/''))"
    by (cases port) (auto simp: tail_def)
  have none: "strip_prefix ''https://'' (host @ tail) = None" "strip_prefix ''http://'' (host @ tail) = None"
    using no_scheme_left [OF assms t, of "''https''"] no_scheme_left [OF assms t, of "''http''"] by simp_all
  have "trim_start_str ''http://'' (trim_start_str ''https://'' (relay_url tls host port slashes)) = host @ tail"
  proof (cases tls)
    case True
    then have "relay_url tls host port slashes = ''https://'' @ host @ tail" by (simp add: relay_url_def tail_def)
    with none show ?thesis by (simp only: trim_start_str_some trim_start_str_none list.simps not_False_eq_True)
  next
    case False
    then have "relay_url tls host port slashes = ''http://'' @ host @ tail" by (simp add: relay_url_def tail_def)
    moreover have "strip_prefix ''https://'' (''http://'' @ host @ tail) = None" by simp
    ultimately show ?thesis
      using none by (simp only: trim_start_str_some trim_start_str_none list.simps not_False_eq_True)
  qed
  moreover have "trim_end_char (CHR ''/'') (host @ tail) = host @ (case port of Some p \<Rightarrow> '':'' @ show_nat p | None \<Rightarrow> [])"
  proof -
    let ?a = "host @ (case port of Some p \<Rightarrow> '':'' @ show_nat p | None \<Rightarrow> [])"
    have "host \<noteq> []" using assms by (simp add: uri_plain_def)
    moreover have "CHR ''/'' \<notin> set ?a" using uri_plain_set [OF assms] digits_no_slash by (cases port) auto
    ultimately have "?a \<noteq> []" "last ?a \<noteq> CHR ''/''" using last_in_set [of ?a] by force+
    from trim_end_char_append [OF this, of slashes] show ?thesis by (simp add: tail_def)
  qed
  ultimately show ?thesis by (simp add: relay_stripped_def)
qed

lemma url_scheme: "starts_with (relay_url tls host port slashes) ''https://'' = tls"
  by (simp add: relay_url_def starts_with_def)

lemma authority_url:
  assumes "uri_plain host"
  shows "relay_authority (relay_url tls host port slashes) = host @ '':'' @ show_nat (relay_port tls port)"
  using stripped_url [OF assms, of tls port slashes] uri_plain_set [OF assms]
  by (cases port) (simp_all add: relay_authority_def url_scheme relay_port_def Let_def)

definition lan_params :: "string \<Rightarrow> string \<Rightarrow> (string \<times> string) list" where
  "lan_params code key = [(''v'', show_nat 6), (''c'', code), (''k'', key)]"

definition relay_params :: "bool \<Rightarrow> string \<Rightarrow> nat option \<Rightarrow> string \<Rightarrow> (string \<times> string) list" where
  "relay_params tls host port host_id = [(''rh'', host @ '':'' @ show_nat (relay_port tls port)), (''rid'', host_id),
     (''rtls'', show_nat (if tls then 1 else 0))]"

lemma payload_uri:
  "build_combined_payload h p code key None = uri_text ''rc'' h (unat p) (lan_params code key)"
  by (simp add: build_combined_payload_def build_payload_def uri_text_def lan_params_def PROTOCOL_VERSION_def)

lemma payload_uri_relay:
  assumes "uri_plain rhost"
  shows "build_combined_payload h p code key (Some \<lparr> rq_base_url = relay_url tls rhost rport slashes, rq_host_id = hid \<rparr>)
    = uri_text ''rc'' h (unat p) (lan_params code key @ relay_params tls rhost rport hid)"
  using assms by (simp add: build_combined_payload_def build_payload_def uri_text_def lan_params_def relay_params_def
      PROTOCOL_VERSION_def authority_url url_scheme Let_def)

lemma digit_plain: "is_digit c \<Longrightarrow> plain_char c"
  by (simp add: is_digit_def plain_char_def)

lemma show_nat_plain: "query_plain (show_nat n)"
  unfolding query_plain_def list_all_iff using show_nat_digits digit_plain by auto

lemma plain_query: "uri_plain s \<Longrightarrow> query_plain s"
  unfolding query_plain_def uri_plain_def list_all_iff by blast

lemma plain_append: "query_plain a \<Longrightarrow> query_plain b \<Longrightarrow> query_plain (a @ '':'' @ b)"
  by (simp add: query_plain_def)

lemma query_not_blank: "query_plain s \<Longrightarrow> not_blank (Some s) = Some s"
proof -
  assume s: "query_plain s"
  have c: "(of_char c :: nat) < 128 \<and> \<not> is_whitespace (of_char c)" if "c \<in> set s" for c
  proof -
    from s that have "plain_char c \<or> c = CHR '':''" by (simp add: query_plain_def list_all_iff)
    then have "(of_char c :: nat) \<le> 122 \<and> 45 \<le> (of_char c :: nat)" by (auto simp: plain_char_def Let_def)
    then show ?thesis by (auto simp: is_whitespace_def)
  qed
  then have "chars s = map of_char s" by (intro chars_ascii) (simp add: is_ascii_def list_all_iff)
  moreover have "s \<noteq> []" using s by (simp add: query_plain_def)
  ultimately show ?thesis using c by (cases s) (auto simp: not_blank_def)
qed

lemma toIntOrNull_show:
  assumes "n < 2 ^ 31"
  shows "toIntOrNull (show_nat n) = Some (int n)"
proof -
  obtain c r where s: "show_nat n = c # r" by (cases "show_nat n") simp_all
  have "is_digit c" using show_nat_digits [of c n] s by simp
  then have "c \<noteq> CHR ''-'' \<and> c \<noteq> CHR ''+''" by (auto simp: is_digit_def)
  moreover have "list_all is_digit (c # r)" unfolding s [symmetric] by (simp add: list_all_iff show_nat_digits)
  moreover have "dec_val (c # r) = n" unfolding s [symmetric] by simp
  ultimately show ?thesis using assms s by (simp add: toIntOrNull_def)
qed

lemma rsplit_once_append: "c \<notin> set e \<Longrightarrow> rsplit_once c (a @ c # e) = Some (a, e)"
proof -
  assume "c \<notin> set e"
  then have "takeWhile (\<lambda>x. x \<noteq> c) (rev (a @ c # e)) = rev e" by (auto simp: takeWhile_append)
  then show ?thesis by (simp add: rsplit_once_def Let_def)
qed

lemma parseAuthority_plain:
  assumes "uri_plain host" "p < 2 ^ 31"
  shows "parseAuthority (host @ '':'' @ show_nat p) tls = Some (host, int p)"
  using rsplit_once_append [of "CHR '':''" "show_nat p" host] digits_no_slash(2) [of p] toIntOrNull_show [OF assms(2)] assms(1)
  by (simp add: parseAuthority_def uri_plain_def)

lemma digit_chars: "digit_char 0 = CHR ''0''" "digit_char 1 = CHR ''1''"
  by code_simp+

lemma show_small: "show_nat 0 = ''0''" "show_nat 1 \<noteq> ''0''"
  using digit_chars by (simp_all add: show_nat.simps)

lemma lan_query:
  assumes "uri_plain code" "uri_plain key"
  shows "list_all (\<lambda>(k, v). uri_plain k \<and> query_plain v) (lan_params code key)"
    "Option.bind (map_of (lan_params code key @ ps) ''v'') toIntOrNull = Some 6"
    "not_blank (map_of (lan_params code key @ ps) ''c'') = Some code"
    "not_blank (map_of (lan_params code key @ ps) ''k'') = Some key"
  using assms toIntOrNull_show [of 6] query_not_blank [OF plain_query [OF assms(1)]] query_not_blank [OF plain_query [OF assms(2)]]
  by (simp_all add: lan_params_def show_nat_plain plain_query) (simp_all add: uri_plain_def plain_char_def)

lemma relay_query:
  assumes "uri_plain rhost" "uri_plain hid"
  shows "list_all (\<lambda>(k, v). uri_plain k \<and> query_plain v) (relay_params tls rhost rport hid)"
    "not_blank (map_of (lan_params code key @ relay_params tls rhost rport hid) ''rh'') = Some (rhost @ '':'' @ show_nat (relay_port tls rport))"
    "not_blank (map_of (lan_params code key @ relay_params tls rhost rport hid) ''rid'') = Some hid"
    "(map_of (lan_params code key @ relay_params tls rhost rport hid) ''rtls'' \<noteq> Some ''0'') = tls"
proof -
  have q: "query_plain (rhost @ '':'' @ show_nat n)" for n
    by (intro plain_append plain_query show_nat_plain assms(1))
  show "list_all (\<lambda>(k, v). uri_plain k \<and> query_plain v) (relay_params tls rhost rport hid)"
    using q [of "relay_port tls rport"] plain_query [OF assms(2)]
    by (simp add: relay_params_def show_nat_plain) (simp add: uri_plain_def plain_char_def)
  show "not_blank (map_of (lan_params code key @ relay_params tls rhost rport hid) ''rh'') = Some (rhost @ '':'' @ show_nat (relay_port tls rport))"
    using query_not_blank [OF q [of "relay_port tls rport"]] by (simp add: lan_params_def relay_params_def)
  show "not_blank (map_of (lan_params code key @ relay_params tls rhost rport hid) ''rid'') = Some hid"
    using query_not_blank [OF plain_query [OF assms(2)]] by (simp add: lan_params_def relay_params_def)
  show "(map_of (lan_params code key @ relay_params tls rhost rport hid) ''rtls'' \<noteq> Some ''0'') = tls"
    using show_small by (simp add: lan_params_def relay_params_def)
qed

text \<open>Neither a LAN payload nor its parameters speak of a relay.\<close>

lemma no_relay_query: "map_of (lan_params code key) ''rh'' = None"
  by (simp add: lan_params_def)

section \<open>Properties\<close>



end
