(* ===== verification/Desktop_Input.thy ===== *)
theory Desktop_Input
  imports Brackets Utf8 Protocol
begin

text \<open>
  What the PC does to its desktop on the phone's behalf: injected mouse and keyboard events
  (\<^verbatim>\<open>server-pc/src/input.rs\<close>) and the text clipboard (\<^verbatim>\<open>clipboard.rs\<close>), with the UTF-16 both
  use. Each operation returns what it handed to the system, in order; the system's answers are
  arguments.
\<close>

section \<open>UTF-16\<close>

definition utf16_enc1 :: "nat \<Rightarrow> nat list" where
  "utf16_enc1 c = (if c < 0x10000 then [c] else [0xD800 + (c - 0x10000) div 1024, 0xDC00 + (c - 0x10000) mod 1024])"

definition utf16_enc :: "nat list \<Rightarrow> nat list" where
  "utf16_enc cs = concat (map utf16_enc1 cs)"

definition high_surrogate :: "nat \<Rightarrow> bool" where
  "high_surrogate u = (0xD800 \<le> u \<and> u < 0xDC00)"

definition low_surrogate :: "nat \<Rightarrow> bool" where
  "low_surrogate u = (0xDC00 \<le> u \<and> u < 0xE000)"

text \<open>\<^verbatim>\<open>from_utf16_lossy\<close>: a surrogate without its partner becomes the replacement character.\<close>

fun utf16_lossy :: "nat list \<Rightarrow> nat list" where
  "utf16_lossy [] = []"
| "utf16_lossy [a] = [if high_surrogate a \<or> low_surrogate a then 0xFFFD else a]"
| "utf16_lossy (a # b # r) =
     (if high_surrogate a \<and> low_surrogate b
      then (0x10000 + (a - 0xD800) * 1024 + (b - 0xDC00)) # utf16_lossy r
      else (if high_surrogate a \<or> low_surrogate a then 0xFFFD else a) # utf16_lossy (b # r))"

section \<open>Mouse\<close>

datatype mouse_flag = AbsoluteMove | LeftDown | LeftUp | RightDown | RightUp | MiddleDown | MiddleUp | Wheel | HWheel

record mouse_input =
  mi_dx :: i32
  mi_dy :: i32
  mi_data :: u32
  mi_flags :: mouse_flag

definition WHEEL_DELTA :: int where "WHEEL_DELTA = 120"

text \<open>
  \<open>norm\<close> is the floating-point expression \<^verbatim>\<open>(x.clamp(0.0, 1.0) * 65535.0).round() as i32\<close>. The
  answers say whether \<^verbatim>\<open>SendInput\<close> took the event.
\<close>

definition move_to :: "(f32 \<Rightarrow> i32) \<Rightarrow> f32 \<Rightarrow> f32 \<Rightarrow> mouse_input" where
  "move_to norm x_norm y_norm = \<lparr> mi_dx = norm x_norm, mi_dy = norm y_norm, mi_data = 0, mi_flags = AbsoluteMove \<rparr>"

fun button_flag :: "MouseButton \<Rightarrow> bool \<Rightarrow> mouse_flag" where
  "button_flag Left True = LeftDown"
| "button_flag Left False = LeftUp"
| "button_flag Right True = RightDown"
| "button_flag Right False = RightUp"
| "button_flag Middle True = MiddleDown"
| "button_flag Middle False = MiddleUp"

definition button :: "MouseButton \<Rightarrow> bool \<Rightarrow> mouse_input" where
  "button b down = \<lparr> mi_dx = 0, mi_dy = 0, mi_data = 0, mi_flags = button_flag b down \<rparr>"

text \<open>\<^verbatim>\<open>saturating_mul\<close> on \<^verbatim>\<open>i32\<close>.\<close>

definition saturating_i32 :: "int \<Rightarrow> i32" where
  "saturating_i32 v = word_of_int (max (- (2 ^ 31)) (min (2 ^ 31 - 1) v))"

definition wheel :: "mouse_flag \<Rightarrow> i32 \<Rightarrow> mouse_input" where
  "wheel flag d = \<lparr> mi_dx = 0, mi_dy = 0, mi_data = saturating_i32 (sint d * WHEEL_DELTA), mi_flags = flag \<rparr>"

text \<open>The events of a scroll, vertical first; a failing event ends it with an error.\<close>

definition scroll :: "i32 \<Rightarrow> i32 \<Rightarrow> bool \<Rightarrow> bool \<Rightarrow> bool \<times> mouse_input list" where
  "scroll dx dy ok_y ok_x =
     (let vs = (if dy \<noteq> 0 then [wheel Wheel dy] else []) in
      if dy \<noteq> 0 \<and> \<not> ok_y then (False, vs)
      else if dx \<noteq> 0 then (ok_x, vs @ [wheel HWheel dx]) else (True, vs))"

section \<open>Keyboard\<close>

record keybd_input =
  ki_vk :: u16
  ki_scan :: u16
  ki_unicode :: bool
  ki_keyup :: bool

definition unit_event :: "nat \<Rightarrow> bool \<Rightarrow> keybd_input" where
  "unit_event u up = \<lparr> ki_vk = 0, ki_scan = word_of_nat u, ki_unicode = True, ki_keyup = up \<rparr>"

text \<open>
  One press and one release for every UTF-16 unit of every character. \<open>oks\<close> are the answers of
  \<^verbatim>\<open>SendInput\<close>; the first failure ends the call.
\<close>

fun send_all :: "keybd_input list \<Rightarrow> bool list \<Rightarrow> bool \<times> keybd_input list" where
  "send_all [] oks = (True, [])"
| "send_all (k # ks) oks =
     (if (case oks of ok # r \<Rightarrow> ok | [] \<Rightarrow> True) then (let (ok, sent) = send_all ks (tl oks) in (ok, k # sent)) else (False, []))"

definition type_unicode :: "string \<Rightarrow> bool list \<Rightarrow> bool \<times> keybd_input list" where
  "type_unicode txt oks =
     send_all (concat (map (\<lambda>ch. concat (map (\<lambda>u. [unit_event u False, unit_event u True]) (utf16_enc1 ch))) (chars txt))) oks"

definition vkey :: "u32 \<Rightarrow> bool \<Rightarrow> keybd_input option" where
  "vkey vk down = (if vk = 0 \<or> vk > 0xFF then None
     else Some \<lparr> ki_vk = ucast vk, ki_scan = 0, ki_unicode = False, ki_keyup = \<not> down \<rparr>)"

section \<open>Clipboard\<close>

datatype clip_call = OpenClipboard bool | EmptyClipboard | GetData | GlobalAlloc bool | GlobalLock bool | GlobalUnlock
  | SetData bool | CloseClipboard

text \<open>
  The memory behind the clipboard handle is a list of 16-bit units, up to its terminating zero or
  longer; \<open>None\<close>: a null pointer.
\<close>

record clip_read_io =
  cr_open :: bool
  cr_get :: bool
  cr_handle :: bool
  cr_memory :: "nat list option"

definition MAX_CLIP_UNITS :: nat where "MAX_CLIP_UNITS = 16 * 1024 * 1024"

definition read_text :: "clip_read_io \<Rightarrow> string option \<times> clip_call list" where
  "read_text io =
     (if \<not> cr_open io then (None, [OpenClipboard False])
      else let (r, cs) =
        (if \<not> cr_get io \<or> \<not> cr_handle io then (None, [GetData])
         else (case cr_memory io of
             None \<Rightarrow> (None, [GetData, GlobalLock False])
           | Some mem \<Rightarrow>
               let units = takeWhile (\<lambda>u. u \<noteq> 0) mem in
               if length units > MAX_CLIP_UNITS then (None, [GetData, GlobalLock True, GlobalUnlock])
               else (Some (from_chars (utf16_lossy units)), [GetData, GlobalLock True, GlobalUnlock])))
      in (r, OpenClipboard True # cs @ [CloseClipboard]))"

record clip_write_io =
  cw_open :: bool
  cw_empty :: bool
  cw_alloc :: bool
  cw_lock :: bool
  cw_set :: bool

text \<open>The memory that is handed over, if the write succeeds.\<close>

definition write_text :: "clip_write_io \<Rightarrow> string \<Rightarrow> nat list option \<times> clip_call list" where
  "write_text io txt =
     (let utf16 = utf16_enc (chars txt) @ [0] in
      if \<not> cw_open io then (None, [OpenClipboard False])
      else let (r, cs) =
        (if \<not> cw_empty io then (None, [EmptyClipboard])
         else if \<not> cw_alloc io then (None, [EmptyClipboard, GlobalAlloc False])
         else if \<not> cw_lock io then (None, [EmptyClipboard, GlobalAlloc True, GlobalLock False])
         else (if cw_set io then Some utf16 else None,
               [EmptyClipboard, GlobalAlloc True, GlobalLock True, GlobalUnlock, SetData (cw_set io)]))
      in (r, OpenClipboard True # cs @ [CloseClipboard]))"

fun clip_usage :: "clip_call \<Rightarrow> usage" where
  "clip_usage (OpenClipboard ok) = (if ok then Acquire else Neutral)"
| "clip_usage CloseClipboard = Release"
| "clip_usage EmptyClipboard = Use"
| "clip_usage GetData = Use"
| "clip_usage (SetData ok) = Use"
| "clip_usage c = Neutral"

fun memory_usage :: "clip_call \<Rightarrow> usage" where
  "memory_usage (GlobalLock ok) = (if ok then Acquire else Neutral)"
| "memory_usage GlobalUnlock = Release"
| "memory_usage c = Neutral"

datatype clip_op = ReadText clip_read_io | WriteText clip_write_io string

fun clip_step :: "clip_op \<Rightarrow> unit \<Rightarrow> unit \<times> clip_call list" where
  "clip_step (ReadText io) s = ((), snd (read_text io))"
| "clip_step (WriteText io txt) s = ((), snd (write_text io txt))"

lemma clip_calls: "clip_step op s = (s', cs) \<Longrightarrow> bracket clip_usage False cs = Some False \<and> bracket memory_usage False cs = Some False"
  by (cases op) (auto simp: read_text_def write_text_def Let_def split: option.splits)

interpretation clipboard: device clip_step "\<lambda>s. False" clip_usage
  by unfold_locales (use clip_calls in blast)

interpretation clip_memory: device clip_step "\<lambda>s. False" memory_usage
  by unfold_locales (use clip_calls in blast)

section \<open>Facts about UTF-16\<close>

lemma utf16_lossy_enc1:
  assumes "is_scalar c"
  shows "utf16_lossy (utf16_enc1 c @ us) = c # utf16_lossy us"
proof (cases "c < 0x10000")
  case True
  with assms have "\<not> high_surrogate c" "\<not> low_surrogate c" by (auto simp: is_scalar_def high_surrogate_def low_surrogate_def)
  with True show ?thesis by (cases us) (simp_all add: utf16_enc1_def)
next
  case False
  let ?d = "c - 0x10000"
  from assms False have d: "?d < 1024 * 1024" by (auto simp: is_scalar_def)
  then have "?d div 1024 < 1024" by (simp add: less_mult_imp_div_less)
  then have "high_surrogate (0xD800 + ?d div 1024)" "low_surrogate (0xDC00 + ?d mod 1024)"
    by (simp_all add: high_surrogate_def low_surrogate_def)
  moreover have "0x10000 + ?d div 1024 * 1024 + ?d mod 1024 = c" using False by simp
  ultimately show ?thesis using False by (simp add: utf16_enc1_def)
qed

lemma utf16_lossy_enc: "list_all is_scalar cs \<Longrightarrow> utf16_lossy (utf16_enc cs) = cs"
  by (induction cs) (simp_all add: utf16_enc_def utf16_lossy_enc1)

lemma utf16_enc1_nonzero: "0 \<notin> set (utf16_enc1 c) \<longleftrightarrow> c \<noteq> 0"
  by (auto simp: utf16_enc1_def)

lemma utf16_units: "is_scalar c \<Longrightarrow> u \<in> set (utf16_enc1 c) \<Longrightarrow> u < 2 ^ 16"
  by (auto simp: utf16_enc1_def is_scalar_def less_mult_imp_div_less split: if_splits)

lemma send_all_prefix: "\<exists>rest. ks = snd (send_all ks oks) @ rest"
  by (induction ks oks rule: send_all.induct) (auto split: prod.splits)

lemma send_all_ok: "list_all id oks \<Longrightarrow> send_all ks oks = (True, ks)"
proof (induction ks arbitrary: oks)
  case (Cons k ks)
  then show ?case by (cases oks) simp_all
qed simp

lemma send_all_full: "fst (send_all ks oks) \<Longrightarrow> snd (send_all ks oks) = ks"
  by (induction ks oks rule: send_all.induct) (auto split: prod.splits if_splits)

text \<open>The units of a list of press and release events, read off the presses.\<close>

definition presses :: "keybd_input list \<Rightarrow> nat list" where
  "presses ks = map (\<lambda>k. unat (ki_scan k)) (filter (\<lambda>k. \<not> ki_keyup k) ks)"

lemma presses_append [simp]: "presses (xs @ ys) = presses xs @ presses ys"
  by (simp add: presses_def)

lemma presses_char:
  assumes "is_scalar c"
  shows "presses (concat (map (\<lambda>u. [unit_event u False, unit_event u True]) (utf16_enc1 c))) = utf16_enc1 c"
proof -
  have "list_all (\<lambda>u. u < 2 ^ 16) us \<Longrightarrow>
      presses (concat (map (\<lambda>u. [unit_event u False, unit_event u True]) us)) = us" for us
    by (induction us) (simp_all add: presses_def unit_event_def unat_of_nat take_bit_nat_eq_self)
  with utf16_units [OF assms] show ?thesis by (simp add: list_all_iff)
qed

lemma presses_chars:
  "list_all is_scalar cs \<Longrightarrow>
    presses (concat (map (\<lambda>ch. concat (map (\<lambda>u. [unit_event u False, unit_event u True]) (utf16_enc1 ch))) cs)) = utf16_enc cs"
proof (induction cs)
  case Nil
  show ?case by (simp add: utf16_enc_def presses_def)
next
  case (Cons c cs)
  then show ?case by (simp add: presses_char utf16_enc_def)
qed

text \<open>Up and down alternate: every press is followed by the release of the same unit.\<close>

fun paired :: "keybd_input list \<Rightarrow> bool" where
  "paired (a # b # r) = (\<not> ki_keyup a \<and> b = a\<lparr>ki_keyup := True\<rparr> \<and> paired r)"
| "paired [] = True"
| "paired [a] = False"

lemma paired_append: "paired xs \<Longrightarrow> paired ys \<Longrightarrow> paired (xs @ ys)"
  by (induction xs rule: paired.induct) simp_all

lemma paired_units: "paired (concat (map (\<lambda>u. [unit_event u False, unit_event u True]) us))"
  by (induction us) (simp_all add: unit_event_def)

lemma paired_chars:
  "paired (concat (map (\<lambda>ch. concat (map (\<lambda>u. [unit_event u False, unit_event u True]) (utf16_enc1 ch))) cs))"
  by (induction cs) (simp_all add: paired_append paired_units)

lemma takeWhile_terminated: "0 \<notin> set us \<Longrightarrow> takeWhile (\<lambda>u. u \<noteq> (0::nat)) (us @ 0 # rest) = us"
  by (induction us) auto

lemma utf16_enc_nonzero: "0 \<notin> set cs \<Longrightarrow> 0 \<notin> set (utf16_enc cs)"
  by (induction cs) (auto simp: utf16_enc_def utf16_enc1_nonzero)

lemma write_text_memory: "write_text io txt = (Some mem, cs) \<Longrightarrow> mem = utf16_enc (chars txt) @ [0]"
  by (auto simp: write_text_def Let_def split: if_splits)

section \<open>Properties\<close>

text \<open>
  Typing text: if the call succeeds, the key events are press and release of one unit at a time
  and the presses decode to exactly the text; whenever it fails, what was sent is a beginning of
  those events, and it fails only if the system refused an event.
\<close>

theorem typed_text:
  assumes "type_unicode txt oks = (ok, ks)"
  shows "(ok \<longrightarrow> paired ks \<and> utf16_lossy (presses ks) = chars txt)
    \<and> (\<exists>rest. snd (type_unicode txt []) = ks @ rest)
    \<and> (\<not> ok \<longrightarrow> False \<in> set oks)"
proof -
  let ?all = "concat (map (\<lambda>ch. concat (map (\<lambda>u. [unit_event u False, unit_event u True]) (utf16_enc1 ch))) (chars txt))"
  have run: "send_all ?all oks = (ok, ks)" using assms by (simp add: type_unicode_def)
  have "ok \<Longrightarrow> ks = ?all" using send_all_full [of ?all oks] run by simp
  moreover have "utf16_lossy (presses ?all) = chars txt"
    by (simp add: presses_chars utf16_lossy_enc chars_scalar)
  moreover have "snd (type_unicode txt []) = ?all" by (simp add: type_unicode_def send_all_ok)
  moreover have "\<not> ok \<Longrightarrow> False \<in> set oks" using send_all_ok [of oks ?all] run by (fastforce simp: list_all_iff)
  ultimately show ?thesis using send_all_prefix [of ?all oks] run paired_chars by auto
qed

lemma typed_text_witness:
  "\<exists>ks. type_unicode ''hi'' [True, True, True] = (True, ks) \<and> utf16_lossy (presses ks) = chars ''hi''"
proof -
  obtain ks where t: "type_unicode ''hi'' [True, True, True] = (True, ks)"
    by (simp add: type_unicode_def send_all_ok)
  with typed_text [OF t] show ?thesis by simp
qed

text \<open>
  The clipboard: when a write succeeds, a later read of the memory that was handed over returns
  the same text, provided the text holds no NUL character and is at most
  \<open>MAX_CLIP_UNITS\<close> units long.
\<close>

theorem clipboard_roundtrip:
  assumes "write_text w txt = (Some mem, cs)"
    and "rust_str txt" "0 \<notin> set (chars txt)" "length (utf16_enc (chars txt)) \<le> MAX_CLIP_UNITS"
    and "cr_open r" "cr_get r" "cr_handle r" "cr_memory r = Some (mem @ slack)"
  shows "fst (read_text r) = Some txt"
proof -
  have "mem = utf16_enc (chars txt) @ [0]" using assms(1) by (rule write_text_memory)
  with takeWhile_terminated [OF utf16_enc_nonzero [OF assms(3)], of slack]
  have "takeWhile (\<lambda>u. u \<noteq> 0) (mem @ slack) = utf16_enc (chars txt)" by simp
  with assms show ?thesis
    by (simp add: read_text_def Let_def utf16_lossy_enc chars_scalar from_chars_chars)
qed

lemma clipboard_roundtrip_witness:
  "let w = \<lparr> cw_open = True, cw_empty = True, cw_alloc = True, cw_lock = True, cw_set = True \<rparr>;
       r = \<lparr> cr_open = True, cr_get = True, cr_handle = True, cr_memory = fst (write_text w ''ok'') \<rparr>
   in fst (read_text r) = Some ''ok''"
proof -
  let ?w = "\<lparr> cw_open = True, cw_empty = True, cw_alloc = True, cw_lock = True, cw_set = True \<rparr>"
  obtain mem cs where m: "write_text ?w ''ok'' = (Some mem, cs)" by (simp add: write_text_def)
  have a: "is_ascii ''ok''" by (simp add: is_ascii_def)
  then have c: "chars ''ok'' = map of_char ''ok''" by (rule chars_ascii)
  have "0 \<notin> set (chars ''ok'')" "length (utf16_enc (chars ''ok'')) \<le> MAX_CLIP_UNITS"
    by (simp_all add: c utf16_enc_def utf16_enc1_def MAX_CLIP_UNITS_def)
  from clipboard_roundtrip [OF m rust_str_ascii [OF a] this,
      of "\<lparr> cr_open = True, cr_get = True, cr_handle = True, cr_memory = Some mem \<rparr>" "[]"] m
  show ?thesis by (simp add: Let_def)
qed

end
