(* ===== verification/Lan_Peer.thy ===== *)
theory Lan_Peer
  imports Connection Relay_Client
begin

text \<open>
  The bridge between a phone's LAN socket and the connection logic
  (\<^verbatim>\<open>server-pc/src/ws_server.rs\<close>, \<^verbatim>\<open>bridge_lan_peer\<close>): a reader task, a writer task
  over three queues, \<^verbatim>\<open>run_connection\<close> between them and the file streamers it has spawned,
  as interleaved steps. What \<^verbatim>\<open>run_connection\<close> does with a message is modelled in theory
  Run_Connection; here it is a task that may receive, send and return. A channel is closed for its
  receiver when no task holds a sender; a sender sees an error when the receiver is gone.
\<close>

section \<open>State\<close>

definition OUTBOUND_VIDEO_CAP :: nat where "OUTBOUND_VIDEO_CAP = 2"
definition OUTBOUND_BULK_CAP :: nat where "OUTBOUND_BULK_CAP = 8"

datatype lan_stage = LRun | LJoinReader | LJoinWriter | LDone

datatype lan_chan = CCtl | CVideo | CBulk

text \<open>
  \<open>lp_reader\<close>, \<open>lp_writer\<close>: the two pump tasks are running; \<open>lp_streamers\<close>: the file
  streamers that hold a clone of the bulk sender. The last five fields record what was read from the
  socket, taken by the logic, accepted by the control and bulk queues and put on the wire.
\<close>

record lan_peer =
  lp_stage :: lan_stage
  lp_reader :: bool
  lp_writer :: bool
  lp_streamers :: nat
  lp_inbox :: "Message list"
  lp_ctl :: "Message list"
  lp_video :: "Message list"
  lp_bulk :: "Message list"
  lp_read :: "Message list"
  lp_taken :: "Message list"
  lp_acc_ctl :: "Message list"
  lp_acc_bulk :: "Message list"
  lp_wire :: "(lan_chan \<times> Message) list"

definition lan_start :: lan_peer where
  "lan_start = \<lparr> lp_stage = LRun, lp_reader = True, lp_writer = True, lp_streamers = 0, lp_inbox = [],
     lp_ctl = [], lp_video = [], lp_bulk = [], lp_read = [], lp_taken = [], lp_acc_ctl = [],
     lp_acc_bulk = [], lp_wire = [] \<rparr>"

section \<open>Operations\<close>

text \<open>
  The reader's turn. The receiver lives in \<^verbatim>\<open>run_connection\<close>, so the send fails once that
  has returned.
\<close>

definition reader_item :: "Message option \<Rightarrow> lan_peer \<Rightarrow> lan_peer" where
  "reader_item it s =
     (case it of
        Some m \<Rightarrow> if lp_stage s = LRun then s\<lparr>lp_inbox := lp_inbox s @ [m], lp_read := lp_read s @ [m]\<rparr>
                  else s\<lparr>lp_reader := False\<rparr>
      | None \<Rightarrow> s\<lparr>lp_reader := False\<rparr>)"

text \<open>
  What \<^verbatim>\<open>inbox.recv()\<close> finds. Besides the reader's clone there is the sender
  \<^verbatim>\<open>bridge_lan_peer\<close> keeps until \<^verbatim>\<open>run_connection\<close> has returned.
\<close>

definition bridge_holds_inbox :: "lan_peer \<Rightarrow> bool" where
  "bridge_holds_inbox s = (lp_stage s = LRun)"

definition inbox_recv :: "lan_peer \<Rightarrow> Message recv_state" where
  "inbox_recv s = (case lp_inbox s of m # q \<Rightarrow> Item m
     | [] \<Rightarrow> if bridge_holds_inbox s \<or> lp_reader s then Pending else Closed)"

definition ctl_recv :: "lan_peer \<Rightarrow> Message recv_state" where
  "ctl_recv s = (case lp_ctl s of m # q \<Rightarrow> Item m | [] \<Rightarrow> if lp_stage s = LRun then Pending else Closed)"

definition video_recv :: "lan_peer \<Rightarrow> Message recv_state" where
  "video_recv s = (case lp_video s of m # q \<Rightarrow> Item m | [] \<Rightarrow> if lp_stage s = LRun then Pending else Closed)"

definition bulk_recv :: "lan_peer \<Rightarrow> Message recv_state" where
  "bulk_recv s = (case lp_bulk s of m # q \<Rightarrow> Item m
     | [] \<Rightarrow> if lp_stage s = LRun \<or> lp_streamers s > 0 then Pending else Closed)"

text \<open>The unbounded control queue; a failing send is ignored.\<close>

definition send_ctl :: "Message \<Rightarrow> lan_peer \<Rightarrow> lan_peer" where
  "send_ctl m s = (if lp_writer s then s\<lparr>lp_ctl := lp_ctl s @ [m], lp_acc_ctl := lp_acc_ctl s @ [m]\<rparr> else s)"

definition try_video :: "Message \<Rightarrow> lan_peer \<Rightarrow> try_send \<times> lan_peer" where
  "try_video m s =
     (if \<not> lp_writer s then (SendClosed, s)
      else if length (lp_video s) < OUTBOUND_VIDEO_CAP then (SendOk, s\<lparr>lp_video := lp_video s @ [m]\<rparr>)
      else (SendFull, s))"

text \<open>\<open>None\<close>: the streamer waits for room. With the writer gone the send fails and the streamer ends.\<close>

definition send_bulk :: "Message \<Rightarrow> lan_peer \<Rightarrow> lan_peer option" where
  "send_bulk m s =
     (if \<not> lp_writer s then Some (s\<lparr>lp_streamers := lp_streamers s - 1\<rparr>)
      else if length (lp_bulk s) < OUTBOUND_BULK_CAP
      then Some (s\<lparr>lp_bulk := lp_bulk s @ [m], lp_acc_bulk := lp_acc_bulk s @ [m]\<rparr>)
      else None)"

text \<open>The writer's turn; \<open>ok\<close> is the answer of the sink. When it ends, its receivers are dropped.\<close>

definition writer_down :: "lan_peer \<Rightarrow> lan_peer" where
  "writer_down s = s\<lparr>lp_writer := False, lp_ctl := [], lp_video := [], lp_bulk := []\<rparr>"

definition writer_chan :: "lan_peer \<Rightarrow> lan_chan" where
  "writer_chan s = (if lp_ctl s \<noteq> [] then CCtl else if lp_video s \<noteq> [] then CVideo else CBulk)"

definition writer_pop :: "lan_peer \<Rightarrow> lan_peer" where
  "writer_pop s = (case writer_chan s of
      CCtl \<Rightarrow> s\<lparr>lp_ctl := tl (lp_ctl s)\<rparr>
    | CVideo \<Rightarrow> s\<lparr>lp_video := tl (lp_video s)\<rparr>
    | CBulk \<Rightarrow> s\<lparr>lp_bulk := tl (lp_bulk s)\<rparr>)"

definition lan_writer :: "bool \<Rightarrow> lan_peer \<Rightarrow> lan_peer option" where
  "lan_writer ok s =
     (case pump_select (ctl_recv s) (video_recv s) (bulk_recv s) of
        Pending \<Rightarrow> None
      | Closed \<Rightarrow> Some (writer_down s)
      | Item m \<Rightarrow> Some (if ok then (writer_pop s)\<lparr>lp_wire := lp_wire s @ [(writer_chan s, m)]\<rparr>
                       else writer_down s))"

text \<open>\<^verbatim>\<open>run_connection\<close> returns: its receiver and senders are gone, and the bridge drops its own sender.\<close>

definition logic_return :: "lan_peer \<Rightarrow> lan_peer" where
  "logic_return s = s\<lparr>lp_stage := LJoinReader, lp_inbox := []\<rparr>"

section \<open>The tasks together\<close>

inductive lan_step :: "lan_peer \<Rightarrow> lan_peer \<Rightarrow> bool" where
  ls_reader: "lp_reader s \<Longrightarrow> lan_step s (reader_item it s)"
| ls_recv: "lp_stage s = LRun \<Longrightarrow> lp_inbox s = m # q \<Longrightarrow>
    lan_step s (s\<lparr>lp_inbox := q, lp_taken := lp_taken s @ [m]\<rparr>)"
| ls_closed: "lp_stage s = LRun \<Longrightarrow> inbox_recv s = Closed \<Longrightarrow> lan_step s (logic_return s)"
| ls_ctl: "lp_stage s = LRun \<Longrightarrow> lan_step s (send_ctl m s)"
| ls_video: "lp_stage s = LRun \<Longrightarrow> lan_step s (snd (try_video m s))"
| ls_spawn: "lp_stage s = LRun \<Longrightarrow> lan_step s (s\<lparr>lp_streamers := lp_streamers s + 1\<rparr>)"
| ls_return: "lp_stage s = LRun \<Longrightarrow> lan_step s (logic_return s)"
| ls_bulk: "lp_streamers s > 0 \<Longrightarrow> send_bulk m s = Some s' \<Longrightarrow> lan_step s s'"
| ls_streamed: "lp_streamers s > 0 \<Longrightarrow> lan_step s (s\<lparr>lp_streamers := lp_streamers s - 1\<rparr>)"
| ls_writer: "lp_writer s \<Longrightarrow> lan_writer ok s = Some s' \<Longrightarrow> lan_step s s'"
| ls_join_reader: "lp_stage s = LJoinReader \<Longrightarrow> \<not> lp_reader s \<Longrightarrow> lan_step s (s\<lparr>lp_stage := LJoinWriter\<rparr>)"
| ls_join_writer: "lp_stage s = LJoinWriter \<Longrightarrow> \<not> lp_writer s \<Longrightarrow> lan_step s (s\<lparr>lp_stage := LDone\<rparr>)"

inductive lan_path :: "nat \<Rightarrow> lan_peer \<Rightarrow> lan_peer \<Rightarrow> bool" where
  lan_refl: "lan_path 0 s s"
| lan_more: "lan_path n s t \<Longrightarrow> lan_step t u \<Longrightarrow> lan_path (Suc n) s u"

lemmas lan_ops = reader_item_def send_ctl_def try_video_def send_bulk_def lan_writer_def writer_down_def
  writer_pop_def writer_chan_def logic_return_def pump_select_def ctl_recv_def video_recv_def bulk_recv_def

section \<open>The invariant\<close>

definition on_chan :: "lan_chan \<Rightarrow> lan_peer \<Rightarrow> Message list" where
  "on_chan c s = map snd (filter (\<lambda>x. fst x = c) (lp_wire s))"

definition lan_inv :: "lan_peer \<Rightarrow> bool" where
  "lan_inv s \<longleftrightarrow>
     (lp_stage s = LRun \<longrightarrow> lp_read s = lp_taken s @ lp_inbox s)
   \<and> (\<exists>r. lp_read s = lp_taken s @ r)
   \<and> length (lp_video s) \<le> OUTBOUND_VIDEO_CAP \<and> length (lp_bulk s) \<le> OUTBOUND_BULK_CAP
   \<and> (\<exists>r. lp_acc_ctl s = on_chan CCtl s @ lp_ctl s @ r \<and> (lp_writer s \<longrightarrow> r = []))
   \<and> (\<exists>r. lp_acc_bulk s = on_chan CBulk s @ lp_bulk s @ r \<and> (lp_writer s \<longrightarrow> r = []))
   \<and> (\<not> lp_writer s \<longrightarrow> lp_ctl s = [] \<and> lp_video s = [] \<and> lp_bulk s = [])
   \<and> (lp_stage s = LJoinWriter \<or> lp_stage s = LDone \<longrightarrow> \<not> lp_reader s)
   \<and> (lp_stage s = LDone \<longrightarrow> \<not> lp_writer s)"

lemma lan_inv_start: "lan_inv lan_start"
  by (simp add: lan_inv_def lan_start_def on_chan_def)

text \<open>The writer's turn, case by case.\<close>

lemma lan_writer_cases:
  assumes "lan_writer ok s = Some s'"
  obtains (down) "s' = writer_down s"
    | (ctl) m q where "lp_ctl s = m # q" "s' = s\<lparr>lp_ctl := q, lp_wire := lp_wire s @ [(CCtl, m)]\<rparr>"
    | (video) m q where "lp_ctl s = []" "lp_video s = m # q"
        "s' = s\<lparr>lp_video := q, lp_wire := lp_wire s @ [(CVideo, m)]\<rparr>"
    | (bulk) m q where "lp_ctl s = []" "lp_video s = []" "lp_bulk s = m # q"
        "s' = s\<lparr>lp_bulk := q, lp_wire := lp_wire s @ [(CBulk, m)]\<rparr>"
  using assms
  by (cases "lp_ctl s"; cases "lp_video s"; cases "lp_bulk s") (auto simp: lan_ops split: if_splits)

lemma writer_inv: "lan_writer ok s = Some s' \<Longrightarrow> lp_writer s \<Longrightarrow> lan_inv s \<Longrightarrow> lan_inv s'"
  by (erule lan_writer_cases) (auto simp: lan_inv_def on_chan_def writer_down_def)

lemma lan_step_inv: "lan_step s s' \<Longrightarrow> lan_inv s \<Longrightarrow> lan_inv s'"
proof (induction rule: lan_step.induct)
  case (ls_writer s ok s')
  then show ?case using writer_inv by blast
qed (auto simp: lan_inv_def on_chan_def reader_item_def send_ctl_def try_video_def send_bulk_def
    logic_return_def split: option.split if_splits)

lemma lan_path_inv: "lan_path n s t \<Longrightarrow> lan_inv s \<Longrightarrow> lan_inv t"
  by (induction rule: lan_path.induct) (auto intro: lan_step_inv)

section \<open>Properties\<close>

text \<open>
  While \<^verbatim>\<open>run_connection\<close> runs, it never sees its inbox close: a socket that fails or
  ends without a close message stops the reader, but the bridge still holds a sender, so the logic
  only waits. What the logic has received is always a beginning of what was read, in order.
\<close>

theorem lan_inbox_open:
  assumes "lan_path n lan_start s"
  shows "(lp_stage s = LRun \<longrightarrow> inbox_recv s \<noteq> Closed \<and> inbox_recv (reader_item None s) \<noteq> Closed)
    \<and> (\<exists>r. lp_read s = lp_taken s @ r)"
  using lan_path_inv [OF assms lan_inv_start]
  by (auto simp: lan_inv_def inbox_recv_def bridge_holds_inbox_def reader_item_def split: list.split)

lemma lan_dead_reader: "lan_path 1 lan_start (lan_start\<lparr>lp_reader := False\<rparr>)"
proof -
  have "lan_step lan_start (reader_item None lan_start)" by (rule ls_reader) (simp add: lan_start_def)
  from lan_more [OF lan_refl this] show ?thesis by (simp add: reader_item_def)
qed

lemma lan_inbox_open_witness: "inbox_recv (lan_start\<lparr>lp_reader := False\<rparr>) \<noteq> Closed"
  using lan_inbox_open [OF lan_dead_reader] by (simp add: lan_start_def)

text \<open>
  C38. The wire towards the phone: the control messages on it are the accepted ones in order, without
  a gap, and so are the file chunks; the video queue never holds more than two frames and the bulk
  queue never more than eight chunks; and a file chunk goes out only when every control message
  accepted so far has gone out, so the announcement of a file precedes its chunks.
\<close>

theorem lan_outbound:
  assumes "lan_path n lan_start s"
  shows "(\<exists>r. lp_acc_ctl s = on_chan CCtl s @ r) \<and> (\<exists>r. lp_acc_bulk s = on_chan CBulk s @ r)
    \<and> (lp_writer s \<longrightarrow> lp_acc_ctl s = on_chan CCtl s @ lp_ctl s \<and> lp_acc_bulk s = on_chan CBulk s @ lp_bulk s)
    \<and> length (lp_video s) \<le> 2 \<and> length (lp_bulk s) \<le> 8
    \<and> (lp_writer s \<and> lan_writer ok s = Some s' \<and> on_chan CBulk s' \<noteq> on_chan CBulk s \<longrightarrow>
         on_chan CCtl s' = lp_acc_ctl s)"
proof -
  have inv: "lan_inv s" using lan_path_inv [OF assms lan_inv_start] .
  have "lan_writer ok s = Some s' \<Longrightarrow> on_chan CBulk s' \<noteq> on_chan CBulk s \<Longrightarrow>
      lp_ctl s = [] \<and> on_chan CCtl s' = on_chan CCtl s"
    by (erule lan_writer_cases) (auto simp: on_chan_def writer_down_def)
  with inv show ?thesis
    by (auto simp: lan_inv_def OUTBOUND_VIDEO_CAP_def OUTBOUND_BULK_CAP_def)
qed

lemma lan_outbound_witness: "length (lp_bulk (lan_start\<lparr>lp_reader := False\<rparr>)) \<le> 8"
  using lan_outbound [OF lan_dead_reader] by simp

section \<open>Teardown\<close>

text \<open>What is left to do after the logic has returned.\<close>

definition stage_left :: "lan_stage \<Rightarrow> nat" where
  "stage_left st = (case st of LRun \<Rightarrow> 3 | LJoinReader \<Rightarrow> 2 | LJoinWriter \<Rightarrow> 1 | LDone \<Rightarrow> 0)"

definition lan_left :: "lan_peer \<Rightarrow> nat" where
  "lan_left s = stage_left (lp_stage s) + (if lp_reader s then 1 else 0) + (if lp_writer s then 1 else 0)
     + length (lp_ctl s) + length (lp_video s) + length (lp_bulk s)"

lemma writer_left: "lan_writer ok s = Some s' \<Longrightarrow> lp_writer s \<Longrightarrow> lan_left s' < lan_left s
    \<and> lp_stage s' = lp_stage s \<and> lp_streamers s' = lp_streamers s"
  by (erule lan_writer_cases) (auto simp: lan_left_def writer_down_def)

lemma lan_step_left:
  "lan_step s s' \<Longrightarrow> lp_stage s \<noteq> LRun \<Longrightarrow> lp_streamers s = 0 \<Longrightarrow>
    lan_left s' < lan_left s \<and> lp_stage s' \<noteq> LRun \<and> lp_streamers s' = 0"
proof (induction rule: lan_step.induct)
  case (ls_writer s ok s')
  then show ?case using writer_left [OF ls_writer(2,1)] by simp
qed (auto simp: lan_left_def stage_left_def reader_item_def split: option.split)

lemma lan_path_left:
  "lan_path n s t \<Longrightarrow> lp_stage s \<noteq> LRun \<Longrightarrow> lp_streamers s = 0 \<Longrightarrow>
    n + lan_left t \<le> lan_left s \<and> lp_stage t \<noteq> LRun \<and> lp_streamers t = 0"
proof (induction rule: lan_path.induct)
  case (lan_more n s t u)
  then show ?case using lan_step_left [OF lan_more(2)] by fastforce
qed simp

lemma lan_unfinished:
  assumes "lan_inv s" "lp_stage s \<noteq> LRun" "lp_stage s \<noteq> LDone" "lp_streamers s = 0"
  shows "\<exists>s'. lan_step s s'"
proof (cases "lp_writer s")
  case True
  have "pump_select (ctl_recv s) (video_recv s) (bulk_recv s) \<noteq> Pending"
    using assms(2) by (cases "lp_ctl s") (simp_all add: ctl_recv_def pump_select_def)
  then obtain s' where "lan_writer True s = Some s'"
    by (cases "pump_select (ctl_recv s) (video_recv s) (bulk_recv s)") (simp_all add: lan_writer_def)
  with True show ?thesis by (blast intro: ls_writer)
next
  case False
  with assms show ?thesis
    by (cases "lp_reader s"; cases "lp_stage s")
      (auto simp: lan_inv_def intro: ls_reader ls_join_reader ls_join_writer)
qed



end
