(* ===== verification/Server.thy ===== *)
theory Server
  imports Qr_Payload
begin

text \<open>
  The process around the components: which transports are started
  (\<^verbatim>\<open>main.rs\<close>, \<^verbatim>\<open>lib.rs\<close>), the default configuration (\<^verbatim>\<open>config.rs\<close>), the
  state directory (\<^verbatim>\<open>paths.rs\<close>), the reconnect loop of the relay client and the tray's event
  handler (\<^verbatim>\<open>tray.rs\<close>). Sockets, windows and threads are the libraries'; what they answer is
  an argument.
\<close>

section \<open>Modes\<close>

datatype ServerMode = LanOnly | LanAndRelay | RelayOnly

fun serves_lan :: "ServerMode \<Rightarrow> bool" where
  "serves_lan LanOnly = True"
| "serves_lan LanAndRelay = True"
| "serves_lan RelayOnly = False"

fun serves_relay :: "ServerMode \<Rightarrow> bool" where
  "serves_relay LanOnly = False"
| "serves_relay LanAndRelay = True"
| "serves_relay RelayOnly = True"

record Cli =
  cli_relay_register :: "string option"
  cli_relay :: bool
  cli_relay_only :: bool

datatype start_action = RegisterRelay string | Serve ServerMode

definition start_action_of :: "Cli \<Rightarrow> start_action" where
  "start_action_of cli =
     (case cli_relay_register cli of
        Some base_url \<Rightarrow> RegisterRelay base_url
      | None \<Rightarrow> Serve (if cli_relay_only cli then RelayOnly else if cli_relay cli then LanAndRelay else LanOnly))"

section \<open>Configuration and paths\<close>

record server_config =
  sv_port :: u16
  sv_server_name :: string
  sv_os :: string

definition load_or_default :: "string option \<Rightarrow> server_config" where
  "load_or_default computername =
     \<lparr> sv_port = 7890, sv_server_name = (case computername of Some h \<Rightarrow> h | None \<Rightarrow> ''DESKTOP''), sv_os = ''Windows'' \<rparr>"

text \<open>On Windows: \<open>LOCALAPPDATA\<close>, or else \<open>APPDATA\<close>.\<close>

definition local_state_dir :: "string option \<Rightarrow> string option \<Rightarrow> string option" where
  "local_state_dir local_appdata appdata =
     map_option (\<lambda>base. path_join base ''RemoteControl'') (case local_appdata of Some d \<Rightarrow> Some d | None \<Rightarrow> appdata)"

definition log_dir :: "string option \<Rightarrow> string option \<Rightarrow> string option" where
  "log_dir local_appdata appdata = map_option (\<lambda>d. path_join d ''logs'') (local_state_dir local_appdata appdata)"

text \<open>\<^verbatim>\<open>port.saturating_add(1)\<close>.\<close>

definition qr_http_port :: "u16 \<Rightarrow> u16" where
  "qr_http_port port = (if port = - 1 then port else port + 1)"

section \<open>Start-up\<close>

text \<open>What the machine answers while the server boots.\<close>

record boot_env =
  be_computername :: "string option"
  be_interfaces :: "interface list option"
  be_trusted :: "store_error + TrustedDevicesStore"
  be_trusted_tmp :: "store_error + TrustedDevicesStore"
  be_relay :: "relay_error + RelayConfig option"
  be_qr_printed :: bool

datatype boot_error = InterfacesUnreadable | NoLanAddress | TrustStoreUnavailable store_error
  | RelayConfigUnreadable relay_error | RelayNotProvisioned | QrNotPrinted

record boot_plan =
  bp_port :: u16
  bp_qr_port :: u16
  bp_addrs :: "DiscoveredAddr list"
  bp_primary :: string
  bp_trusted :: TrustedDevicesStore
  bp_lan :: bool
  bp_relay :: "RelayConfig option"
  bp_bridge :: "nat FileSendBridge"

definition open_trusted :: "boot_env \<Rightarrow> store_error + TrustedDevicesStore" where
  "open_trusted be = (case be_trusted be of Inr s \<Rightarrow> Inr s | Inl e \<Rightarrow> be_trusted_tmp be)"

definition load_relay :: "ServerMode \<Rightarrow> boot_env \<Rightarrow> boot_error + RelayConfig option" where
  "load_relay mode be =
     (if serves_relay mode then
        (case be_relay be of
           Inl e \<Rightarrow> Inl (RelayConfigUnreadable e)
         | Inr None \<Rightarrow> Inl RelayNotProvisioned
         | Inr (Some c) \<Rightarrow> Inr (Some c))
      else Inr None)"

definition run_server :: "ServerMode \<Rightarrow> boot_env \<Rightarrow> boot_error + boot_plan" where
  "run_server mode be =
     (let cfg = load_or_default (be_computername be) in
      case discover_lan_ipv4 (be_interfaces be) of
        None \<Rightarrow> Inl InterfacesUnreadable
      | Some addrs \<Rightarrow>
          if serves_lan mode \<and> addrs = [] then Inl NoLanAddress
          else (case open_trusted be of
              Inl e \<Rightarrow> Inl (TrustStoreUnavailable e)
            | Inr trusted \<Rightarrow>
                (case load_relay mode be of
                   Inl e \<Rightarrow> Inl e
                 | Inr relay_cfg \<Rightarrow>
                     if addrs \<noteq> [] \<and> serves_lan mode \<and> \<not> be_qr_printed be then Inl QrNotPrinted
                     else Inr \<lparr> bp_port = sv_port cfg, bp_qr_port = qr_http_port (sv_port cfg), bp_addrs = addrs,
                       bp_primary = (case addrs of a # r \<Rightarrow> ipv4_to_string (da_addr a) | [] \<Rightarrow> []),
                       bp_trusted = trusted, bp_lan = serves_lan mode, bp_relay = relay_cfg,
                       bp_bridge = new_bridge \<rparr>)))"

text \<open>The endpoint the QR page advertises, given the mode.\<close>

definition page_addrs :: "ServerMode \<Rightarrow> DiscoveredAddr list \<Rightarrow> DiscoveredAddr list" where
  "page_addrs mode addrs = (case mode of RelayOnly \<Rightarrow> [] | _ \<Rightarrow> addrs)"

definition render_qr :: "ServerMode \<Rightarrow> (bytes \<Rightarrow> string) \<Rightarrow> boot_plan \<Rightarrow> Inner \<Rightarrow> qr_card option" where
  "render_qr mode b64url bp pairing =
     (let (code, key_b64) = current_qr_fields b64url pairing in
      build_qr_card (page_addrs mode (bp_addrs bp)) (bp_port bp) code key_b64
        (map_option (\<lambda>r. \<lparr> rq_base_url = rc_base_url r, rq_host_id = rc_host_id r \<rparr>) (bp_relay bp)))"

section \<open>Reconnecting to the relay\<close>

text \<open>
  The loop around \<^verbatim>\<open>RelayClient::run\<close>, which never ends: given how long each session lasted,
  in nanoseconds, the seconds slept after each. The interval is an unsigned 64-bit integer.
\<close>

fun relay_reconnect :: "u64 \<Rightarrow> nat list \<Rightarrow> u64 list" where
  "relay_reconnect backoff_secs [] = []"
| "relay_reconnect backoff_secs (elapsed # es) =
     (let backoff_secs = (if elapsed \<ge> from_secs 60 then 1 else backoff_secs)
      in backoff_secs # relay_reconnect (min (backoff_secs * 2) 30) es)"

section \<open>Tray\<close>

text \<open>
  The window, if it is open, with the pairing code its page was loaded with; the pairing store shared
  with the server; whether the process has exited.
\<close>

record tray =
  ty_window :: "string option"
  ty_pairing :: Inner
  ty_exited :: bool

datatype tray_event = OpenQrAtStartup bool | MenuOpenQr bool | MenuRefresh "nat \<Rightarrow> nat" bytes nat bool
  | MenuOpenLogs | MenuQuit | CloseRequested

fun tray_step :: "tray_event \<Rightarrow> tray \<Rightarrow> tray" where
  "tray_step (OpenQrAtStartup ok) s =
     (if ty_window s = None \<and> ok then s\<lparr>ty_window := Some (p_code (ty_pairing s))\<rparr> else s)"
| "tray_step (MenuOpenQr ok) s =
     (if ty_window s = None \<and> ok then s\<lparr>ty_window := Some (p_code (ty_pairing s))\<rparr> else s)"
| "tray_step (MenuRefresh draw key now load_ok) s =
     (let p = rotate_code draw key now (ty_pairing s); s = s\<lparr>ty_pairing := p\<rparr>
      in if ty_window s \<noteq> None \<and> load_ok then s\<lparr>ty_window := Some (p_code p)\<rparr> else s)"
| "tray_step MenuOpenLogs s = s"
| "tray_step MenuQuit s = s\<lparr>ty_exited := True\<rparr>"
| "tray_step CloseRequested s = s\<lparr>ty_window := None\<rparr>"

text \<open>The icon: sixteen rows of sixteen palette letters.\<close>

definition icon_rows :: "string list" where
  "icon_rows =
    [''................'',
     ''.....BBBBB......'',
     ''....BBBBBBB.....'',
     ''....BKKKKKB.....'',
     ''....BKWWWKB.....'',
     ''....BKKKKKB.....'',
     ''....BKWWWKB.....'',
     ''....BKKKKKB.....'',
     ''....BKWWKKB.....'',
     ''....BKKKKKB.....'',
     ''....BKKKKKB.....'',
     ''....BKKKKKB.....'',
     ''....BKKKKKB.....'',
     ''....BBBBBBB.....'',
     ''.....BBBBB......'',
     ''................'']"

definition icon_pixel :: "char \<Rightarrow> bytes" where
  "icon_pixel p =
     (if p = CHR ''B'' then [0x3B, 0x82, 0xF6, 0xFF]
      else if p = CHR ''K'' then [0x0F, 0x17, 0x2A, 0xFF]
      else if p = CHR ''W'' then [0xF8, 0xFA, 0xFC, 0xFF]
      else if p = CHR ''.'' then [0, 0, 0, 0] else [])"

definition make_icon :: bytes where
  "make_icon = concat (map icon_pixel (concat icon_rows))"

lemma make_icon_size: "length make_icon = 16 * 16 * 4"
  by (simp add: make_icon_def icon_rows_def icon_pixel_def)

section \<open>Facts\<close>

lemma length_relay_reconnect: "length (relay_reconnect b es) = length es"
  by (induction b es rule: relay_reconnect.induct) (simp_all add: Let_def)

text \<open>Doubling an interval of at most half a minute does not overflow.\<close>

lemma backoff_double: "(b :: u64) \<le> 30 \<Longrightarrow> unat (min (b * 2) 30) = min (2 * unat b) 30"
proof -
  assume "b \<le> 30"
  then have "unat b \<le> 30" by (simp add: word_le_nat_alt)
  then have "unat (b * 2) = 2 * unat b" by (simp add: unat_word_ariths)
  then show ?thesis by (simp add: min_def word_le_nat_alt)
qed

lemma relay_reconnect_nth:
  assumes "b \<le> 30" "i < length es"
  shows "unat (relay_reconnect b es ! i) =
    (if es ! i \<ge> from_secs 60 then 1 else if i = 0 then unat b
     else min (2 * unat (relay_reconnect b es ! (i - 1))) 30)"
  using assms
proof (induction es arbitrary: b i)
  case (Cons e es)
  let ?b = "if e \<ge> from_secs 60 then 1 else b"
  have b: "?b \<le> 30" using Cons.prems(1) by simp
  show ?case
  proof (cases i)
    case 0
    then show ?thesis by simp
  next
    case (Suc j)
    have "min (?b * 2) 30 \<le> 30" by simp
    from Cons.IH [OF this, of j] Cons.prems(2) Suc backoff_double [OF b] show ?thesis
      by (cases j) (simp_all add: Let_def)
  qed
qed simp

lemma relay_reconnect_range: "1 \<le> unat b \<Longrightarrow> b \<le> 30 \<Longrightarrow> d \<in> set (relay_reconnect b es) \<Longrightarrow> 1 \<le> unat d \<and> unat d \<le> 30"
proof (induction es arbitrary: b)
  case (Cons e es)
  let ?b = "if e \<ge> from_secs 60 then 1 else b"
  have b: "?b \<le> 30" "1 \<le> unat ?b" using Cons.prems(1,2) by simp_all
  then have "unat ?b \<le> 30" by (simp add: word_le_nat_alt)
  moreover have "1 \<le> unat (min (?b * 2) 30)" using backoff_double [OF b(1)] b(2) by simp
  ultimately show ?case using Cons.IH [of "min (?b * 2) 30"] Cons.prems(3) b by (auto simp: Let_def)
qed simp

lemma open_trusted_Inr: "(\<exists>s. open_trusted be = Inr s) \<longleftrightarrow> (\<exists>s. be_trusted be = Inr s) \<or> (\<exists>s. be_trusted_tmp be = Inr s)"
  by (auto simp: open_trusted_def split: sum.split)

lemma load_relay_Inr: "load_relay mode be = Inr r \<longleftrightarrow>
    (if serves_relay mode then r \<noteq> None \<and> be_relay be = Inr r else r = None)"
  by (auto simp: load_relay_def split: sum.split option.split)

lemma run_server_InrD:
  assumes "run_server mode be = Inr bp"
  shows "\<exists>addrs s r. discover_lan_ipv4 (be_interfaces be) = Some addrs \<and> open_trusted be = Inr s
    \<and> load_relay mode be = Inr r \<and> (serves_lan mode \<longrightarrow> addrs \<noteq> [] \<and> be_qr_printed be)"
proof (cases "discover_lan_ipv4 (be_interfaces be)")
  case None
  with assms show ?thesis by (simp add: run_server_def)
next
  case (Some addrs)
  with assms show ?thesis
    by (cases "open_trusted be"; cases "load_relay mode be")
      (auto simp: run_server_def Let_def split: if_splits)
qed

lemma build_qr_card_shown: "\<not> (as = [] \<and> r = None) \<Longrightarrow> build_qr_card as port c k r \<noteq> None"
  by (simp add: build_qr_card_def split: prod.split)

section \<open>Properties\<close>

text \<open>
  Reconnecting to the relay: after every session the client waits between 1 and 30 seconds; after
  one that lasted a minute it waits 1 second, otherwise twice the previous wait up to 30, starting with
  1.
\<close>

theorem reconnect_backoff:
  "length (relay_reconnect 1 es) = length es
   \<and> list_all (\<lambda>d. 1 \<le> unat d \<and> unat d \<le> 30) (relay_reconnect 1 es)
   \<and> (i < length es \<longrightarrow> unat (relay_reconnect 1 es ! i) =
        (if i = 0 \<or> es ! i \<ge> 60 * 1000000000 then 1 else min (2 * unat (relay_reconnect 1 es ! (i - 1))) 30))"
  using length_relay_reconnect [of 1 es] relay_reconnect_range [of 1] relay_reconnect_nth [of 1 i es]
  by (auto simp: list_all_iff from_secs_def)

lemma reconnect_backoff_witness:
  "unat (relay_reconnect 1 [5, 5, 70 * 1000000000] ! 1) = 2 \<and> unat (relay_reconnect 1 [5, 5, 70 * 1000000000] ! 2) = 1"
  using reconnect_backoff [of "[5, 5, 70 * 1000000000]" 0] reconnect_backoff [of "[5, 5, 70 * 1000000000]" 1]
    reconnect_backoff [of "[5, 5, 70 * 1000000000]" 2] by simp

text \<open>
  The server starts exactly when the interfaces can be listed, a mode with a LAN listener finds a
  private address and prints its code, one of the two trust stores opens, and a mode with the relay
  finds the credentials of an earlier registration; then it runs exactly the transports of the mode and
  its page shows a code.
\<close>

theorem server_starts:
  "(\<exists>bp. run_server mode be = Inr bp \<and> bp_lan bp = serves_lan mode \<and> (bp_relay bp \<noteq> None) = serves_relay mode
       \<and> bp_qr_port bp = 7891 \<and> render_qr mode b64url bp pairing \<noteq> None)
   \<longleftrightarrow> (\<exists>addrs. discover_lan_ipv4 (be_interfaces be) = Some addrs
         \<and> (serves_lan mode \<longrightarrow> addrs \<noteq> [] \<and> be_qr_printed be))
     \<and> ((\<exists>s. be_trusted be = Inr s) \<or> (\<exists>s. be_trusted_tmp be = Inr s))
     \<and> (serves_relay mode \<longrightarrow> (\<exists>c. be_relay be = Inr (Some c)))"
    (is "?starts \<longleftrightarrow> ?ok")
proof
  assume ?starts
  then obtain addrs s r where "discover_lan_ipv4 (be_interfaces be) = Some addrs" "open_trusted be = Inr s"
    and r: "load_relay mode be = Inr r" and "serves_lan mode \<longrightarrow> addrs \<noteq> [] \<and> be_qr_printed be"
    using run_server_InrD by blast
  moreover have "serves_relay mode \<longrightarrow> (\<exists>c. be_relay be = Inr (Some c))"
    using r by (auto simp: load_relay_Inr)
  ultimately show ?ok using open_trusted_Inr [of be] by blast
next
  assume ok: ?ok
  then obtain addrs s where a: "discover_lan_ipv4 (be_interfaces be) = Some addrs"
    "serves_lan mode \<longrightarrow> addrs \<noteq> [] \<and> be_qr_printed be" "open_trusted be = Inr s"
    using open_trusted_Inr [of be] by blast
  from ok have "serves_relay mode \<longrightarrow> (\<exists>c. be_relay be = Inr (Some c))" by simp
  then obtain r where r: "load_relay mode be = Inr r"
    by (cases "serves_relay mode") (auto simp: load_relay_def)
  then have rm: "(r \<noteq> None) = serves_relay mode" by (auto simp: load_relay_Inr split: if_splits)
  let ?bp = "\<lparr> bp_port = 7890, bp_qr_port = qr_http_port 7890, bp_addrs = addrs,
      bp_primary = (case addrs of a # r \<Rightarrow> ipv4_to_string (da_addr a) | [] \<Rightarrow> []),
      bp_trusted = s, bp_lan = serves_lan mode, bp_relay = r, bp_bridge = new_bridge \<rparr>"
  have run: "run_server mode be = Inr ?bp"
    using a r by (auto simp: run_server_def load_or_default_def Let_def)
  have "bp_qr_port ?bp = 7891" by (simp add: qr_http_port_def)
  moreover have "\<not> (page_addrs mode addrs = [] \<and> r = None)"
    using a(2) rm by (cases mode) (simp_all add: page_addrs_def)
  then have "render_qr mode b64url ?bp pairing \<noteq> None"
    using build_qr_card_shown [of "page_addrs mode addrs"]
    by (simp add: render_qr_def current_qr_fields_def)
  ultimately show ?starts using run rm
    by (intro exI [of _ ?bp]) simp
qed

end
