(* ===== verification/Journeys.thy ===== *)
theory Journeys
  imports End_To_End Run_Connection File_Sender
begin

text \<open>
  What a file needs to cross all the programs: the connection's event loop as the chunk handler over the
  binary messages of its inbox, the phone's receiver over the binary messages of its socket, and one
  file chunk's way through the relay as a concrete run. The two journeys are stated in the root theory.
\<close>

section \<open>Binary messages of an inbox\<close>

definition is_file :: "bytes \<Rightarrow> bool" where
  "is_file b = (map_option fst (peek_frame_header b) = Some frame_FILE)"

definition carries :: "u32 \<Rightarrow> bytes \<Rightarrow> bool" where
  "carries tid b = (is_file b \<and> map_option fst (parse_file_chunk b) = Some tid)"

text \<open>
  The events of a connection that takes the messages \<open>ms\<close> from its inbox; an element of \<open>xs\<close> is
  what other tasks did before the message, and the answers to it.
\<close>

definition inbox_events :: "((world \<Rightarrow> world) \<times> env) list \<Rightarrow> Message list \<Rightarrow> entry list" where
  "inbox_events xs ms = map2 (\<lambda>(other, en) m. (other, en, EvInbox (Some m))) xs ms"

definition disk_fine :: "(world \<Rightarrow> world) \<times> env \<Rightarrow> bool" where
  "disk_fine x = (io_fine (en_chunk (snd x)) \<and> (\<forall>w. wd_fs (fst x w) = wd_fs w))"

definition file_chunks :: "((world \<Rightarrow> world) \<times> env) list \<Rightarrow> bytes list \<Rightarrow> (chunk_io \<times> bytes) list" where
  "file_chunks xs bs = filter (\<lambda>x. is_file (snd x)) (zip (map (en_chunk \<circ> snd) xs) bs)"

lemma binary_step:
  assumes "cn_authenticated cn" "wd_fs (other wd) = wd_fs wd"
    and "(if is_file b then handle_file_chunk (en_chunk en) b (cn_transfers cn) (wd_fs wd)
          else (cn_transfers cn, wd_fs wd, [])) = (ts, fs, out)"
  obtains cn1 wd1 where "conn_step su pl me en (EvInbox (Some (MBinary b))) cn (other wd) = (True, cn1, wd1, map Sent out)"
    "cn_transfers cn1 = ts" "wd_fs wd1 = fs" "cn_authenticated cn1"
proof -
  have "\<exists>cn1 wd1. conn_step su pl me en (EvInbox (Some (MBinary b))) cn (other wd) = (True, cn1, wd1, map Sent out)
      \<and> cn_transfers cn1 = ts \<and> wd_fs wd1 = fs \<and> cn_authenticated cn1"
    using assms
    by (cases "peek_frame_header b")
      (auto simp: conn_step_def select_arm_def on_inbox_def on_binary_def is_file_def register_once_def Let_def
        split: prod.splits)
  with that show thesis by blast
qed

lemma inbox_is_chunk_run:
  assumes "cn_authenticated cn" "length xs = length bs" "\<forall>x\<in>set xs. disk_fine x"
    and "chunk_run (file_chunks xs bs) (cn_transfers cn) (wd_fs wd) = (ts, fs, out)"
  shows "\<exists>cn' wd'. loop_run su pl me (inbox_events xs (map MBinary bs)) cn wd = (True, cn', wd', map Sent out)
    \<and> cn_transfers cn' = ts \<and> wd_fs wd' = fs"
  using assms
proof (induction xs arbitrary: bs cn wd out)
  case Nil
  then show ?case by (simp add: inbox_events_def file_chunks_def)
next
  case (Cons x xs)
  obtain b bs' where bs: "bs = b # bs'" using Cons.prems(2) by (cases bs) auto
  obtain other en where x: "x = (other, en)" by fastforce
  obtain ts1 fs1 o1 where h: "(if is_file b then handle_file_chunk (en_chunk en) b (cn_transfers cn) (wd_fs wd)
      else (cn_transfers cn, wd_fs wd, [])) = (ts1, fs1, o1)" by (metis prod_cases3)
  obtain o2 where o2: "chunk_run (file_chunks xs bs') ts1 fs1 = (ts, fs, o2)" "out = o1 @ o2"
    using Cons.prems(4) h by (auto simp: bs x file_chunks_def split: if_splits prod.splits)
  have same: "wd_fs (other wd) = wd_fs wd" using Cons.prems(3) by (simp add: x disk_fine_def)
  obtain cn1 wd1 where s: "conn_step su pl me en (EvInbox (Some (MBinary b))) cn (other wd) = (True, cn1, wd1, map Sent o1)"
      "cn_transfers cn1 = ts1" "wd_fs wd1 = fs1" "cn_authenticated cn1"
    using binary_step [where other = other and wd = wd, OF Cons.prems(1) same h] by blast
  have "\<exists>cn' wd'. loop_run su pl me (inbox_events xs (map MBinary bs')) cn1 wd1 = (True, cn', wd', map Sent o2)
      \<and> cn_transfers cn' = ts \<and> wd_fs wd' = fs"
    by (rule Cons.IH [OF s(4)]) (use Cons.prems(2,3) o2(1) s(2,3) in \<open>simp_all add: bs\<close>)
  then show ?case using s(1) o2(2) by (auto simp: bs x inbox_events_def)
qed

text \<open>Among the file chunks of an inbox, those of one transfer are the ones the phone's loop made for it.\<close>

lemma zip_filter_snd:
  assumes "length as = length bs"
  shows "\<exists>cs. filter (\<lambda>x. P (snd x)) (zip as bs) = zip cs (filter P bs) \<and> length cs = length (filter P bs) \<and> set cs \<subseteq> set as"
  using assms
proof (induction as bs rule: list_induct2)
  case (Cons a as b bs)
  then obtain cs where cs: "filter (\<lambda>x. P (snd x)) (zip as bs) = zip cs (filter P bs)"
    "length cs = length (filter P bs)" "set cs \<subseteq> set as" by blast
  then show ?case by (intro exI [of _ "if P b then a # cs else cs"]) auto
qed simp

lemma transfer_chunks:
  assumes "length xs = length bs" "\<forall>x\<in>set xs. disk_fine x"
  shows "\<exists>ios. filter (own_frame tid) (file_chunks xs bs) = zip ios (filter (carries tid) bs)
    \<and> length ios = length (filter (carries tid) bs) \<and> list_all io_fine ios"
proof -
  have "filter (own_frame tid) (file_chunks xs bs)
      = filter (\<lambda>x. carries tid (snd x)) (zip (map (en_chunk \<circ> snd) xs) bs)"
    by (auto simp: file_chunks_def carries_def own_frame_def intro: filter_cong)
  moreover obtain ios where "filter (\<lambda>x. carries tid (snd x)) (zip (map (en_chunk \<circ> snd) xs) bs) = zip ios (filter (carries tid) bs)"
      "length ios = length (filter (carries tid) bs)" "set ios \<subseteq> set (map (en_chunk \<circ> snd) xs)"
    using zip_filter_snd [of "map (en_chunk \<circ> snd) xs" bs "carries tid"] assms(1) by auto
  moreover from this(3) assms(2) have "list_all io_fine ios" by (auto simp: list_all_iff disk_fine_def)
  ultimately show ?thesis by metis
qed

lemma upload_into_disk:
  assumes "receiving tid d [] 0 (cn_transfers cn) (wd_fs wd)" "cn_authenticated cn"
    and "upload_loop tid 0 ks = (filter (carries tid) bs, UploadDone)"
    and "length xs = length bs" "\<forall>x\<in>set xs. disk_fine x"
    and "loop_run su pl me (inbox_events xs (map MBinary bs)) cn wd = (go, cn', wd', out)"
  shows "go \<and> wd_fs wd' d = Some (file_read ks) \<and> cn_transfers cn' tid = None
    \<and> (\<exists>msgs. out = map Sent msgs \<and> filter (about tid) msgs = [FileTransferComplete tid d])"
proof -
  obtain ts fs msgs where r: "chunk_run (file_chunks xs bs) (cn_transfers cn) (wd_fs wd) = (ts, fs, msgs)"
    by (metis prod_cases3)
  obtain cs where cs: "filter (carries tid) bs = upload_frames tid 0 cs" "concat cs = file_read ks"
    using upload_loop_done [OF assms(3)] by blast
  obtain ios where ios: "filter (own_frame tid) (file_chunks xs bs) = zip ios (upload_frames tid 0 cs)"
      "length ios = Suc (length cs)" "list_all io_fine ios"
    using transfer_chunks [OF assms(4,5), of tid] by (auto simp: cs(1))
  have "ts tid = None \<and> fs d = Some (concat cs) \<and> filter (about tid) msgs = [FileTransferComplete tid d]"
    using upload_frames_run [OF assms(1) _ ios(2,3) r] ios(1) by simp
  with inbox_is_chunk_run [OF assms(2,4,5) r, of su pl me] assms(6) cs(2) show ?thesis by auto
qed

section \<open>Binary messages of the phone's socket\<close>

definition socket_binaries :: "ws_message list \<Rightarrow> bytes list" where
  "socket_binaries ms = concat (map (\<lambda>m. case m of WsBinary b \<Rightarrow> [b] | _ \<Rightarrow> []) ms)"

lemma phone_skips: "\<not> must_deliver False b \<Longrightarrow> phone_on_binary io b st = (st, [])"
  by (auto simp: phone_on_binary_def FrameParser_parse_def must_deliver_def FRAME_TYPE_FILE_def frame_FILE_def
      FRAME_HEADER_LEN_def nth_Cons' Let_def split: list.splits if_splits)

lemma phone_run_files: "phone_run xs st = phone_run (filter (\<lambda>x. must_deliver False (snd x)) xs) st"
  by (induction xs arbitrary: st) (auto simp: phone_skips split: prod.splits)

lemma socket_binaries_simps [simp]: "socket_binaries [] = []"
    "socket_binaries (m # ms) = (case m of WsBinary b \<Rightarrow> [b] | _ \<Rightarrow> []) @ socket_binaries ms"
  by (simp_all add: socket_binaries_def)

lemma binaries_of_musts: "filter (must_deliver False) (socket_binaries ms) = socket_binaries (filter ws_must ms)"
  by (induction ms) (auto simp: ws_must_def split: ws_message.split)

definition message_files :: "Message list \<Rightarrow> bytes list" where
  "message_files ms = concat (map (\<lambda>m. case m of MBinary b \<Rightarrow> if must_deliver False b then [b] else [] | _ \<Rightarrow> []) ms)"

lemma files_on_socket: "socket_binaries (on_socket (filter must_arrive ms)) = message_files ms"
  by (induction ms) (auto simp: on_socket_def message_files_def must_arrive_def split: Message.split)

lemma sent_phone_assembles:
  assumes "content \<noteq> []" "length content < 2 ^ 64" "list_all tick_fine ks" "length content \<le> length ks"
    and "file_sender tid (word_of_nat (length content)) (Some content) ks = (out, e)"
    and "inc tid = Some \<lparr>if_dest = d, if_bytesWritten = 0, if_nextSeq = 0\<rparr>" "pfs d = Some []"
    and "list_all recv_fine ios" "length ios = length bs" "filter (must_deliver False) bs = map fst out"
    and "phone_run (zip ios bs) (inc, pfs) = ((inc', pfs'), answers)"
  shows "pfs' d = Some content \<and> inc' tid = None \<and> answers = [FileSendComplete tid d]"
proof -
  have "unat (word_of_nat (length content) :: u64) = length content"
    using assms(2) by (simp add: unat_of_nat take_bit_nat_eq_self)
  then obtain cs where cs: "map fst out = send_frames tid True 0 cs" "concat cs = content"
    using sender_completes [OF assms(3,4,1), of 0 "word_of_nat (length content)" tid 0 out e] assms(5)
    by (auto simp: file_sender_def)
  obtain ios' where ios': "filter (\<lambda>x. must_deliver False (snd x)) (zip ios bs) = zip ios' (map fst out)"
      "length ios' = length (map fst out)" "set ios' \<subseteq> set ios"
    using zip_filter_snd [OF assms(9), of "must_deliver False"] assms(10) by auto
  have "length ios' = length cs" using ios'(2) arg_cong [OF cs(1), of length] by simp
  moreover have "list_all recv_fine ios'" using ios'(3) assms(8) by (auto simp: list_all_iff)
  moreover have "cs \<noteq> []" using cs(2) assms(1) by auto
  moreover have "phone_run (zip ios' (send_frames tid True 0 cs)) (inc, pfs) = ((inc', pfs'), answers)"
    using assms(11) phone_run_files [of "zip ios bs"] by (simp add: ios'(1) cs(1))
  ultimately show ?thesis
    using phone_assembles [of inc tid "\<lparr>if_dest = d, if_bytesWritten = 0, if_nextSeq = 0\<rparr>" pfs "[]" 0
        cs ios' inc' pfs' answers] assms(6,7) cs(2) by simp
qed

section \<open>A message of the phone of the demonstration\<close>

lemma demo_item_uploaded:
  "\<exists>s p l. relay_reach toy_deps s \<and> phones s demo_cid = Some p \<and> loops s (pl_loop p) = Some l
    \<and> pl_in p = [WsBinary b] \<and> hl_rx l \<and> hl_queue l = [] \<and> pl_stage p = PRead"
proof -
  let ?f = "Data demo_cid False b"
  let ?p = "demo_phone\<lparr>pl_in := [WsBinary b]\<rparr>"
  let ?l = "demo_session\<lparr>hl_queue := [?f], hl_acc := [ClientOpen demo_cid, ?f]\<rparr>"
  have "client_step (demo_state demo_session [demo_cid \<mapsto> demo_phone])
      (demo_state demo_session [demo_cid \<mapsto> ?p\<lparr>pl_stage := PSend ?f\<rparr>])"
    using client_read [of "demo_state demo_session [demo_cid \<mapsto> demo_phone]" demo_cid demo_phone "WsBinary b" ?f]
    by (simp add: demo_phone_def new_client_loop_def client_reader_item_def)
  note r = reach_steps(3) [OF demo_attached this]
  have "client_step (demo_state demo_session [demo_cid \<mapsto> ?p\<lparr>pl_stage := PSend ?f\<rparr>]) (demo_state ?l [demo_cid \<mapsto> ?p])"
    using client_sent [of "demo_state demo_session [demo_cid \<mapsto> ?p\<lparr>pl_stage := PSend ?f\<rparr>]" demo_cid
        "?p\<lparr>pl_stage := PSend ?f\<rparr>" ?f demo_session ?l]
    by (simp add: demo_phone_def new_client_loop_def demo_session_def demo_reader_def new_host_loop_def queue_frame_def
        TO_HOST_QUEUE_CAP_def)
  note r = reach_steps(3) [OF r this]
  let ?l2 = "?l\<lparr>hl_queue := [], hl_wire := hl_wire ?l @ [WsBinary (relay_encode ?f)]\<rparr>"
  have "host_writer_step (demo_state ?l [demo_cid \<mapsto> ?p]) (demo_state ?l2 [demo_cid \<mapsto> ?p])"
    using hw_sent [of "demo_state ?l [demo_cid \<mapsto> ?p]" 0 ?l ?f "[]"]
    by (simp add: demo_session_def demo_reader_def new_host_loop_def host_writer_on_def del: relay_encode.simps)
  note r = reach_steps(2) [OF r this]
  show ?thesis
    by (intro exI [of _ "demo_state ?l2 [demo_cid \<mapsto> ?p]"] exI [of _ ?p] exI [of _ ?l2])
      (use r in \<open>simp add: demo_phone_def new_client_loop_def demo_session_def demo_reader_def new_host_loop_def
        del: relay_encode.simps\<close>)
qed

end
