(* ===== verification/Lan_Journeys.thy ===== *)
theory Lan_Journeys
  imports Journeys Lan_Peer
begin

text \<open>
  Whole files over the LAN: the bridge of theory Lan_Peer between the phone's socket and the connection's
  event loop, in both directions. The messages are those of theory Journeys; the relay is not involved.
\<close>

section \<open>From the phone\<close>

text \<open>
  A file uploaded over the LAN: when the logic runs and its inbox is empty, it has been handed exactly
  what the reader took from the socket, and if the last of that are binary messages among which those of
  one accepted transfer are what the phone's upload loop made of a file, they leave the file at the
  destination.
\<close>

lemma lan_upload:
  assumes lan: "lan_path n lan_start s" "lp_stage s = LRun" "lp_inbox s = []" "lp_read s = before @ map MBinary bs"
    and phone: "upload_loop tid 0 ks = (filter (carries tid) bs, UploadDone)"
    and accepted: "handle_file_begin io tid name fsize tsb fsb = (cn_transfers cn, wd_fs wd, [FileTransferAccepted tid d])"
      "wf_transfers tsb fsb" "meta_sound io fsb" "cn_authenticated cn"
    and disk: "length xs = length bs" "\<forall>x\<in>set xs. disk_fine x"
    and run: "loop_run su pl me (inbox_events xs (map MBinary bs)) cn wd = (go, cn', wd', out)"
  shows "lp_taken s = before @ map MBinary bs
    \<and> go \<and> wd_fs wd' d = Some (file_read ks) \<and> cn_transfers cn' tid = None
    \<and> (\<exists>msgs. out = map Sent msgs \<and> filter (about tid) msgs = [FileTransferComplete tid d])"
proof -
  have "lp_taken s = before @ map MBinary bs"
    using lan_path_inv [OF lan(1) lan_inv_start] lan(2-4) by (simp add: lan_inv_def)
  moreover have "receiving tid d [] 0 (cn_transfers cn) (wd_fs wd)"
    by (rule begin_receiving [OF accepted(2,3,1)])
  ultimately show ?thesis using upload_into_disk [OF _ accepted(4) phone disk run] by blast
qed

section \<open>To the phone\<close>

definition wire_binaries :: "lan_peer \<Rightarrow> bytes list" where
  "wire_binaries s = concat (map (\<lambda>x. case snd x of MBinary b \<Rightarrow> [b] | _ \<Rightarrow> []) (lp_wire s))"

text \<open>File chunks go through the bulk queue only.\<close>

definition only_bulk :: "lan_peer \<Rightarrow> bool" where
  "only_bulk s = list_all (\<lambda>x. fst x = CBulk \<or> message_files [snd x] = []) (lp_wire s)"

lemma message_files_Cons: "message_files (m # ms) = message_files [m] @ message_files ms"
  by (simp add: message_files_def)

lemma files_of_wire:
  "list_all (\<lambda>x. fst x = CBulk \<or> message_files [snd x] = []) xs \<Longrightarrow>
    filter (must_deliver False) (concat (map (\<lambda>x. case snd x of MBinary b \<Rightarrow> [b] | _ \<Rightarrow> []) xs))
      = message_files (map snd (filter (\<lambda>x. fst x = CBulk) xs))"
proof (induction xs)
  case (Cons x xs)
  have "filter (must_deliver False) (case snd x of MBinary b \<Rightarrow> [b] | _ \<Rightarrow> []) = message_files [snd x]"
    by (cases "snd x") (simp_all add: message_files_def)
  moreover have "message_files (snd x # map snd (filter (\<lambda>x. fst x = CBulk) xs))
      = message_files [snd x] @ message_files (map snd (filter (\<lambda>x. fst x = CBulk) xs))" by (rule message_files_Cons)
  ultimately show ?case using Cons by auto
qed (simp add: message_files_def)

section \<open>Properties\<close>

text \<open>
  C3. A file sent from the PC over the LAN arrives byte for byte: in whatever order reader, writer, logic and
  streamers ran, if the chunks that the bulk queue accepted are those the file streamer made of a file,
  the queue is drained and nothing else put file chunks on the wire, then the phone, handling every
  binary message on its socket (the video frames among them) with working storage, ends with exactly the
  file's bytes at the destination it chose, forgets the transfer and answers one completion.
\<close>

theorem lan_download:
  assumes lan: "lan_path n lan_start s" "lp_writer s" "lp_bulk s = []" "only_bulk s"
    and streamed: "content \<noteq> []" "length content < 2 ^ 64" "list_all tick_fine ks" "length content \<le> length ks"
      "file_sender tid (word_of_nat (length content)) (Some content) ks = (out, e)"
      "message_files (lp_acc_bulk s) = map fst out"
    and phone: "inc tid = Some \<lparr>if_dest = d, if_bytesWritten = 0, if_nextSeq = 0\<rparr>" "pfs d = Some []"
      "list_all recv_fine ios" "length ios = length (wire_binaries s)"
    and run: "phone_run (zip ios (wire_binaries s)) (inc, pfs) = ((inc', pfs'), answers)"
  shows "pfs' d = Some content \<and> inc' tid = None \<and> answers = [FileSendComplete tid d]"
proof -
  have "lp_acc_bulk s = on_chan CBulk s"
    using lan_path_inv [OF lan(1) lan_inv_start] lan(2,3) by (auto simp: lan_inv_def)
  then have "filter (must_deliver False) (wire_binaries s) = map fst out"
    using files_of_wire [OF lan(4) [unfolded only_bulk_def]] streamed(6) by (simp add: wire_binaries_def on_chan_def)
  from sent_phone_assembles [OF streamed(1-5) phone this run] show ?thesis .
qed

text \<open>One chunk behind a video frame.\<close>

definition demo_lan :: "Message \<Rightarrow> Message \<Rightarrow> lan_peer" where
  "demo_lan v c = lan_start\<lparr>lp_streamers := 1, lp_acc_bulk := [c], lp_wire := [(CVideo, v), (CBulk, c)]\<rparr>"

lemma demo_lan_path: "lan_path 5 lan_start (demo_lan v c)"
proof -
  let ?s1 = "lan_start\<lparr>lp_video := [v]\<rparr>" and ?s2 = "lan_start\<lparr>lp_video := [v], lp_streamers := 1\<rparr>"
  let ?s3 = "lan_start\<lparr>lp_video := [v], lp_streamers := 1, lp_bulk := [c], lp_acc_bulk := [c]\<rparr>"
  let ?s4 = "lan_start\<lparr>lp_streamers := 1, lp_bulk := [c], lp_acc_bulk := [c], lp_wire := [(CVideo, v)]\<rparr>"
  have "lan_step lan_start ?s1"
    using ls_video [of lan_start v] by (simp add: lan_start_def try_video_def OUTBOUND_VIDEO_CAP_def)
  note p = lan_more [OF lan_refl this]
  have "lan_step ?s1 ?s2" using ls_spawn [of ?s1] by (simp add: lan_start_def)
  note p = lan_more [OF p this]
  have "lan_step ?s2 ?s3"
    by (rule ls_bulk [where m = c]) (simp_all add: lan_start_def send_bulk_def OUTBOUND_BULK_CAP_def)
  note p = lan_more [OF p this]
  have "lan_step ?s3 ?s4" by (rule ls_writer [where ok = True]) (simp_all add: lan_start_def lan_ops)
  note p = lan_more [OF p this]
  have "lan_step ?s4 (demo_lan v c)" by (rule ls_writer [where ok = True]) (simp_all add: demo_lan_def lan_start_def lan_ops)
  from lan_more [OF p this] show ?thesis by (simp add: eval_nat_numeral)
qed

lemma lan_download_witness:
  "\<exists>s inc' pfs' answers. lan_path 5 lan_start s
    \<and> wire_binaries s = [[1], build_file_chunk_frame 4 0 True [7]]
    \<and> phone_run (zip (replicate 2 \<lparr>rv_write_ok = True, rv_close_ok = True\<rparr>) (wire_binaries s))
          ([4 \<mapsto> \<lparr>if_dest = ''d'', if_bytesWritten = 0, if_nextSeq = 0\<rparr>], [''d'' \<mapsto> []]) = ((inc', pfs'), answers)
    \<and> pfs' ''d'' = Some [7] \<and> inc' 4 = None \<and> answers = [FileSendComplete 4 ''d'']"
proof -
  let ?b = "build_file_chunk_frame 4 0 True [7]" and ?ios = "replicate 2 \<lparr>rv_write_ok = True, rv_close_ok = True\<rparr>"
  let ?inc = "[4 \<mapsto> \<lparr>if_dest = ''d'', if_bytesWritten = 0, if_nextSeq = 0\<rparr>]" and ?s = "demo_lan (MBinary [1]) (MBinary ?b)"
  have must: "must_deliver False ?b" "\<not> must_deliver False [1]"
    by (simp_all add: must_deliver_def build_file_chunk_frame_def FRAME_TYPE_FILE_def frame_FILE_def)
  have ios: "list_all recv_fine ?ios" by (simp add: list_all_iff recv_fine_def)
  have w: "wire_binaries ?s = [[1], ?b]" by (simp add: wire_binaries_def demo_lan_def)
  have s: "file_sender 4 (word_of_nat (length [7 :: u8])) (Some [7]) [fine_tick] = ([(?b, 0)], SenderDone)"
    by (simp add: file_sender_def fine_tick_def CHUNK_BYTES_def Let_def)
  obtain inc' pfs' answers where run: "phone_run (zip ?ios (wire_binaries ?s)) (?inc, [''d'' \<mapsto> []]) = ((inc', pfs'), answers)"
    by (metis prod.exhaust)
  have "pfs' ''d'' = Some [7] \<and> inc' 4 = None \<and> answers = [FileSendComplete 4 ''d'']"
    by (rule lan_download [OF demo_lan_path _ _ _ _ _ _ _ s _ _ _ _ _ run])
      (use must w ios in \<open>simp_all add: demo_lan_def lan_start_def only_bulk_def message_files_def tick_fine_def fine_tick_def\<close>)
  with demo_lan_path w run show ?thesis by blast
qed

end
