(* ===== verification/Wire.thy ===== *)
theory Wire
  imports Media_Loops Journeys "HOL-Library.Sublist"
begin

text \<open>
  The types of the binary messages between PC and phone: which of its three handlers the phone gives a
  message to (\<^verbatim>\<open>onMessage\<close> of \<^verbatim>\<open>ConnectionClient.kt\<close>), and what every producer
  of the PC (the file streamer, the video and the audio worker) and of the phone (the upload loop) puts on
  the wire.
\<close>

section \<open>The phone's dispatch\<close>

datatype phone_item = VideoItem VideoFrame | AudioItem bytes u64 | FileItem u32 u32 bool bytes | UnknownItem | TooShort

definition phone_dispatch :: "bytes \<Rightarrow> phone_item" where
  "phone_dispatch b =
     (case FrameParser_parse b of None \<Rightarrow> TooShort
      | Some f \<Rightarrow>
          if vf_type f = frame_VIDEO then VideoItem f
          else if vf_type f = frame_AUDIO then AudioItem (vf_payload f) (vf_ptsUs f)
          else if vf_type f = frame_FILE then
            (let (t, n, l, p) = file_fields f in FileItem t n l p)
          else UnknownItem)"

section \<open>Typing\<close>

datatype wire_type = FileData u32 | VideoData | AudioData

fun has_type :: "bytes \<Rightarrow> wire_type \<Rightarrow> bool" where
  "has_type b (FileData tid) = (case phone_dispatch b of
     FileItem t n l p \<Rightarrow> t = tid \<and> p \<noteq> [] \<and> length p \<le> CHUNK_BYTES | _ \<Rightarrow> False)"
| "has_type b VideoData = (case phone_dispatch b of VideoItem f \<Rightarrow> True | _ \<Rightarrow> False)"
| "has_type b AudioData = (case phone_dispatch b of AudioItem p pts \<Rightarrow> True | _ \<Rightarrow> False)"

lemma dispatch_video [simp]: "phone_dispatch (build_video_frame p pts k c) = VideoItem
    \<lparr> vf_type = frame_VIDEO, vf_isKeyframe = k, vf_hasConfig = c, vf_ptsUs = pts, vf_payload = p \<rparr>"
  using video_codec.decode_encode [of "(p, pts, k, c)"]
  by (auto simp: phone_dispatch_def phone_video_def split: option.splits if_splits)

lemma dispatch_audio [simp]: "phone_dispatch (build_audio_frame p pts) = AudioItem p pts"
  using audio_codec.decode_encode [of "(p, pts)"]
  by (auto simp: phone_dispatch_def phone_audio_def wire split: option.splits if_splits)

lemma dispatch_file [simp]: "phone_dispatch (build_file_chunk_frame t n l p) = FileItem t n l p"
  by (simp add: phone_dispatch_def parse_file_frame file_fields_def split_pts wire)

section \<open>The producers\<close>

lemma send_frames_typed: "\<forall>c\<in>set cs. c \<noteq> [] \<and> length c \<le> CHUNK_BYTES \<Longrightarrow>
    list_all (\<lambda>b. has_type b (FileData tid)) (send_frames tid l sq cs)"
  by (induction cs arbitrary: sq) simp_all

lemma file_sender_typed: "list_all (\<lambda>b. has_type b (FileData tid)) (map fst (fst (file_sender tid esz opened ks)))"
proof (cases opened)
  case (Some content)
  obtain out e where s: "sender_loop tid esz 0 0 content ks = (out, e)" by fastforce
  from sender_frames [OF s] send_frames_typed Some s show ?thesis by (auto simp: file_sender_def)
qed (simp add: file_sender_def)

lemma send_packets_typed: "send_packets pkts pts oks sent = (r, sent') \<Longrightarrow>
    list_all (\<lambda>b. has_type b VideoData) sent \<Longrightarrow> list_all (\<lambda>b. has_type b VideoData) sent'"
  by (induction pkts pts oks sent rule: send_packets.induct) (auto simp: Let_def split: if_splits)

lemma video_step_typed: "video_step conv iv t s = (r, s') \<Longrightarrow>
    list_all (\<lambda>b. has_type b VideoData) (vs_sent s) \<Longrightarrow> list_all (\<lambda>b. has_type b VideoData) (vs_sent s')"
  by (auto simp: video_step_def Let_def split: if_splits prod.splits dest: send_packets_typed)

lemma video_loop_typed: "run_video_loop conv iv ts s = (r, s') \<Longrightarrow>
    list_all (\<lambda>b. has_type b VideoData) (vs_sent s) \<Longrightarrow> list_all (\<lambda>b. has_type b VideoData) (vs_sent s')"
  by (induction conv iv ts s rule: run_video_loop.induct)
    (auto split: prod.splits turn_end.splits dest: video_step_typed)

lemma encode_pending_typed: "encode_pending n as s = (r, s') \<Longrightarrow>
    list_all (\<lambda>b. has_type b AudioData) (au_sent s) \<Longrightarrow> list_all (\<lambda>b. has_type b AudioData) (au_sent s')"
  by (induction n as s rule: encode_pending.induct) (auto simp: Let_def split: if_splits option.splits prod.splits)

lemma audio_turns_typed: "audio_turns c n ts s = (r, s') \<Longrightarrow>
    list_all (\<lambda>b. has_type b AudioData) (au_sent s) \<Longrightarrow> list_all (\<lambda>b. has_type b AudioData) (au_sent s')"
  by (induction c n ts s rule: audio_turns.induct)
    (auto simp: audio_step_def Let_def split: if_splits prod.splits audio_end.splits dest: encode_pending_typed)

text \<open>Towards the PC: what it takes for a chunk of this upload.\<close>

lemma upload_loop_typed: "list_all (carries tid) (fst (upload_loop tid sq ks))"
  by (induction tid sq ks rule: upload_loop.induct)
    (auto simp: carries_def is_file_def peek_file same_file_frame split: option.splits prod.splits)

section \<open>The connection in between\<close>

fun video_of :: "effect \<Rightarrow> bytes list" where
  "video_of (SentVideo b) = [b]"
| "video_of e = []"

definition videos :: "effect list \<Rightarrow> bytes list" where
  "videos out = concat (map video_of out)"

fun packet_of :: "entry \<Rightarrow> bytes list" where
  "packet_of (other, en, EvPacket (Some b) a) = [b]"
| "packet_of e = []"

definition packets :: "entry list \<Rightarrow> bytes list" where
  "packets es = concat (map packet_of es)"

lemma videos_simps [simp]:
  "videos [] = []" "videos (e # es) = video_of e @ videos es" "videos (xs @ ys) = videos xs @ videos ys"
  by (simp_all add: videos_def)

lemma videos_Sent [simp]: "videos (map Sent ms) = []"
  by (induction ms) simp_all

lemma client_msg_videos: "handle_client_msg su en pl m cn wd = (cont, cn', wd', out) \<Longrightarrow> videos out = []"
  by (cases m) (auto simp: handle_hello_def handle_trusted_hello_def handle_stream_request_def
      handle_stream_stop_def send_error_def version_error_def Let_def
      split: prod.splits VerifyResult.splits VerifyOutcome.splits option.splits sum.splits if_splits)

lemma conn_step_videos:
  assumes "conn_step su pl me en ev cn wd = (go, cn', wd', out)"
  shows "subseq (videos out) (packet_of (other, en, ev))"
proof (cases "\<exists>s m. ev = EvInbox (Some (MText s)) \<and> d_from_json (su_deps su) s = Some m")
  case True
  then obtain s m where tm: "ev = EvInbox (Some (MText s))" "d_from_json (su_deps su) s = Some m" by blast
  have "videos out = []"
    using assms tm client_msg_videos [of su en pl m cn wd]
    by (cases m) (auto simp: conn_step_def select_arm_def on_inbox_def on_text_def on_file_begin_def
        on_file_abort_def on_send_accepted_def on_send_complete_def drop_send_def Let_def
        simp del: handle_client_msg.simps split: prod.splits option.splits flow.splits if_splits)
  then show ?thesis by simp
next
  case False
  then show ?thesis
    using assms
    by (auto simp: conn_step_def select_arm_def on_inbox_def on_text_def on_binary_def on_packet_def on_cmd_def
        drop_send_def dispatch_file_send_cmd_def send_error_def Let_def
        split: conn_event.splits option.splits Message.splits FileSendCmd.splits try_send.splits prod.splits
          flow.splits if_splits)
qed

lemma loop_run_videos: "loop_run su pl me es cn wd = (go, cn', wd', out) \<Longrightarrow> subseq (videos out) (packets es)"
proof (induction es arbitrary: cn wd out)
  case (Cons e es)
  obtain other en ev where e: "e = (other, en, ev)" by (cases e)
  obtain g1 cn1 wd1 out1 where s: "conn_step su pl me en ev cn (other wd) = (g1, cn1, wd1, out1)"
    by (metis prod_cases4)
  from conn_step_videos [OF s] have 1: "subseq (videos out1) (packet_of e)" by (simp add: e)
  show ?case
  proof (cases g1)
    case False
    with Cons.prems e s 1 show ?thesis by (auto simp: packets_def intro: subseq_append_le_same_iff list_emb_append2)
  next
    case True
    obtain out2 where r: "loop_run su pl me es cn1 wd1 = (go, cn', wd', out2)" "out = out1 @ out2"
      using Cons.prems e s True by (auto split: prod.splits)
    from Cons.IH [OF r(1)] 1 r(2) show ?thesis by (auto simp: packets_def intro: list_emb_append_mono)
  qed
qed (simp add: packets_def)

lemma cleanup_videos: "videos (snd (cleanup rm_ok torder sorder cn wd)) = []"
proof -
  have "videos (snd (drain_sends rm_ok sorder sends fs)) = []" for sends fs
    unfolding drain_sends_out by (induction sorder) (auto split: option.split)
  then show ?thesis by (auto simp: cleanup_def Let_def split: prod.splits option.splits) (metis snd_conv)+
qed

section \<open>Properties\<close>

text \<open>
  C14. Every binary message on the wire has the type its reader expects: whatever the file system, the
  screen, the encoders and the sound device answer, the phone gives every frame of the streamer of a
  transfer to its file handler, with that transfer's id and a payload of 1 to 256 KiB, every frame of a
  video worker to the picture handler, and every frame of an audio worker to the sound handler; the PC
  takes every frame the phone's upload loop sends for a chunk of that upload. What a connection sends of a
  stream are packets of its worker, in the worker's order.
\<close>

theorem wire_frames_typed:
  "list_all (\<lambda>b. has_type b (FileData tid)) (map fst (fst (file_sender tid esz opened ks)))
   \<and> list_all (\<lambda>b. has_type b VideoData) (vs_sent (snd (run_video_loop conv iv vts (new_video cap slot now))))
   \<and> list_all (\<lambda>b. has_type b AudioData) (au_sent (snd (run_audio_loop chans rate ats)))
   \<and> list_all (carries up) (fst (upload_loop up 0 us))
   \<and> subseq (videos (snd (run_connection su pl me es rm_ok torder sorder wd))) (packets es)"
proof (intro conjI)
  show "list_all (\<lambda>b. has_type b VideoData) (vs_sent (snd (run_video_loop conv iv vts (new_video cap slot now))))"
    using video_loop_typed [of conv iv vts "new_video cap slot now"] by (simp add: new_video_def prod_eq_iff)
  show "list_all (\<lambda>b. has_type b AudioData) (au_sent (snd (run_audio_loop chans rate ats)))"
    using audio_turns_typed [of _ _ ats new_audio]
    by (simp add: run_audio_loop_def Let_def new_audio_def prod_eq_iff)
  show "subseq (videos (snd (run_connection su pl me es rm_ok torder sorder wd))) (packets es)"
  proof -
    obtain go cn wd1 out where r: "loop_run su pl me es new_conn wd = (go, cn, wd1, out)" by (metis prod_cases4)
    obtain wd2 out2 where c: "cleanup rm_ok torder sorder cn wd1 = (wd2, out2)" by fastforce
    from cleanup_videos [of rm_ok torder sorder cn wd1] c loop_run_videos [OF r] r
    show ?thesis by (simp add: run_connection_def)
  qed
qed (rule file_sender_typed upload_loop_typed)+

end
