(* ===== verification/Watchdog.thy ===== *)
theory Watchdog
  imports Run_Connection Relay_Server
begin

text \<open>
  Time in a connection: the \<^verbatim>\<open>sleep(idle_timeout)\<close> arm of the \<^verbatim>\<open>select!\<close> in
  \<^verbatim>\<open>run_connection\<close> (\<^verbatim>\<open>server-pc/src/connection.rs\<close>). The sleep is built anew in
  every iteration, so it wins when no other arm becomes ready for 45 seconds after the last one. Times
  are in nanoseconds; an arm is handled at the time it becomes ready.
\<close>

definition IDLE_TIMEOUT :: nat where "IDLE_TIMEOUT = 45 * 1000000000"

type_synonym timed_entry = "nat \<times> entry"

text \<open>What other tasks did until the sleep ended is part of the entry, as for any other arm.\<close>

definition idle_entry :: "entry \<Rightarrow> entry" where
  "idle_entry e = (fst e, fst (snd e), EvIdle)"

text \<open>
  The arms the loop takes when its iteration begins at \<open>start\<close> and the given arms become ready at
  the given times.
\<close>

fun watched :: "nat \<Rightarrow> timed_entry list \<Rightarrow> entry list" where
  "watched start [] = []"
| "watched start ((t, e) # ts) =
     (if start + IDLE_TIMEOUT \<le> t then [idle_entry e] else e # watched (max start t) ts)"

definition is_idle :: "entry \<Rightarrow> bool" where
  "is_idle e = (snd (snd e) = EvIdle)"

text \<open>Silence before the arm number \<open>i\<close>.\<close>

definition silent :: "nat \<Rightarrow> timed_entry list \<Rightarrow> nat \<Rightarrow> bool" where
  "silent start ts i = ((start # map fst ts) ! i + IDLE_TIMEOUT \<le> fst (ts ! i))"

text \<open>A message every \<open>period\<close> nanoseconds.\<close>

fun beats :: "nat \<Rightarrow> nat \<Rightarrow> entry list \<Rightarrow> timed_entry list" where
  "beats start period [] = []"
| "beats start period (e # es) = (start + period, e) # beats (start + period) period es"

section \<open>Facts\<close>

lemma watched_cases:
  "sorted (start # map fst ts) \<Longrightarrow>
    (\<forall>i<length ts. \<not> silent start ts i) \<and> watched start ts = map snd ts
    \<or> (\<exists>i<length ts. silent start ts i \<and> (\<forall>j<i. \<not> silent start ts j)
        \<and> watched start ts = map snd (take i ts) @ [idle_entry (snd (ts ! i))])"
proof (induction ts arbitrary: start)
  case (Cons x ts)
  obtain t e where x: "x = (t, e)" by (cases x)
  show ?case
  proof (cases "start + IDLE_TIMEOUT \<le> t")
    case True
    then have "silent start (x # ts) 0" by (simp add: silent_def x)
    with True x show ?thesis by (intro disjI2 exI [of _ 0]) simp
  next
    case False
    from Cons.prems x have st: "start \<le> t" and s: "sorted (t # map fst ts)" by auto
    have z: "\<not> silent start (x # ts) 0" using False by (simp add: silent_def x)
    have sh: "silent start (x # ts) (Suc i) = silent t ts i" for i by (simp add: silent_def x)
    have w: "watched start (x # ts) = e # watched t ts" using False st x by (simp add: max_absorb2)
    from Cons.IH [OF s] show ?thesis
    proof
      assume q: "(\<forall>i<length ts. \<not> silent t ts i) \<and> watched t ts = map snd ts"
      with w x z sh have "(\<forall>i<length (x # ts). \<not> silent start (x # ts) i) \<and> watched start (x # ts) = map snd (x # ts)"
        by (auto simp: less_Suc_eq_0_disj)
      then show ?thesis by (rule disjI1)
    next
      assume "\<exists>i<length ts. silent t ts i \<and> (\<forall>j<i. \<not> silent t ts j)
        \<and> watched t ts = map snd (take i ts) @ [idle_entry (snd (ts ! i))]"
      then obtain i where i: "i < length ts" "silent t ts i" "\<forall>j<i. \<not> silent t ts j"
        "watched t ts = map snd (take i ts) @ [idle_entry (snd (ts ! i))]" by blast
      with w x z sh show ?thesis
        by (intro disjI2 exI [of _ "Suc i"]) (auto simp: less_Suc_eq_0_disj)
    qed
  qed
qed simp

text \<open>An idle arm ends the loop; nothing is sent in it.\<close>

lemma idle_step: "is_idle e \<Longrightarrow> loop_run su pl me [e] cn wd = (False, cn, fst e wd, [])"
  by (cases e) (simp add: is_idle_def conn_step_def select_arm_def)

lemma running_not_idle: "fst (loop_run su pl me es cn wd) \<Longrightarrow> \<not> (\<exists>e\<in>set es. is_idle e)"
proof (induction es arbitrary: cn wd)
  case (Cons e es)
  obtain other en ev where e: "e = (other, en, ev)" by (cases e)
  obtain g1 cn1 wd1 out1 where s: "conn_step su pl me en ev cn (other wd) = (g1, cn1, wd1, out1)"
    by (metis prod_cases4)
  from Cons.prems e s have g: "g1" "fst (loop_run su pl me es cn1 wd1)"
    by (auto split: if_splits prod.splits)
  moreover have "ev \<noteq> EvIdle" using s g(1) by (auto simp: conn_step_def select_arm_def)
  ultimately show ?case using Cons.IH [of cn1 wd1] e by (simp add: is_idle_def)
qed simp

lemma watched_beats: "watched start (beats start p es) =
    (if IDLE_TIMEOUT \<le> p then map idle_entry (take 1 es) else es)"
  by (induction start p es rule: beats.induct) simp_all

lemma idle_ends: "idle_entry e \<in> set es \<Longrightarrow> \<not> fst (loop_run su pl me es cn wd)"
  using running_not_idle [of su pl me es cn wd] by (force simp: is_idle_def idle_entry_def)

section \<open>Properties\<close>


text \<open>A ping after 2 seconds, then silence for a minute.\<close>

definition demo_ping :: entry where
  "demo_ping = ((\<lambda>w. w), demo_env, EvInbox (Some (MPing [])))"


end
