(* ===== verification/Peers.thy ===== *)
theory Peers
  imports Server
begin

text \<open>
  How many phones are connected: the tasks the LAN listener and the tunnel spawn per phone
  (\<^verbatim>\<open>ws_server.rs\<close>, \<^verbatim>\<open>relay_client.rs\<close>) count themselves in
  and out of a shared counter, and every turn of the tray's event loop (\<^verbatim>\<open>tray.rs\<close>) shows
  it in the tooltip.
\<close>

section \<open>The listeners\<close>

text \<open>
  The accept loops of \<^verbatim>\<open>ws_server::run\<close> and \<^verbatim>\<open>qr_server::run\<close>: whether
  binding works, then whether each \<^verbatim>\<open>accept\<close> does. The result is the number of tasks
  spawned and whether the function returned, which it does with an error only.
\<close>

fun accept_loop :: "bool list \<Rightarrow> nat \<times> bool" where
  "accept_loop [] = (0, False)"
| "accept_loop (ok # as) =
     (if ok then (let (n, ended) = accept_loop as in (Suc n, ended)) else (0, True))"

definition listener_run :: "bool \<Rightarrow> bool list \<Rightarrow> nat \<times> bool" where
  "listener_run bind_ok as = (if bind_ok then accept_loop as else (0, True))"

text \<open>
  The three futures at the end of \<^verbatim>\<open>run_server\<close> and the \<^verbatim>\<open>select!\<close> over them: a
  transport that the mode does not serve, and the reconnect loop of the relay, never end.
\<close>

definition server_ended :: "ServerMode \<Rightarrow> bool \<times> bool list \<Rightarrow> bool \<times> bool list \<Rightarrow> bool" where
  "server_ended mode lan qr =
     (let lan_fut = (if serves_lan mode then snd (listener_run (fst lan) (snd lan)) else False);
          relay_fut = False;
          qr_http_fut = snd (listener_run (fst qr) (snd qr))
      in lan_fut \<or> relay_fut \<or> qr_http_fut)"

section \<open>The counter\<close>

text \<open>
  A spawned task before its \<^verbatim>\<open>fetch_add\<close>, between the two, and after its
  \<^verbatim>\<open>fetch_sub\<close>; a panic of the connection unwinds the task without it.
\<close>

datatype peer_task = Spawned | Counted | Gone | Panicked

record peers =
  pe_count :: u64                  \<comment> \<open>\<open>peer_count\<close>, an \<open>AtomicUsize\<close>\<close>
  pe_tasks :: "peer_task list"
  pe_last :: string                \<comment> \<open>\<open>last_tooltip\<close>\<close>
  pe_shown :: string               \<comment> \<open>what the tray shows\<close>

definition utf8_text :: "nat list \<Rightarrow> string" where
  "utf8_text = map char_of"

text \<open>The three texts, in UTF-8: starting, waiting for a phone, and phones connected.\<close>

definition tip_prefix :: string where "tip_prefix = ''RemoteControl: ''"

definition tip_starting :: string where
  "tip_starting = tip_prefix @ utf8_text [0xE5,0x90,0xAF,0xE5,0x8A,0xA8,0xE4,0xB8,0xAD,0xE2,0x80,0xA6]"

definition tip_waiting :: string where
  "tip_waiting = tip_prefix @ utf8_text
     [0xE7,0xAD,0x89,0xE5,0xBE,0x85,0xE6,0x89,0x8B,0xE6,0x9C,0xBA,0xE8,0xBF,0x9E,0xE6,0x8E,0xA5]"

definition tip_phones :: string where
  "tip_phones = utf8_text
     [0x20,0xE9,0x83,0xA8,0xE6,0x89,0x8B,0xE6,0x9C,0xBA,0xE5,0xB7,0xB2,0xE8,0xBF,0x9E,0xE6,0x8E,0xA5]"

definition tooltip :: "u64 \<Rightarrow> string" where
  "tooltip count = (if count = 0 then tip_waiting
     else if count = 1 then tip_prefix @ ''1'' @ tip_phones
     else tip_prefix @ show_nat (unat count) @ tip_phones)"

definition peers_start :: peers where
  "peers_start = \<lparr> pe_count = 0, pe_tasks = [], pe_last = [], pe_shown = tip_starting \<rparr>"

datatype peer_event = TaskSpawned | TaskEnters nat | TaskLeaves nat | TaskPanics nat | TrayTurn bool

definition task_is :: "nat \<Rightarrow> peer_task \<Rightarrow> peers \<Rightarrow> bool" where
  "task_is i k s = (i < length (pe_tasks s) \<and> pe_tasks s ! i = k)"

text \<open>Both transports wrap a connection in the same two updates.\<close>

definition count_in :: "nat \<Rightarrow> peers \<Rightarrow> peers" where
  "count_in i s = s\<lparr>pe_tasks := (pe_tasks s)[i := Counted], pe_count := pe_count s + 1\<rparr>"

definition count_out :: "nat \<Rightarrow> peers \<Rightarrow> peers" where
  "count_out i s = s\<lparr>pe_tasks := (pe_tasks s)[i := Gone], pe_count := pe_count s - 1\<rparr>"

definition tray_turn :: "bool \<Rightarrow> peers \<Rightarrow> peers" where
  "tray_turn set_ok s =
     (let tip = tooltip (pe_count s) in
      if tip \<noteq> pe_last s then s\<lparr>pe_shown := (if set_ok then tip else pe_shown s), pe_last := tip\<rparr> else s)"

fun peer_step :: "peer_event \<Rightarrow> peers \<Rightarrow> peers" where
  "peer_step TaskSpawned s = s\<lparr>pe_tasks := pe_tasks s @ [Spawned]\<rparr>"
| "peer_step (TaskEnters i) s = (if task_is i Spawned s then count_in i s else s)"
| "peer_step (TaskLeaves i) s = (if task_is i Counted s then count_out i s else s)"
| "peer_step (TaskPanics i) s = (if task_is i Counted s then s\<lparr>pe_tasks := (pe_tasks s)[i := Panicked]\<rparr> else s)"
| "peer_step (TrayTurn set_ok) s = tray_turn set_ok s"

lemmas peer_ops = count_in_def count_out_def tray_turn_def task_is_def

definition peer_run :: "peer_event list \<Rightarrow> peers" where
  "peer_run evs = fold peer_step evs peers_start"

definition running :: "peers \<Rightarrow> nat" where
  "running s = count_list (pe_tasks s) Counted"

section \<open>Facts\<close>

lemma accept_loop_ended: "snd (accept_loop as) \<longleftrightarrow> False \<in> set as"
  by (induction as) (auto split: prod.split)

text \<open>The server ends exactly when one of its listeners cannot bind or accept.\<close>

lemma server_ends_iff:
  "server_ended mode (lb, las) (qb, qas) \<longleftrightarrow>
    serves_lan mode \<and> (\<not> lb \<or> False \<in> set las) \<or> \<not> qb \<or> False \<in> set qas"
  by (auto simp: server_ended_def listener_run_def accept_loop_ended)

lemma count_list_update: "i < length xs \<Longrightarrow> xs ! i \<noteq> y \<Longrightarrow>
    count_list (xs[i := y]) k = count_list xs k - (if xs ! i = k then 1 else 0) + (if y = k then 1 else 0)"
proof (induction xs arbitrary: i)
  case (Cons x xs)
  then show ?case
  proof (cases i)
    case (Suc j)
    have "xs ! j = k \<Longrightarrow> 0 < count_list xs k" if "j < length xs"
      using that count_list_0_iff [of xs k] by fastforce
    with Cons Suc show ?thesis by auto
  qed auto
qed simp

definition counted :: "peers \<Rightarrow> nat" where
  "counted s = count_list (pe_tasks s) Counted + count_list (pe_tasks s) Panicked"

lemma count_le: "count_list xs a + count_list xs b \<le> length xs" if "a \<noteq> b"
  using that by (induction xs) auto

lemma task_counted: "task_is i k s \<Longrightarrow> 0 < count_list (pe_tasks s) k"
  unfolding task_is_def using count_list_0_iff [of "pe_tasks s" k] by fastforce

lemma word_pred: "0 < n \<Longrightarrow> word_of_nat (n - Suc 0) = (word_of_nat n - 1 :: 'a::len word)"
  by (cases n) simp_all

lemma peer_step_count: "pe_count s = word_of_nat (counted s) \<Longrightarrow> pe_count (peer_step e s) = word_of_nat (counted (peer_step e s))"
  using task_counted [of _ Counted s]
  by (cases e)
    (auto simp: counted_def Let_def peer_ops count_list_update word_pred algebra_simps
      dest!: task_counted split: if_splits)

lemma run_count: "pe_count s = word_of_nat (counted s) \<Longrightarrow>
    pe_count (fold peer_step evs s) = word_of_nat (counted (fold peer_step evs s))"
  by (induction evs arbitrary: s) (simp_all del: peer_step.simps add: peer_step_count)

text \<open>Without panics and failures of the tray.\<close>

fun smooth :: "peer_event \<Rightarrow> bool" where
  "smooth (TaskPanics i) = False"
| "smooth (TrayTurn ok) = ok"
| "smooth e = True"

definition tray_fresh :: "peers \<Rightarrow> bool" where
  "tray_fresh s = (Panicked \<notin> set (pe_tasks s) \<and> (pe_last s = [] \<or> pe_shown s = pe_last s))"

lemma peer_step_fresh: "smooth e \<Longrightarrow> tray_fresh s \<Longrightarrow> tray_fresh (peer_step e s)"
  by (cases e) (auto simp: tray_fresh_def peer_ops Let_def dest!: subsetD [OF set_update_subset_insert])

lemma run_fresh: "list_all smooth evs \<Longrightarrow> tray_fresh s \<Longrightarrow> tray_fresh (fold peer_step evs s)"
  by (induction evs arbitrary: s) (simp_all del: peer_step.simps add: peer_step_fresh)

lemma unat_of_small: "n < 2 ^ 64 \<Longrightarrow> unat (word_of_nat n :: u64) = n"
  by (simp add: unsigned_of_nat take_bit_nat_eq_self)

lemma tooltip_running: "tooltip (word_of_nat n) = (if n = 0 then tip_waiting else tip_prefix @ show_nat n @ tip_phones)"
  if "n < 2 ^ 64"
proof -
  note u = unat_of_small [OF that]
  have "show_nat 1 = ''1''" by code_simp
  moreover have "(word_of_nat n :: u64) = 0 \<longleftrightarrow> n = 0"
    using u by (cases "n = 0") (auto simp: word_eq_iff_unsigned)
  moreover have "(word_of_nat n :: u64) = 1 \<longleftrightarrow> n = 1"
    using u by (cases "n = 1") (auto simp: word_eq_iff_unsigned)
  ultimately show ?thesis unfolding tooltip_def u by simp
qed

lemma tooltip_nonempty: "tooltip n \<noteq> []"
  by (simp add: tooltip_def tip_waiting_def tip_prefix_def)

text \<open>A tooltip that could not be set is not set again until the number changes.\<close>

lemma tooltip_stale: "pe_shown (peer_run (TrayTurn False # replicate n (TrayTurn True))) = tip_starting"
proof -
  let ?s = "peer_step (TrayTurn False) peers_start"
  have s: "pe_last ?s = tooltip (pe_count ?s)" "pe_shown ?s = tip_starting"
    using tooltip_nonempty [of 0] by (simp_all add: peers_start_def peer_ops Let_def)
  have "fold peer_step (replicate n (TrayTurn True)) ?s = ?s"
    using s(1) by (induction n) (simp_all add: peer_ops Let_def del: One_nat_def)
  with s(2) show ?thesis by (simp add: peer_run_def del: peer_step.simps)
qed

section \<open>Properties\<close>

text \<open>
  The tray shows the number of connected phones: after any interleaving of phones that come and go over
  both transports and turns of the tray, if no connection panics and the tray accepts its texts, the
  counter has not wrapped around, it is the number of sessions that are running, and the tooltip of the
  next turn names exactly that number.
\<close>

theorem tooltip_counts:
  assumes "list_all smooth evs" and "length (pe_tasks (peer_run evs)) < 2 ^ 64"
  shows "unat (pe_count (peer_run evs)) = running (peer_run evs)
    \<and> pe_shown (peer_run (evs @ [TrayTurn True])) =
      (if running (peer_run evs) = 0 then tip_waiting
       else tip_prefix @ show_nat (running (peer_run evs)) @ tip_phones)"
proof -
  let ?s = "peer_run evs"
  have "tray_fresh peers_start" "pe_count peers_start = word_of_nat (counted peers_start)"
    by (simp_all add: tray_fresh_def peers_start_def counted_def)
  then have f: "tray_fresh ?s" and c: "pe_count ?s = word_of_nat (counted ?s)"
    using run_fresh [OF assms(1)] run_count by (simp_all add: peer_run_def)
  have r: "counted ?s = running ?s"
    using f by (simp add: counted_def running_def tray_fresh_def count_list_0_iff)
  have le: "running ?s < 2 ^ 64"
    using assms(2) count_le [of Counted Panicked "pe_tasks ?s"] by (simp add: running_def)
  have "pe_shown (peer_step (TrayTurn True) ?s) = tooltip (pe_count ?s)"
    using f tooltip_nonempty [of "pe_count ?s"] by (auto simp: tray_fresh_def peer_ops Let_def)
  then have "pe_shown (peer_run (evs @ [TrayTurn True])) = tooltip (pe_count ?s)" by (simp add: peer_run_def)
  with unat_of_small [OF le] le c r show ?thesis by (simp add: tooltip_running)
qed

lemma tooltip_counts_witness:
  "pe_shown (peer_run ([TaskSpawned, TaskSpawned, TaskEnters 1, TrayTurn True, TaskEnters 0, TaskLeaves 1, TaskSpawned,
      TaskEnters 2] @ [TrayTurn True])) = tip_prefix @ ''2'' @ tip_phones"
proof -
  let ?evs = "[TaskSpawned, TaskSpawned, TaskEnters 1, TrayTurn True, TaskEnters 0, TaskLeaves 1, TaskSpawned, TaskEnters 2]"
  have t: "pe_tasks (peer_run ?evs) = [Counted, Gone, Counted]"
    by (simp add: peer_run_def peers_start_def peer_ops Let_def)
  have "show_nat (Suc (Suc 0)) = ''2''" by code_simp
  with tooltip_counts [of ?evs] t show ?thesis by (simp add: running_def)
qed

end
