(* ===== verification/Browser_Page.thy ===== *)
theory Browser_Page
  imports Qr_Server
begin

text \<open>
  The upload part of the pairing page, the script that \<^verbatim>\<open>build_qr_html\<close>
  (\<^verbatim>\<open>server-pc/src/qr.rs\<close>) writes into it: one row per file with its
  \<^verbatim>\<open>XMLHttpRequest\<close>, and the cancel button. It runs against the
  HTTP handlers of theory Qr_Server. When the browser fires an event is an argument; what
  \<^verbatim>\<open>JSON.parse\<close> makes of a reply is a record with the three fields the script reads.
\<close>

section \<open>Replies as the script sees them\<close>

record js_reply =
  jr_ok :: bool                    \<comment> \<open>\<open>json.ok === true\<close>\<close>
  jr_id :: "nat option"            \<comment> \<open>\<open>json.id\<close>, if it is a number\<close>
  jr_reason :: "string option"

definition text_bytes :: "nat list \<Rightarrow> string" where
  "text_bytes = map char_of"

definition no_session_text :: string where
  "no_session_text = text_bytes [0xE6,0xB2,0xA1,0xE6,0x9C,0x89,0xE5,0xB7,0xB2,0xE8,0xBF,0x9E,0xE6,0x8E,0xA5,0xE7,0x9A,0x84,
     0xE6,0x89,0x8B,0xE6,0x9C,0xBA,0xE4,0xBC,0x9A,0xE8,0xAF,0x9D]"

fun reason_text :: "refusal \<Rightarrow> string" where
  "reason_text MissingLength = ''missing content-length''"
| "reason_text BadLength = ''bad content-length''"
| "reason_text EmptyFile = ''empty file''"
| "reason_text TooLarge = text_bytes [0xE6,0x96,0x87,0xE4,0xBB,0xB6,0xE8,0xB6,0x85,0xE8,0xBF,0x87] @ '' 5 GiB '' @
     text_bytes [0xE4,0xB8,0x8A,0xE9,0x99,0x90]"
| "reason_text NoPhone = no_session_text"
| "reason_text ClientClosed = ''client closed before body complete''"
| "reason_text MissingId = ''missing id''"
| "reason_text (DispatchFailed NoSession) = no_session_text"
| "reason_text (DispatchFailed SessionGone) = text_bytes [0xE6,0x89,0x8B,0xE6,0x9C,0xBA,0xE4,0xBC,0x9A,0xE8,0xAF,0x9D,
     0xE5,0x88,0x9A,0xE5,0x88,0x9A,0xE6,0x96,0xAD,0xE5,0xBC,0x80]"

fun js_view :: "json_body \<Rightarrow> js_reply" where
  "js_view (JsonFail r) = \<lparr> jr_ok = False, jr_id = None, jr_reason = Some (reason_text r) \<rparr>"
| "js_view JsonOk = \<lparr> jr_ok = True, jr_id = None, jr_reason = None \<rparr>"
| "js_view (JsonOkId tid) = \<lparr> jr_ok = True, jr_id = Some (unat tid), jr_reason = None \<rparr>"

section \<open>One row\<close>

datatype row_status = RowRunning | RowOk | RowErr

record upload_js =
  uj_row :: row_status
  uj_reasons :: "string list"      \<comment> \<open>the reasons appended to the row\<close>
  uj_transfer :: "nat option"      \<comment> \<open>\<open>transferId\<close>\<close>
  uj_cancelled :: bool
  uj_done :: bool                  \<comment> \<open>\<open>xhr.readyState\<close> is 4\<close>
  uj_resolved :: bool

definition upload_start :: upload_js where
  "upload_start = \<lparr> uj_row = RowRunning, uj_reasons = [], uj_transfer = None, uj_cancelled = False,
     uj_done = False, uj_resolved = False \<rparr>"

definition set_row_status :: "bool \<Rightarrow> string \<Rightarrow> upload_js \<Rightarrow> upload_js" where
  "set_row_status ok reason s =
     (let s = s\<lparr>uj_row := (if ok then RowOk else RowErr)\<rparr>
      in if \<not> ok \<and> reason \<noteq> [] then s\<lparr>uj_reasons := uj_reasons s @ [reason]\<rparr> else s)"

definition js_or :: "string option \<Rightarrow> string \<Rightarrow> string" where
  "js_or a b = (case a of Some s \<Rightarrow> if s \<noteq> [] then s else b | None \<Rightarrow> b)"

definition cancelled_text :: string where
  "cancelled_text = text_bytes [0xE5,0xB7,0xB2,0xE5,0x8F,0x96,0xE6,0xB6,0x88]"

text \<open>The four listeners; \<open>parsed\<close> is none when \<^verbatim>\<open>JSON.parse\<close> throws.\<close>

definition on_load :: "nat \<Rightarrow> js_reply option \<Rightarrow> upload_js \<Rightarrow> upload_js" where
  "on_load status parsed s0 =
     (let s = s0\<lparr>uj_done := True\<rparr> in
      if uj_cancelled s then s\<lparr>uj_resolved := True\<rparr>
      else let json = (case parsed of Some j \<Rightarrow> j
                 | None \<Rightarrow> \<lparr> jr_ok = False, jr_id = None, jr_reason = Some ''bad response'' \<rparr>);
               s = (if jr_ok json \<and> jr_id json \<noteq> None then s\<lparr>uj_transfer := jr_id json\<rparr> else s);
               s = set_row_status (jr_ok json) (js_or (jr_reason json) (''HTTP '' @ show_nat status)) s
           in s\<lparr>uj_resolved := True\<rparr>)"

definition on_error :: "upload_js \<Rightarrow> upload_js" where
  "on_error s0 =
     (let s = s0\<lparr>uj_done := True\<rparr> in
      if uj_cancelled s then s\<lparr>uj_resolved := True\<rparr>
      else (set_row_status False ''network error'' s)\<lparr>uj_resolved := True\<rparr>)"

definition on_abort :: "upload_js \<Rightarrow> upload_js" where
  "on_abort s = s\<lparr>uj_resolved := True\<rparr>"

datatype js_effect = AbortXhr | FetchCancel string

definition on_cancel_click :: "upload_js \<Rightarrow> upload_js \<times> js_effect list" where
  "on_cancel_click s =
     (if uj_cancelled s then (s, [])
      else let s = set_row_status False cancelled_text (s\<lparr>uj_cancelled := True\<rparr>)
           in if \<not> uj_done s then (s, [AbortXhr])
              else (case uj_transfer s of
                  Some tid \<Rightarrow> (s, [FetchCancel (''/cancel-send?id='' @ show_nat tid)])
                | None \<Rightarrow> (s, [])))"

section \<open>The row and the server\<close>

text \<open>
  \<open>pu_active\<close>: the request has not fired its final event; \<open>pu_served\<close>: what the upload handler
  replied, if it has run; \<open>pu_got\<close>, \<open>pu_cancels\<close>: the commands the phone's session received.
\<close>

record 'tx page_upload =
  pu_js :: upload_js
  pu_active :: bool
  pu_served :: "http_reply option option"
  pu_got :: "('tx \<times> FileSendCmd) option"
  pu_cancels :: "('tx \<times> FileSendCmd) list"

definition page_start :: "'tx page_upload" where
  "page_start = \<lparr> pu_js = upload_start, pu_active = True, pu_served = None, pu_got = None, pu_cancels = [] \<rparr>"

text \<open>
  The steps: the handler runs (with any answers of disk and channels); its reply reaches the browser;
  the connection fails; the user clicks on cancel, which aborts an active request (the browser fires
  \<^verbatim>\<open>abort\<close> at once) or posts to the cancel handler. The handler may also run after the request
  has ended in the browser, when the whole body had arrived.
\<close>

inductive page_step :: "'tx page_upload \<Rightarrow> 'tx page_upload \<Rightarrow> bool" where
  Served: "pu_served s = None \<Longrightarrow> handle_send_file lossy send_ok io headers d b = r \<Longrightarrow>
    page_step s (s\<lparr>pu_served := Some (sr_reply r), pu_got := sr_cmd r\<rparr>)"
| Loaded: "pu_active s \<Longrightarrow> pu_served s = Some (Some (status, body)) \<Longrightarrow>
    page_step s (s\<lparr>pu_active := False, pu_js := on_load status (Some (js_view body)) (pu_js s)\<rparr>)"
| Failed: "pu_active s \<Longrightarrow> page_step s (s\<lparr>pu_active := False, pu_js := on_error (pu_js s)\<rparr>)"
| ClickAbort: "on_cancel_click (pu_js s) = (js, [AbortXhr]) \<Longrightarrow> pu_active s \<Longrightarrow>
    page_step s (s\<lparr>pu_active := False, pu_js := on_abort js\<rparr>)"
| ClickPost: "on_cancel_click (pu_js s) = (js, [FetchCancel path]) \<Longrightarrow>
    handle_cancel_send send_ok path b = (reply, c) \<Longrightarrow>
    page_step s (s\<lparr>pu_js := js, pu_cancels := pu_cancels s @ (case c of Some x \<Rightarrow> [x] | None \<Rightarrow> [])\<rparr>)"
| ClickNothing: "on_cancel_click (pu_js s) = (js, []) \<Longrightarrow> page_step s (s\<lparr>pu_js := js\<rparr>)"

inductive page_reachable :: "'tx page_upload \<Rightarrow> bool" where
  Start: "page_reachable page_start"
| Step: "page_reachable s \<Longrightarrow> page_step s s' \<Longrightarrow> page_reachable s'"

section \<open>Facts\<close>

lemma set_row_status_simps [simp]:
  "uj_done (set_row_status ok reason s) = uj_done s" "uj_transfer (set_row_status ok reason s) = uj_transfer s"
  "uj_cancelled (set_row_status ok reason s) = uj_cancelled s" "uj_resolved (set_row_status ok reason s) = uj_resolved s"
  "uj_row (set_row_status ok reason s) = (if ok then RowOk else RowErr)"
  by (simp_all add: set_row_status_def Let_def)

lemma parse_uint_show: "n < bound \<Longrightarrow> parse_uint bound (show_nat n) = Some n"
proof -
  assume n: "n < bound"
  have d: "list_all is_digit (show_nat n)" using show_nat_digits by (auto simp: list_all_iff)
  have "is_digit (hd (show_nat n))" using show_nat_digits [of "hd (show_nat n)" n] by simp
  then have "hd (show_nat n) \<noteq> CHR ''+''" by (auto simp: is_digit_def)
  with d n dec_val_show_nat [of n] show ?thesis
    by (cases "show_nat n") (simp_all add: parse_uint_def del: dec_val_show_nat)
qed

lemma cancel_path_parsed: "n < 2 ^ 32 \<Longrightarrow> parse_id_query (''/cancel-send?id='' @ show_nat n) = Some (word_of_nat n)"
proof -
  assume n: "n < 2 ^ 32"
  have "\<not> is_digit (CHR ''&'')" by (simp add: is_digit_def)
  then have "CHR ''&'' \<notin> set (show_nat n)" using show_nat_digits by blast
  then have "split_on (CHR ''&'') (''id='' @ show_nat n) = [''id='' @ show_nat n]"
    by (intro split_on_single) auto
  with parse_uint_show [OF n] show ?thesis by (simp add: parse_id_query_def split_once_def starts_with_def)
qed

text \<open>What the upload handler can have replied and handed on.\<close>

definition served_ok :: "http_reply option \<Rightarrow> ('tx \<times> FileSendCmd) option \<Rightarrow> bool" where
  "served_ok reply got = (case reply of None \<Rightarrow> got = None
     | Some (status, body) \<Rightarrow>
         (\<exists>tid tx name len path. status = 200 \<and> body = JsonOkId tid \<and> got = Some (tx, SendFile tid name len path))
         \<or> (\<exists>rf. status \<noteq> 200 \<and> body = JsonFail rf \<and> got = None))"

lemma handler_served_ok:
  assumes "handle_send_file lossy send_ok io headers d b = r"
  shows "served_ok (sr_reply r) (sr_cmd r)"
  using send_file_outcome [OF assms]
proof (elim disjE exE conjE)
  fix s len acc name
  assume r: "r = hand_off send_ok io name len (d(sp_path io \<mapsto> acc)) b"
  obtain tid b' where "allocate_transfer_id b = (tid, b')" by fastforce
  with r show ?thesis
    by (cases "dispatch send_ok (SendFile tid name (word_of_nat len) (sp_path io)) b'";
      auto simp: hand_off_def served_ok_def send_refused_def dispatch_def Let_def split: option.splits if_splits)
qed (auto simp: upload_refused_def upload_broken_def upload_eof_def send_refused_def send_broken_def served_ok_def)

definition page_inv :: "'tx page_upload \<Rightarrow> bool" where
  "page_inv s =
     (let js = pu_js s in
      (uj_resolved js \<longleftrightarrow> \<not> pu_active s) \<and> (uj_done js \<longrightarrow> \<not> pu_active s)
      \<and> (case pu_served s of None \<Rightarrow> pu_got s = None | Some reply \<Rightarrow> served_ok reply (pu_got s))
      \<and> (\<forall>n. uj_transfer js = Some n \<longrightarrow> (\<exists>tid. n = unat tid \<and> pu_served s = Some (Some (200, JsonOkId tid))))
      \<and> (uj_row js = RowOk \<longrightarrow> \<not> uj_cancelled js \<and> uj_transfer js \<noteq> None)
      \<and> (uj_row js = RowErr \<and> \<not> uj_cancelled js \<and> ''network error'' \<notin> set (uj_reasons js) \<longrightarrow>
           pu_served s \<noteq> None \<and> pu_got s = None)
      \<and> (uj_row js = RowRunning \<longleftrightarrow> pu_active s) \<and> (pu_active s \<longrightarrow> uj_reasons js = [] \<and> \<not> uj_cancelled js)
      \<and> (\<forall>x\<in>set (pu_cancels s). \<exists>tid. snd x = CancelFile tid \<and> uj_transfer js = Some (unat tid))
      \<and> (pu_cancels s \<noteq> [] \<longrightarrow> uj_cancelled js) \<and> length (pu_cancels s) \<le> 1)"

lemma page_inv_transfer: "page_inv s \<Longrightarrow> uj_transfer (pu_js s) = Some n \<Longrightarrow>
    \<exists>tid. n = unat tid \<and> pu_served s = Some (Some (200, JsonOkId tid))"
  by (simp add: page_inv_def Let_def)

lemma page_inv_step:
  assumes "page_step s s'" "page_inv s"
  shows "page_inv s'"
  using assms(1)
proof cases
  case (Served lossy send_ok io headers d b r)
  with assms(2) handler_served_ok [OF Served(3)] show ?thesis by (auto simp: page_inv_def Let_def)
next
  case (Loaded status body)
  then have "served_ok (Some (status, body)) (pu_got s)" using assms(2) by (simp add: page_inv_def Let_def)
  then consider tid tx name len path where "status = 200" "body = JsonOkId tid" "pu_got s = Some (tx, SendFile tid name len path)"
    | rf where "status \<noteq> 200" "body = JsonFail rf" "pu_got s = None" by (auto simp: served_ok_def)
  then show ?thesis
    by cases (use Loaded assms(2) in \<open>auto simp: page_inv_def on_load_def set_row_status_def Let_def\<close>)
next
  case Failed
  with assms(2) show ?thesis by (auto simp: page_inv_def on_error_def set_row_status_def Let_def split: option.splits)
next
  case (ClickAbort js)
  with assms(2) show ?thesis
    by (auto simp: page_inv_def on_cancel_click_def on_abort_def set_row_status_def Let_def split: if_splits option.splits)
next
  case (ClickPost js path send_ok b reply c)
  from ClickPost(2) obtain n where n: "uj_transfer (pu_js s) = Some n" "path = ''/cancel-send?id='' @ show_nat n"
    and js: "\<not> uj_cancelled (pu_js s)" "uj_done (pu_js s)"
      "js = set_row_status False cancelled_text ((pu_js s)\<lparr>uj_cancelled := True\<rparr>)"
    by (auto simp: on_cancel_click_def Let_def split: if_splits option.splits)
  from page_inv_transfer [OF assms(2) n(1)] obtain tid :: u32 where tid: "n = unat tid" by blast
  have "unat tid < 2 ^ 32" using unsigned_less [of tid, where 'a = nat] by simp
  from cancel_path_parsed [OF this] ClickPost(3) n(2) tid
  have "c = None \<or> (\<exists>tx. c = Some (tx, CancelFile tid))"
    by (auto simp: handle_cancel_send_def dispatch_def split: option.splits if_splits prod.splits)
  moreover have "pu_cancels s = []" using assms(2) js(1) by (auto simp: page_inv_def Let_def)
  ultimately show ?thesis using ClickPost(1) assms(2) js n(1) tid
    by (auto simp: page_inv_def set_row_status_def Let_def)
next
  case (ClickNothing js)
  with assms(2) show ?thesis
    by (auto simp: page_inv_def on_cancel_click_def set_row_status_def Let_def split: if_splits option.splits)
qed

lemma page_reachable_inv: "page_reachable s \<Longrightarrow> page_inv s"
proof (induction rule: page_reachable.induct)
  case Start
  then show ?case by (simp add: page_inv_def page_start_def upload_start_def)
next
  case (Step s s')
  then show ?case using page_inv_step by blast
qed

text \<open>
  A cancel that comes while the reply is on its way: the request is aborted, the row says cancelled, and
  the phone gets the file all the same, since the page does not know the transfer's id.
\<close>

lemma cancelled_but_delivered:
  assumes "handle_send_file lossy send_ok io headers d b = r" "sr_cmd r = Some x"
  shows "\<exists>s. page_reachable s \<and> uj_row (pu_js s) = RowErr \<and> uj_reasons (pu_js s) = [cancelled_text]
    \<and> pu_got s = Some x \<and> pu_cancels s = [] \<and> \<not> pu_active s"
proof -
  let ?s = "page_start\<lparr>pu_served := Some (sr_reply r), pu_got := sr_cmd r\<rparr>"
  have "page_step page_start ?s" using assms(1) by (intro page_step.Served) (simp_all add: page_start_def)
  with page_reachable.Start have s: "page_reachable ?s" by (rule page_reachable.Step)
  let ?js = "set_row_status False cancelled_text (upload_start\<lparr>uj_cancelled := True\<rparr>)"
  have "on_cancel_click (pu_js ?s) = (?js, [AbortXhr])" "pu_active ?s"
    by (simp_all add: on_cancel_click_def page_start_def upload_start_def set_row_status_def Let_def)
  then have "page_step ?s (?s\<lparr>pu_active := False, pu_js := on_abort ?js\<rparr>)" by (rule page_step.ClickAbort)
  with s have "page_reachable (?s\<lparr>pu_active := False, pu_js := on_abort ?js\<rparr>)" by (rule page_reachable.Step)
  with assms(2) show ?thesis
    by (intro exI conjI) (auto simp: on_abort_def set_row_status_def page_start_def upload_start_def
        cancelled_text_def text_bytes_def Let_def)
qed

section \<open>Properties\<close>

text \<open>
  C31. The page tells the truth about an upload, in every state that the user, the network and the upload
  handler can bring about: the promise is resolved exactly when the request has ended; a row marked as
  sent means that the phone's session got one send command, with the id the row knows; a row marked as
  failed for any reason but a network error or a cancel means that the session got nothing; and a click
  on cancel makes the server send at most one cancel command, for exactly the transfer of the row.
\<close>

theorem page_truth:
  assumes "page_reachable s"
  shows "(uj_resolved (pu_js s) \<longleftrightarrow> \<not> pu_active s)
    \<and> (uj_row (pu_js s) = RowOk \<longrightarrow> (\<exists>tx tid name len path.
          pu_got s = Some (tx, SendFile tid name len path) \<and> uj_transfer (pu_js s) = Some (unat tid)))
    \<and> (uj_row (pu_js s) = RowErr \<and> \<not> uj_cancelled (pu_js s) \<and> ''network error'' \<notin> set (uj_reasons (pu_js s))
        \<longrightarrow> pu_got s = None)
    \<and> (pu_cancels s \<noteq> [] \<longrightarrow> (\<exists>tx tx' tid name len path. pu_cancels s = [(tx', CancelFile tid)]
          \<and> pu_got s = Some (tx, SendFile tid name len path)))"
proof -
  note inv = page_reachable_inv [OF assms, unfolded page_inv_def Let_def]
  have got: "\<exists>tx tid name len path. n = unat tid \<and> pu_got s = Some (tx, SendFile tid name len path)"
    if "uj_transfer (pu_js s) = Some n" for n
  proof -
    from page_inv_transfer [OF page_reachable_inv [OF assms] that] obtain tid where "n = unat tid" "pu_served s = Some (Some (200, JsonOkId tid))" by blast
    with inv show ?thesis by (auto simp: served_ok_def)
  qed
  have cancel: "\<exists>tx tx' tid name len path. pu_cancels s = [(tx', CancelFile tid)]
      \<and> pu_got s = Some (tx, SendFile tid name len path)" if "pu_cancels s \<noteq> []"
  proof -
    from that inv obtain x where x: "pu_cancels s = [x]" by (cases "pu_cancels s") auto
    with inv obtain tid where tid: "snd x = CancelFile tid" "uj_transfer (pu_js s) = Some (unat tid)" by auto
    from got [OF tid(2)] tid(1) x show ?thesis by (cases x) (auto simp: word_unat_eq_iff)
  qed
  have ok: "\<exists>tx tid name len path. pu_got s = Some (tx, SendFile tid name len path)
      \<and> uj_transfer (pu_js s) = Some (unat tid)" if "uj_row (pu_js s) = RowOk"
    using inv that got by fastforce
  show ?thesis using inv ok cancel by blast
qed

text \<open>An upload that the phone's session got, shown as sent, then cancelled.\<close>

lemma page_truth_witness:
  "\<exists>s :: nat page_upload. page_reachable s \<and> (\<exists>tx tid name len path.
      pu_got s = Some (tx, SendFile tid name len path) \<and> uj_transfer (pu_js s) = Some (unat tid))"
proof -
  let ?io = "\<lparr> sp_path = ''/t'', sp_create_ok = True, sp_turns = [\<lparr> st_read = Some [7], st_write_failed = None \<rparr>],
        sp_flush_ok = True, sp_rm_ok = True \<rparr>"
  have p: "parse_uint (2 ^ 64) ''1'' = Some 1" by (simp add: parse_uint_def is_digit_def dec_val_def digit_val_def)
  let ?r = "handle_send_file (\<lambda>b. []) (\<lambda>t c. True) ?io [(''content-length'', ''1'')] Map.empty (occupy 0 (5 :: nat) new_bridge)"
  have r: "sr_reply ?r = Some (200, JsonOkId 1)"
    by (simp add: handle_send_file_def Let_def get_header_def p [simplified] MAX_SPOOL_BYTES_def dispatch_dry_run_def
        occupy_def new_bridge_def hand_off_def allocate_transfer_id_def fetch_add_tid_def dispatch_def)
  let ?s = "page_start\<lparr>pu_served := Some (sr_reply ?r), pu_got := sr_cmd ?r\<rparr>"
  have "page_step page_start ?s" by (rule page_step.Served [OF _ refl]) (simp add: page_start_def)
  with page_reachable.Start have s: "page_reachable ?s" by (rule page_reachable.Step)
  let ?t = "?s\<lparr>pu_active := False, pu_js := on_load 200 (Some (js_view (JsonOkId 1))) (pu_js ?s)\<rparr>"
  have "page_step ?s ?t" by (rule page_step.Loaded) (simp_all add: page_start_def r)
  with s have t: "page_reachable ?t" by (rule page_reachable.Step)
  moreover have "uj_row (pu_js ?t) = RowOk"
    by (simp add: on_load_def page_start_def upload_start_def set_row_status_def Let_def)
  ultimately show ?thesis using page_truth [OF t] by blast
qed

end
