(* ===== verification/Http_Reply.thy ===== *)
theory Http_Reply
  imports Browser_Page
begin

text \<open>
  What the pairing page's server puts on the socket (\<^verbatim>\<open>send_json\<close>, \<^verbatim>\<open>send_html\<close> and
  \<^verbatim>\<open>send_response\<close> of \<^verbatim>\<open>server-pc/src/qr_server.rs\<close>): status line, header lines and body,
  and the JSON texts the upload handlers format. They are read back with the server's own header parser
  and with the part of \<^verbatim>\<open>JSON.parse\<close> that flat objects need.
\<close>

section \<open>JSON texts\<close>

definition dquote :: string where
  "dquote = [CHR 0x22]"

definition quoted :: "string \<Rightarrow> string" where
  "quoted s = dquote @ s @ dquote"

text \<open>The reasons are put between the quotes as they are.\<close>

fun json_text :: "json_body \<Rightarrow> string" where
  "json_text (JsonFail r) = ''{'' @ quoted ''ok'' @ '':false,'' @ quoted ''reason'' @ '':'' @ quoted (reason_text r) @ ''}''"
| "json_text JsonOk = ''{'' @ quoted ''ok'' @ '':true}''"
| "json_text (JsonOkId tid) = ''{'' @ quoted ''ok'' @ '':true,'' @ quoted ''id'' @ '':'' @ show_nat (unat tid) @ ''}''"

section \<open>Writing a reply\<close>

definition crlf :: string where
  "crlf = [CHR 0x0D, CHR 0x0A]"

definition json_head :: "nat \<Rightarrow> string \<Rightarrow> nat \<Rightarrow> string" where
  "json_head status status_text body_len =
     ''HTTP/1.1 '' @ show_nat status @ '' '' @ status_text @ crlf @
     ''Content-Type: application/json; charset=utf-8'' @ crlf @
     ''Content-Length: '' @ show_nat body_len @ crlf @
     ''Cache-Control: no-store'' @ crlf @
     ''Connection: close'' @ crlf @ crlf"

definition html_head :: "nat \<Rightarrow> string \<Rightarrow> (string \<times> string) option \<Rightarrow> nat \<Rightarrow> string" where
  "html_head status status_text extra_header body_len =
     ''HTTP/1.1 '' @ show_nat status @ '' '' @ status_text @ crlf @
     ''Content-Type: text/html; charset=utf-8'' @ crlf @
     ''Content-Length: '' @ show_nat body_len @ crlf @
     ''Cache-Control: no-store'' @ crlf @
     ''Connection: close'' @ crlf @
     (case extra_header of Some (k, v) \<Rightarrow> k @ '': '' @ v @ crlf | None \<Rightarrow> []) @ crlf"

text \<open>
  What the socket does with the two \<^verbatim>\<open>write_all\<close> calls (how many bytes a failing one had
  written) and with \<^verbatim>\<open>flush\<close>. The result: whether the function returned \<^verbatim>\<open>Ok\<close>, and the
  bytes that left.
\<close>

record write_io =
  wi_head_failed :: "nat option"
  wi_body_failed :: "nat option"
  wi_flush_ok :: bool

definition write_reply :: "write_io \<Rightarrow> string \<Rightarrow> string \<Rightarrow> bool \<times> string" where
  "write_reply io head body =
     (case wi_head_failed io of
        Some k \<Rightarrow> (False, take k head)
      | None \<Rightarrow>
          (case wi_body_failed io of
             Some k \<Rightarrow> (False, head @ take k body)
           | None \<Rightarrow> (wi_flush_ok io, head @ body)))"

definition send_json :: "write_io \<Rightarrow> nat \<Rightarrow> string \<Rightarrow> string \<Rightarrow> bool \<times> string" where
  "send_json io status status_text body = write_reply io (json_head status status_text (length body)) body"

definition send_response :: "write_io \<Rightarrow> nat \<Rightarrow> string \<Rightarrow> (string \<times> string) option \<Rightarrow> string \<Rightarrow> bool \<times> string" where
  "send_response io status status_text extra_header body =
     write_reply io (html_head status status_text extra_header (length body)) body"

definition send_html :: "write_io \<Rightarrow> nat \<Rightarrow> string \<Rightarrow> string \<Rightarrow> bool \<times> string" where
  "send_html io status status_text body = send_response io status status_text None body"

text \<open>The literals of the call sites: the status text, and the body of a redirect.\<close>

definition status_phrase :: "nat \<Rightarrow> string" where
  "status_phrase status =
     (if status = 200 then ''OK''
      else if status = 303 then ''See Other''
      else if status = 400 then ''Bad Request''
      else if status = 404 then ''Not Found''
      else if status = 413 then ''Payload Too Large''
      else ''Service Unavailable'')"

definition refreshing_text :: string where
  "refreshing_text = ''refreshing'' @ text_bytes [0xE2, 0x80, 0xA6]"

text \<open>How an answer of \<^verbatim>\<open>handle_conn\<close> is sent; a handler that failed sends nothing.\<close>

definition send_answer :: "write_io \<Rightarrow> http_answer \<Rightarrow> bool \<times> string" where
  "send_answer io a =
     (case a of
        Html status body \<Rightarrow> send_html io status (status_phrase status) body
      | SeeOther location \<Rightarrow> send_response io 303 (status_phrase 303) (Some (''Location'', location)) refreshing_text
      | Json (status, body) \<Rightarrow> send_json io status (status_phrase status) (json_text body)
      | NoAnswer \<Rightarrow> (False, []))"

section \<open>Reading it back\<close>

text \<open>\<^verbatim>\<open>read_line\<close>: up to and including the newline, or to the end of the input.\<close>

fun take_line :: "string \<Rightarrow> string \<times> string" where
  "take_line [] = ([], [])"
| "take_line (c # r) = (if c = CHR 0x0A then ([c], r) else (case take_line r of (l, rest) \<Rightarrow> (c # l, rest)))"

lemma take_line_append: "take_line s = (l, rest) \<Longrightarrow> l @ rest = s"
  by (induction s arbitrary: l rest) (auto split: if_splits prod.splits)

lemma take_line_rest: "take_line s = (l, rest) \<Longrightarrow> rest \<noteq> [] \<Longrightarrow> l \<noteq> [] \<and> last l = CHR 0x0A"
  by (induction s arbitrary: l rest) (auto split: if_splits prod.splits)

lemma take_line_more:
  "take_line s = (l, rest) \<Longrightarrow> l \<noteq> [] \<Longrightarrow> last l = CHR 0x0A \<Longrightarrow> take_line (s @ t) = (l, rest @ t)"
proof (induction s arbitrary: l rest)
  case (Cons c s)
  obtain m r where m: "take_line s = (m, r)" by fastforce
  with Cons.prems Cons.IH [OF m] show ?case
    by (cases "m = []") (auto split: if_splits)
qed simp

text \<open>
  The header block of a message: its lines with the blank one, and what follows; none if the input
  ends before the blank line.
\<close>

function header_block :: "string \<Rightarrow> (string list \<times> string) option" where
  "header_block s = (case take_line s of (l, rest) \<Rightarrow>
     if l = crlf \<or> l = [CHR 0x0A] then Some ([l], rest)
     else if l = [] \<or> last l \<noteq> CHR 0x0A then None
     else map_option (\<lambda>(ls, body). (l # ls, body)) (header_block rest))"
  by pat_completeness auto
termination
  by (relation "measure length") (auto dest!: take_line_append [OF sym])

declare header_block.simps [simp del]

lemma header_block_more:
  "header_block s = Some (ls, rest) \<Longrightarrow> header_block (s @ t) = Some (ls, rest @ t)"
proof (induction s arbitrary: ls rest rule: header_block.induct)
  case (1 s)
  obtain l r where l: "take_line s = (l, r)" by fastforce
  have nl: "l \<noteq> [] \<and> last l = CHR 0x0A"
    using "1.prems" l by (subst (asm) header_block.simps) (auto simp: crlf_def split: if_splits)
  then have "take_line (s @ t) = (l, r @ t)" using take_line_more [OF l] by blast
  moreover have "l \<noteq> crlf \<Longrightarrow> l \<noteq> [CHR 0x0A] \<Longrightarrow>
      \<exists>ls'. header_block r = Some (ls', rest) \<and> header_block (r @ t) = Some (ls', rest @ t) \<and> ls = l # ls'"
    using "1.prems" l nl "1.IH" [OF l [symmetric]]
    by (subst (asm) header_block.simps) auto
  ultimately show ?case using "1.prems" l nl
    by (subst header_block.simps, subst (asm) header_block.simps) (auto split: if_splits)
qed

text \<open>
  The reader: the status of the first line, the headers as the server's parser reads them, and as
  much of the body as the announced length says.
\<close>

definition read_status :: "string \<Rightarrow> nat option" where
  "read_status l = (case split_once (CHR '' '') l of None \<Rightarrow> None
     | Some (version, r) \<Rightarrow>
         (case split_once (CHR '' '') r of None \<Rightarrow> None
          | Some (status, phrase) \<Rightarrow> if version = ''HTTP/1.1'' then parse_uint (2 ^ 16) status else None))"

record http_received =
  hr_status :: nat
  hr_headers :: "(string \<times> string) list"
  hr_body :: string
  hr_rest :: string

definition receive_reply :: "string \<Rightarrow> http_received option" where
  "receive_reply s =
     (case take_line s of (first, r) \<Rightarrow>
       (case header_block r of None \<Rightarrow> None | Some (ls, body) \<Rightarrow>
         (case (read_status first, Option.bind (get_header ''content-length'' (read_headers ls)) (parse_uint (2 ^ 64))) of
            (Some status, Some n) \<Rightarrow>
              if n \<le> length body then Some \<lparr> hr_status = status, hr_headers = read_headers ls,
                hr_body = take n body, hr_rest = drop n body \<rparr> else None
          | _ \<Rightarrow> None)))"

section \<open>Flat JSON objects\<close>

datatype js_value = JsBool bool | JsNum nat | JsStr string

text \<open>A string without escapes, from behind its opening quote.\<close>

fun js_string :: "string \<Rightarrow> (string \<times> string) option" where
  "js_string [] = None"
| "js_string (c # r) =
     (if c = CHR 0x22 then Some ([], r)
      else if c = CHR 0x5C \<or> (of_char c :: nat) < 32 then None
      else (case js_string r of None \<Rightarrow> None | Some (s, rest) \<Rightarrow> Some (c # s, rest)))"

definition js_read_value :: "string \<Rightarrow> (js_value \<times> string) option" where
  "js_read_value s =
     (case s of [] \<Rightarrow> None
      | c # r \<Rightarrow>
          if c = CHR 0x22 then map_option (\<lambda>(v, rest). (JsStr v, rest)) (js_string r)
          else if is_digit c then Some (JsNum (dec_val (takeWhile is_digit s)), dropWhile is_digit s)
          else (case strip_prefix ''true'' s of Some rest \<Rightarrow> Some (JsBool True, rest)
                | None \<Rightarrow> map_option (\<lambda>rest. (JsBool False, rest)) (strip_prefix ''false'' s)))"

text \<open>The fields, from behind the opening brace; each takes up input, so its length is fuel enough.\<close>

fun js_fields :: "nat \<Rightarrow> string \<Rightarrow> (string \<times> js_value) list option" where
  "js_fields 0 s = None"
| "js_fields (Suc n) s =
     (case s of [] \<Rightarrow> None
      | q # r \<Rightarrow> if q \<noteq> CHR 0x22 then None
          else (case js_string r of None \<Rightarrow> None
            | Some (k, r1) \<Rightarrow>
                (case strip_prefix '':'' r1 of None \<Rightarrow> None
                 | Some r2 \<Rightarrow>
                     (case js_read_value r2 of None \<Rightarrow> None
                      | Some (v, r3) \<Rightarrow>
                          if r3 = ''}'' then Some [(k, v)]
                          else (case strip_prefix '','' r3 of None \<Rightarrow> None
                            | Some r4 \<Rightarrow> map_option (Cons (k, v)) (js_fields n r4))))))"

text \<open>The three fields the script of the page looks at; a later field replaces an earlier one.\<close>

definition js_parse :: "string \<Rightarrow> js_reply option" where
  "js_parse s = (case strip_prefix ''{'' s of None \<Rightarrow> None
     | Some r \<Rightarrow> map_option (\<lambda>fs. let f = map_of (rev fs) in
         \<lparr> jr_ok = (f ''ok'' = Some (JsBool True)),
           jr_id = (case f ''id'' of Some (JsNum n) \<Rightarrow> Some n | _ \<Rightarrow> None),
           jr_reason = (case f ''reason'' of Some (JsStr t) \<Rightarrow> Some t | _ \<Rightarrow> None) \<rparr>)
         (js_fields (length r) r))"

section \<open>Facts about the JSON texts\<close>

definition plain_json :: "string \<Rightarrow> bool" where
  "plain_json s = list_all (\<lambda>c. (of_char c :: nat) \<notin> {34, 92} \<and> 32 \<le> (of_char c :: nat)) s"

lemma js_string_plain: "plain_json s \<Longrightarrow> js_string (s @ CHR 0x22 # r) = Some (s, r)"
  by (induction s) (auto simp: plain_json_def)

lemma reason_plain: "plain_json (reason_text r)"
proof (cases r)
  case (DispatchFailed e)
  then show ?thesis by (cases e) (simp_all add: plain_json_def no_session_text_def text_bytes_def)
qed (simp_all add: plain_json_def no_session_text_def text_bytes_def)

lemma show_nat_span:
  assumes "\<not> is_digit c"
  shows "takeWhile is_digit (show_nat n @ c # r) = show_nat n" "dropWhile is_digit (show_nat n @ c # r) = c # r"
proof -
  have "\<And>x. x \<in> set (show_nat n) \<Longrightarrow> is_digit x" using show_nat_digits by blast
  then show "takeWhile is_digit (show_nat n @ c # r) = show_nat n" "dropWhile is_digit (show_nat n @ c # r) = c # r"
    using assms by simp_all
qed

lemma js_read_number: "js_read_value (show_nat n @ ''}'') = Some (JsNum n, ''}'')"
proof (cases "show_nat n")
  case Nil
  then show ?thesis by simp
next
  case (Cons c r)
  have d: "is_digit c" using show_nat_digits [of c n] Cons by simp
  then have "c \<noteq> CHR 0x22" by (auto simp: is_digit_def)
  moreover have "takeWhile is_digit (show_nat n @ ''}'') = show_nat n" "dropWhile is_digit (show_nat n @ ''}'') = ''}''"
    by (rule show_nat_span, simp add: is_digit_def)+
  ultimately show ?thesis using d dec_val_show_nat [of n] Cons
    by (simp add: js_read_value_def del: dec_val_show_nat)
qed

text \<open>The script sees what the handler meant.\<close>

lemma json_text_parsed: "js_parse (json_text b) = Some (js_view b)"
proof (cases b)
  case (JsonFail r)
  have ok: "js_string (''ok'' @ CHR 0x22 # t) = Some (''ok'', t)"
    and reason: "js_string (''reason'' @ CHR 0x22 # t) = Some (''reason'', t)" for t
    by (rule js_string_plain, simp add: plain_json_def)+
  show ?thesis
    using JsonFail js_string_plain [OF reason_plain [of r], of "''}''"]
    by (simp add: js_parse_def quoted_def dquote_def js_read_value_def is_digit_def numeral_eq_Suc Let_def)
next
  case JsonOk
  then show ?thesis
    by (simp add: js_parse_def quoted_def dquote_def js_read_value_def is_digit_def Let_def)
next
  case (JsonOkId tid)
  then show ?thesis using js_read_number [of "unat tid"]
    by (simp add: js_parse_def quoted_def dquote_def js_read_value_def is_digit_def Let_def)
qed

section \<open>Facts about the lines\<close>

lemma take_line_nl: "CHR 0x0A \<notin> set l \<Longrightarrow> take_line (l @ CHR 0x0A # r) = (l @ [CHR 0x0A], r)"
  by (induction l) auto

lemma split_once_append: "c \<notin> set a \<Longrightarrow> split_once c (a @ c # r) = Some (a, r)"
proof -
  assume "c \<notin> set a"
  then have "\<forall>x\<in>set a. x \<noteq> c" by auto
  then show ?thesis by (simp add: split_once_def dropWhile_append2 takeWhile_append2)
qed

text \<open>Trimming ASCII text, character by character.\<close>

definition blank :: "char \<Rightarrow> bool" where
  "blank c = is_whitespace (of_char c)"

lemma trim_ascii: "is_ascii s \<Longrightarrow> trim s = rev (dropWhile blank (rev (dropWhile blank s)))"
proof -
  assume a: "is_ascii s"
  let ?t = "rev (dropWhile blank (rev (dropWhile blank s)))"
  have "trim_chars (chars s) = map of_char ?t"
    by (simp add: chars_ascii [OF a] trim_chars_def dropWhile_map rev_map comp_def blank_def [abs_def])
  moreover have "set ?t \<subseteq> set s" by (metis (no_types, lifting) set_dropWhileD set_rev subsetI)
  then have "is_ascii ?t" using a by (auto simp: is_ascii_def list_all_iff)
  ultimately show ?thesis by (simp add: trim_def from_chars_ascii)
qed

text \<open>A header value: printable ASCII that neither begins nor ends with a blank.\<close>

definition header_value :: "string \<Rightarrow> bool" where
  "header_value v = (v \<noteq> [] \<and> list_all (\<lambda>c. 32 \<le> (of_char c :: nat) \<and> (of_char c :: nat) < 127) v
     \<and> \<not> blank (hd v) \<and> \<not> blank (last v))"

lemma header_value_ascii: "header_value v \<Longrightarrow> is_ascii v" "header_value v \<Longrightarrow> CHR 0x0A \<notin> set v"
  by (auto simp: header_value_def is_ascii_def list_all_iff)

lemma trim_around:
  assumes v: "header_value v" and ab: "is_ascii a" "is_ascii b" "list_all blank a" "list_all blank b"
  shows "trim (a @ v @ b) = v"
proof -
  obtain h t where "v = h # t" "\<not> blank h" using v by (cases v) (auto simp: header_value_def)
  then have "dropWhile blank (a @ v @ b) = v @ b"
    using ab(3) by (simp add: dropWhile_append2 list_all_iff)
  moreover obtain i l where "v = i @ [l]" "\<not> blank l" using v by (cases v rule: rev_cases) (auto simp: header_value_def)
  then have "dropWhile blank (rev b @ rev v) = rev v"
    using ab(4) dropWhile_append2 [of "rev b" blank] by (simp add: list_all_iff)
  moreover have "is_ascii (a @ v @ b)" using ab header_value_ascii(1) [OF v] by (simp add: is_ascii_def list_all_append)
  ultimately show ?thesis by (simp add: trim_ascii)
qed

text \<open>A header line, and what the parser makes of it.\<close>

definition header_text :: "string \<times> string \<Rightarrow> string" where
  "header_text kv = fst kv @ '': '' @ snd kv @ crlf"

definition header_ok :: "string \<times> string \<Rightarrow> bool" where
  "header_ok kv = (header_value (fst kv) \<and> CHR '':'' \<notin> set (fst kv) \<and> header_value (snd kv))"

lemma header_line_text: "header_ok (k, v) \<Longrightarrow> header_line (header_text (k, v)) = Some (map ascii_lower k, v)"
proof -
  assume ok: "header_ok (k, v)"
  have "header_text (k, v) = k @ CHR '':'' # ('' '' @ v @ crlf)" by (simp add: header_text_def)
  then have "split_once (CHR '':'') (header_text (k, v)) = Some (k, '' '' @ v @ crlf)"
    using ok split_once_append [of "CHR '':''" k] by (simp add: header_ok_def)
  moreover have "trim k = k" using trim_around [of k "[]" "[]"] ok by (simp add: header_ok_def is_ascii_def)
  moreover have "trim ('' '' @ v @ crlf) = v" using ok
    by (intro trim_around) (simp_all add: header_ok_def is_ascii_def crlf_def blank_def is_whitespace_def)
  ultimately show ?thesis by (simp add: header_line_def)
qed

lemma header_text_take: "header_ok kv \<Longrightarrow> take_line (header_text kv @ r) = (header_text kv, r)"
proof -
  assume ok: "header_ok kv"
  then have "CHR 0x0A \<notin> set (fst kv @ '': '' @ snd kv @ [CHR 0x0D])"
    by (auto simp: header_ok_def dest: header_value_ascii(2))
  from take_line_nl [OF this, of r] show ?thesis by (simp add: header_text_def crlf_def)
qed

lemma header_text_neq: "header_ok kv \<Longrightarrow>
    header_text kv \<noteq> crlf \<and> header_text kv \<noteq> [CHR 0x0A] \<and> header_text kv \<noteq> [] \<and> last (header_text kv) = CHR 0x0A"
  by (cases "fst kv") (auto simp: header_ok_def header_value_def header_text_def crlf_def)

lemma header_block_text: "list_all header_ok hs \<Longrightarrow>
    header_block (concat (map header_text hs) @ crlf @ body) = Some (map header_text hs @ [crlf], body)"
proof (induction hs)
  case Nil
  show ?case by (subst header_block.simps) (simp add: crlf_def)
next
  case (Cons kv hs)
  then have ok: "header_ok kv" by simp
  have "take_line (concat (map header_text (kv # hs)) @ crlf @ body)
      = (header_text kv, concat (map header_text hs) @ crlf @ body)"
    using header_text_take [OF ok] by simp
  then show ?case using Cons header_text_neq [OF ok] by (subst header_block.simps) simp
qed

lemma read_headers_text: "list_all header_ok hs \<Longrightarrow>
    read_headers (map header_text hs @ [crlf]) = map (\<lambda>(k, v). (map ascii_lower k, v)) hs"
proof (induction hs)
  case (Cons kv hs)
  then show ?case using header_text_neq [of kv] header_line_text [of "fst kv" "snd kv"]
    by (auto simp: crlf_def split: prod.split)
qed (simp add: crlf_def)

text \<open>A request line of three words, as the server splits it.\<close>

lemma split_ws_blank: "is_whitespace c \<Longrightarrow> split_ws (c # r) = split_ws r"
  by (subst (1 2) split_ws.simps) simp

lemma split_ws_word:
  assumes "w \<noteq> []" "list_all (\<lambda>c. \<not> is_whitespace c) w" "r = [] \<or> is_whitespace (hd r)"
  shows "split_ws (w @ r) = w # split_ws r"
proof -
  obtain c t where w: "w = c # t" using assms(1) by (cases w) auto
  have "takeWhile (\<lambda>x. \<not> is_whitespace x) r = []" "dropWhile (\<lambda>x. \<not> is_whitespace x) r = r"
    using assms(3) by (cases r; simp)+
  with assms(2) w show ?thesis
    by (subst split_ws.simps) (simp add: takeWhile_append2 dropWhile_append2 list_all_iff)
qed

definition word_text :: "string \<Rightarrow> bool" where
  "word_text w = (w \<noteq> [] \<and> list_all (\<lambda>c. 32 < (of_char c :: nat) \<and> (of_char c :: nat) < 127) w)"

lemma word_text_chars: "word_text w \<Longrightarrow> is_ascii w \<and> map of_char w \<noteq> ([] :: nat list)
    \<and> list_all (\<lambda>c. \<not> is_whitespace c) (map of_char w)"
  by (auto simp: word_text_def is_ascii_def list_all_iff is_whitespace_def)

lemma read_request_text:
  assumes "word_text m" "word_text p" "word_text v"
  shows "read_request ((m @ '' '' @ p @ '' '' @ v @ crlf) # ls)
    = Some \<lparr> rq_method = m, rq_path = p, rq_headers = read_headers ls \<rparr>"
proof -
  note c = assms [THEN word_text_chars]
  let ?l = "m @ '' '' @ p @ '' '' @ v @ crlf"
  have "is_ascii ?l" using c by (simp add: is_ascii_def list_all_append crlf_def)
  then have "chars ?l = map of_char m @ 32 # map of_char p @ 32 # map of_char v @ [13, 10]"
    by (simp add: chars_ascii crlf_def)
  moreover have "split_ws (map of_char m @ 32 # map of_char p @ 32 # map of_char v @ [13, 10])
      = [map of_char m, map of_char p, map of_char v]"
  proof -
    have ws: "is_whitespace 32" "is_whitespace 13" "is_whitespace 10" by (simp_all add: is_whitespace_def)
    have "split_ws [13, 10] = []" by (simp add: split_ws_blank ws) (simp add: split_ws.simps)
    then show ?thesis using c by (simp add: split_ws_word split_ws_blank ws)
  qed
  ultimately show ?thesis using c by (simp add: read_request_def from_chars_ascii)
qed

section \<open>The reply as a whole\<close>

fun answer_status :: "http_answer \<Rightarrow> nat" where
  "answer_status (Html status body) = status"
| "answer_status (SeeOther location) = 303"
| "answer_status (Json reply) = fst reply"
| "answer_status NoAnswer = 0"

fun answer_body :: "http_answer \<Rightarrow> string" where
  "answer_body (Html status body) = body"
| "answer_body (SeeOther location) = refreshing_text"
| "answer_body (Json reply) = json_text (snd reply)"
| "answer_body NoAnswer = []"

fun answer_headers :: "http_answer \<Rightarrow> (string \<times> string) list" where
  "answer_headers a =
     [(''Content-Type'', (case a of Json reply \<Rightarrow> ''application/json; charset=utf-8'' | _ \<Rightarrow> ''text/html; charset=utf-8'')),
      (''Content-Length'', show_nat (length (answer_body a))), (''Cache-Control'', ''no-store''), (''Connection'', ''close'')]
     @ (case a of SeeOther location \<Rightarrow> [(''Location'', location)] | _ \<Rightarrow> [])"

definition status_line :: "nat \<Rightarrow> string" where
  "status_line status = ''HTTP/1.1 '' @ show_nat status @ '' '' @ status_phrase status @ crlf"

definition whole_reply :: "http_answer \<Rightarrow> string" where
  "whole_reply a = status_line (answer_status a) @ concat (map header_text (answer_headers a)) @ crlf @ answer_body a"

lemma write_reply_prefix: "write_reply io head body = (ok, s) \<Longrightarrow> \<exists>t. s @ t = head @ body"
  by (auto simp: write_reply_def split: option.splits
      intro: exI [of _ "drop (the (wi_head_failed io)) head @ body"] exI [of _ "drop (the (wi_body_failed io)) body"])

lemma write_reply_ok: "write_reply io head body = (True, s) \<Longrightarrow> s = head @ body"
  by (auto simp: write_reply_def split: option.splits)

lemma send_answer_text:
  assumes "a \<noteq> NoAnswer"
  shows "\<exists>head. send_answer io a = write_reply io head (answer_body a) \<and> whole_reply a = head @ answer_body a"
  using assms by (cases a) (auto simp: send_answer_def send_html_def send_response_def send_json_def html_head_def
      json_head_def whole_reply_def status_line_def header_text_def crlf_def split: prod.splits)

text \<open>What the handlers can answer.\<close>

lemma send_file_status:
  "sr_reply (handle_send_file lossy send_ok io headers d b) = Some (st, j) \<Longrightarrow> st \<in> {200, 400, 413, 503}"
  by (auto simp: handle_send_file_def hand_off_def send_refused_def send_broken_def Let_def
      split: option.splits sum.splits if_splits prod.splits spool_end.splits)

lemma handle_conn_status:
  assumes "handle_conn render renew lossy send_ok io ls w = (a, w', c)" "a \<noteq> NoAnswer"
  shows "answer_status a \<in> {200, 303, 400, 404, 413, 503}" "a = SeeOther l \<Longrightarrow> l = ''/''"
  using assms by (auto simp: handle_conn_def handle_cancel_send_def Let_def dest!: send_file_status
      split: option.splits route.splits prod.splits)

text \<open>The whole reply, read back.\<close>

lemma show_nat_range: "c \<in> set (show_nat n) \<Longrightarrow> 48 \<le> (of_char c :: nat) \<and> (of_char c :: nat) \<le> 57"
  using show_nat_digits [of c n] by (simp add: is_digit_def)

lemma header_value_number: "header_value (show_nat n)"
proof -
  have "hd (show_nat n) \<in> set (show_nat n)" "last (show_nat n) \<in> set (show_nat n)" by simp_all
  then have "\<not> blank (hd (show_nat n))" "\<not> blank (last (show_nat n))"
    using show_nat_range [of "hd (show_nat n)" n] show_nat_range [of "last (show_nat n)" n]
    by (auto simp: blank_def is_whitespace_def)
  moreover have "list_all (\<lambda>c. 32 \<le> (of_char c :: nat) \<and> (of_char c :: nat) < 127) (show_nat n)"
    using show_nat_range by (fastforce simp: list_all_iff)
  ultimately show ?thesis by (simp add: header_value_def)
qed

lemma answer_headers_ok: "(\<And>l. a = SeeOther l \<Longrightarrow> l = ''/'') \<Longrightarrow> list_all header_ok (answer_headers a)"
  using header_value_number by (cases a)
    (auto simp: header_ok_def header_value_def blank_def is_whitespace_def)

lemma read_status_line:
  assumes "n < 2 ^ 16"
  shows "take_line (status_line n @ r) = (status_line n, r)" "read_status (status_line n) = Some n"
proof -
  have "CHR 0x0A \<notin> set (show_nat n)" "CHR '' '' \<notin> set (show_nat n)"
    using show_nat_range [of "CHR 0x0A" n] show_nat_range [of "CHR '' ''" n] by auto
  moreover from this have "CHR 0x0A \<notin> set (''HTTP/1.1 '' @ show_nat n @ '' '' @ status_phrase n @ [CHR 0x0D])"
    by (simp add: status_phrase_def)
  from take_line_nl [OF this, of r] show "take_line (status_line n @ r) = (status_line n, r)"
    by (simp add: status_line_def crlf_def)
  moreover have "status_line n = ''HTTP/1.1'' @ CHR '' '' # show_nat n @ CHR '' '' # status_phrase n @ crlf"
    by (simp add: status_line_def)
  ultimately show "read_status (status_line n) = Some n"
    using split_once_append [of "CHR '' ''" "''HTTP/1.1''"] split_once_append [of "CHR '' ''" "show_nat n"]
      parse_uint_show [OF assms] by (simp only: read_status_def option.case prod.case) simp
qed

lemma lower_headers:
  "map (\<lambda>(k, v). (map ascii_lower k, v)) (answer_headers a) =
     [(''content-type'', snd (answer_headers a ! 0)), (''content-length'', show_nat (length (answer_body a))),
      (''cache-control'', ''no-store''), (''connection'', ''close'')]
     @ (case a of SeeOther location \<Rightarrow> [(''location'', location)] | _ \<Rightarrow> [])"
  by (cases a) (simp_all add: ascii_lower_def char_of_def bit_Suc_0_iff)

lemma receive_whole:
  assumes "answer_status a < 2 ^ 16" "list_all header_ok (answer_headers a)" "length (answer_body a) < 2 ^ 64"
  shows "receive_reply (whole_reply a) = Some \<lparr> hr_status = answer_status a,
    hr_headers = map (\<lambda>(k, v). (map ascii_lower k, v)) (answer_headers a), hr_body = answer_body a, hr_rest = [] \<rparr>"
proof -
  let ?hs = "map (\<lambda>(k, v). (map ascii_lower k, v)) (answer_headers a)"
  have "get_header ''content-length'' ?hs = Some (show_nat (length (answer_body a)))"
    by (simp add: get_header_def lower_headers del: answer_headers.simps)
  then show ?thesis
    using read_status_line [OF assms(1)] header_block_text [OF assms(2)] read_headers_text [OF assms(2)]
      parse_uint_show [OF assms(3)]
    by (simp add: receive_reply_def whole_reply_def del: answer_headers.simps)
qed

lemma receive_more:
  "receive_reply s = Some r \<Longrightarrow> receive_reply (s @ t) = Some (r\<lparr>hr_rest := hr_rest r @ t\<rparr>)"
proof -
  assume r: "receive_reply s = Some r"
  obtain l rest where l: "take_line s = (l, rest)" by fastforce
  with r obtain ls body where b: "header_block rest = Some (ls, body)"
    by (auto simp: receive_reply_def split: option.splits)
  have "rest \<noteq> []"
  proof
    assume "rest = []"
    with b show False by (subst (asm) header_block.simps) (simp add: crlf_def)
  qed
  then have "take_line (s @ t) = (l, rest @ t)" using take_line_rest [OF l] take_line_more [OF l] by blast
  with header_block_more [OF b, of t] l b r show ?thesis
    by (auto simp: receive_reply_def split: option.splits if_splits)
qed

section \<open>Properties\<close>

text \<open>
  C30. A reply arrives whole or not at all: whatever request \<^verbatim>\<open>handle_conn\<close> answered and wherever
  writing the answer fails, a reader of the bytes that left takes nothing but the complete reply, with
  the status, the body, the redirect's target and the JSON fields that the handler meant and no byte
  left over; and if the send succeeded, it takes that reply.
\<close>

theorem reply_delivered:
  assumes "handle_conn render renew lossy send_ok io ls w = (a, w', c)" "a \<noteq> NoAnswer"
    and "length (answer_body a) < 2 ^ 64"
  shows "case send_answer wio a of (ok, s) \<Rightarrow>
    (ok \<longrightarrow> receive_reply s \<noteq> None)
    \<and> (\<forall>r. receive_reply s = Some r \<longrightarrow>
         hr_status r = answer_status a \<and> hr_body r = answer_body a \<and> hr_rest r = []
         \<and> (\<forall>l. a = SeeOther l \<longrightarrow> get_header ''location'' (hr_headers r) = Some l)
         \<and> (\<forall>st b. a = Json (st, b) \<longrightarrow> js_parse (hr_body r) = Some (js_view b)))"
proof -
  obtain ok s where s: "send_answer wio a = (ok, s)" by fastforce
  note st = handle_conn_status [OF assms(1,2)]
  then have n: "answer_status a < 2 ^ 16" by auto
  obtain hs where whole: "receive_reply (whole_reply a)
      = Some \<lparr> hr_status = answer_status a, hr_headers = hs, hr_body = answer_body a, hr_rest = [] \<rparr>"
    and hs: "hs = map (\<lambda>(k, v). (map ascii_lower k, v)) (answer_headers a)"
    using receive_whole [OF n answer_headers_ok assms(3)] st(2) by blast
  have loc: "get_header ''location'' hs = Some l" if "a = SeeOther l" for l
    using that hs by (simp add: get_header_def lower_headers del: answer_headers.simps)
  obtain head where h: "send_answer wio a = write_reply wio head (answer_body a)" "whole_reply a = head @ answer_body a"
    using send_answer_text [OF assms(2)] by blast
  have "ok \<Longrightarrow> s = whole_reply a" using write_reply_ok [of wio head "answer_body a" s] h s by simp
  moreover obtain t where t: "s @ t = whole_reply a" using write_reply_prefix [of wio head "answer_body a" ok s] h s by auto
  moreover have "hr_status r = answer_status a \<and> hr_body r = answer_body a \<and> hr_headers r = hs \<and> hr_rest r = []"
    if "receive_reply s = Some r" for r
    using receive_more [OF that, of t] whole t by (cases r) simp
  ultimately show ?thesis using s whole loc json_text_parsed by auto
qed

text \<open>An upload without a length, whose refusal is sent and read.\<close>

definition demo_spool :: spool_io where
  "demo_spool = \<lparr> sp_path = ''/t'', sp_create_ok = True, sp_turns = [], sp_flush_ok = True, sp_rm_ok = True \<rparr>"

definition demo_page_world :: "nat page_world" where
  "demo_page_world = \<lparr> pw_pairing = \<lparr> p_code = ''000000'', p_key = [], p_created = 0, p_consumed = False \<rparr>,
     pw_fs = Map.empty, pw_bridge = new_bridge \<rparr>"

lemma reply_delivered_witness:
  "\<exists>r. receive_reply (snd (send_answer \<lparr> wi_head_failed = None, wi_body_failed = None, wi_flush_ok = True \<rparr>
       (Json (400, JsonFail MissingLength)))) = Some r
     \<and> js_parse (hr_body r) = Some \<lparr> jr_ok = False, jr_id = None, jr_reason = Some ''missing content-length'' \<rparr>"
proof -
  let ?io = "\<lparr> wi_head_failed = None, wi_body_failed = None, wi_flush_ok = True \<rparr>"
  let ?ls = "[''POST'' @ '' '' @ ''/send-file'' @ '' '' @ ''HTTP/1.1'' @ crlf]"
  have rq: "read_request ?ls = Some \<lparr> rq_method = ''POST'', rq_path = ''/send-file'', rq_headers = [] \<rparr>"
    by (subst read_request_text) (simp_all add: word_text_def)
  have conn: "handle_conn (\<lambda>p. []) id (\<lambda>b. []) (\<lambda>t c. True) demo_spool ?ls demo_page_world
      = (Json (400, JsonFail MissingLength), demo_page_world, None)"
    by (simp only: handle_conn_def rq option.case) (simp add: route_of_def Let_def starts_with_def handle_send_file_def get_header_def send_refused_def)
  have "fst (send_answer ?io (Json (400, JsonFail MissingLength)))"
    by (simp add: send_answer_def send_json_def write_reply_def)
  with reply_delivered [OF conn, of ?io] show ?thesis
    by (cases "send_answer ?io (Json (400, JsonFail MissingLength))") (auto simp: quoted_def dquote_def)
qed

end
