(* ===== verification/Qr_Card.thy ===== *)
theory Qr_Card
  imports Http_Reply Qr_Payload
begin

text \<open>
  What is shown around the code (\<^verbatim>\<open>server-pc/src/qr.rs\<close>): the card of the page with its escaped
  texts, the lines printed to the terminal, and the page saved as a file. Drawing the code itself is
  the library's and an argument.
\<close>

section \<open>The card of the page\<close>

definition newline :: string where
  "newline = [CHR 0x0A]"

fun kind_label :: "InterfaceKind \<Rightarrow> string" where
  "kind_label Physical = text_bytes [0xE7,0x89,0xA9,0xE7,0x90,0x86,0xE7,0xBD,0x91,0xE5,0x8D,0xA1]"
| "kind_label UnknownKind = ''--''"
| "kind_label Virtual = text_bytes [0xE8,0x99,0x9A,0xE6,0x8B,0x9F,0xE7,0xBD,0x91,0xE5,0x8D,0xA1]"

fun kind_class :: "InterfaceKind \<Rightarrow> string" where
  "kind_class Physical = ''ok''"
| "kind_class UnknownKind = ''warn''"
| "kind_class Virtual = ''bad''"

definition middle_dot :: string where
  "middle_dot = text_bytes [0x20,0xC2,0xB7,0x20]"

definition relay_label :: string where
  "relay_label = text_bytes [0xE8,0xB7,0xA8,0xE7,0xBD,0x91,0xE7,0xBB,0x9C,0xE4,0xB8,0xAD,0xE7,0xBB,0xA7,0x3A,0x20]"

definition relay_line :: "RelayQrInfo option \<Rightarrow> string \<Rightarrow> string" where
  "relay_line relay relay_display =
     (if relay \<noteq> None then ''<div class='' @ quoted ''iface relay-tag'' @ ''>'' @ relay_label @ html_escape relay_display @ ''</div>''
      else [])"

definition qr_tile :: "string \<Rightarrow> RelayQrInfo option \<Rightarrow> qr_card \<Rightarrow> string" where
  "qr_tile svg_xml relay cd =
     ''<div class='' @ quoted ''card combo'' @ ''>'' @ newline
     @ ''              <div class='' @ quoted ''qr'' @ ''>'' @ svg_xml @ ''</div>'' @ newline
     @ ''              <div class='' @ quoted ''ip'' @ ''>'' @ html_escape (qc_lan_display cd) @ ''</div>'' @ newline
     @ ''              <div class='' @ quoted (''iface '' @ kind_class (qc_kind cd)) @ ''>'' @ html_escape (qc_iface cd)
       @ middle_dot @ kind_label (qc_kind cd) @ ''</div>'' @ newline
     @ ''              '' @ relay_line relay (qc_relay_display cd) @ newline
     @ ''              <div class='' @ quoted ''meta'' @ ''>'' @ html_escape (qc_payload cd) @ ''</div>'' @ newline
     @ ''            </div>''"

text \<open>
  The tile of a page, from the addresses; \<open>svg\<close> is the drawing of a text, if it fits into a code.
\<close>

definition page_tile :: "(string \<Rightarrow> string option) \<Rightarrow> DiscoveredAddr list \<Rightarrow> u16 \<Rightarrow> string \<Rightarrow> string \<Rightarrow>
    RelayQrInfo option \<Rightarrow> string option" where
  "page_tile svg addrs port code key relay =
     (case build_qr_card addrs port code key relay of None \<Rightarrow> None
      | Some cd \<Rightarrow> map_option (\<lambda>x. qr_tile x relay cd) (svg (qc_payload cd)))"

section \<open>Terminal and file\<close>

definition print_qr_to_terminal :: "(string \<Rightarrow> string option) \<Rightarrow> string \<Rightarrow> u16 \<Rightarrow> string \<Rightarrow> string \<Rightarrow> string list option" where
  "print_qr_to_terminal unicode host port code key_b64url =
     (let payload = build_payload host port code key_b64url in
      map_option (\<lambda>image.
        [[], image, ''Pairing code: '' @ code @ ''   (5 min TTL, single use)'',
         ''URL         : rc://'' @ host @ '':'' @ show_nat (unat port) @ ''/?v='' @ show_nat (unat PROTOCOL_VERSION)
           @ ''&c='' @ code @ ''&k='' @ text_bytes [0xE2,0x80,0xA6], []]) (unicode payload))"

datatype save_call = WriteFile string string | OpenWithApp "string list"

definition open_in_default_app :: "string \<Rightarrow> save_call" where
  "open_in_default_app path = OpenWithApp [''cmd'', ''/C'', ''start'', [], path]"

datatype save_error = PageNotBuilt | NoCurrentDir | PageNotWritten string

text \<open>\<open>html\<close> is the page, if it can be built; the outcome of starting the application is ignored.\<close>

definition save_qr_html_and_open :: "string option \<Rightarrow> string option \<Rightarrow> (string \<Rightarrow> bool) \<Rightarrow>
    (save_error + string) \<times> save_call list" where
  "save_qr_html_and_open html cwd write_ok =
     (case html of None \<Rightarrow> (Inl PageNotBuilt, [])
      | Some h \<Rightarrow>
          (case cwd of None \<Rightarrow> (Inl NoCurrentDir, [])
           | Some d \<Rightarrow> (let path = path_join d ''qrcode.html'' in
               if write_ok path then (Inr path, [WriteFile path h, open_in_default_app path])
               else (Inl (PageNotWritten path), [WriteFile path h]))))"

section \<open>Facts\<close>

lemma replace_char_mem: "x \<in> set (replace_char c r s) \<longleftrightarrow> x \<in> set s \<and> x \<noteq> c \<or> c \<in> set s \<and> x \<in> set r"
  by (auto simp: replace_char_def)

definition markup :: "char \<Rightarrow> bool" where
  "markup c = (c \<in> {CHR ''<'', CHR ''>'', CHR 0x22})"

lemma html_escape_plain: "markup c \<Longrightarrow> c \<notin> set (html_escape s)"
  by (auto simp: html_escape_def replace_char_mem markup_def)

lemma count_escape: "markup c \<Longrightarrow> count_list (html_escape s) c = 0"
  by (simp add: count_list_0_iff html_escape_plain)

text \<open>Text without markup is shown as it is, but for the ampersand.\<close>

lemma html_escape_id: "list_all (\<lambda>c. \<not> markup c \<and> c \<noteq> CHR ''&'') s \<Longrightarrow> html_escape s = s"
proof -
  assume s: "list_all (\<lambda>c. \<not> markup c \<and> c \<noteq> CHR ''&'') s"
  have "replace_char c r s = s" if "markup c \<or> c = CHR ''&''" for c r
    using that s by (induction s) (auto simp: replace_char_def)
  then show ?thesis by (simp add: html_escape_def markup_def)
qed

text \<open>What the terminal shows does not depend on the key, once the image is drawn.\<close>

lemma terminal_hides_key:
  "print_qr_to_terminal unicode host port code k1 = Some ls \<Longrightarrow> print_qr_to_terminal unicode host port code k2 = Some ls'
    \<Longrightarrow> take 1 ls @ drop 2 ls = take 1 ls' @ drop 2 ls'"
  by (auto simp: print_qr_to_terminal_def Let_def)

lemma payload_prefix: "starts_with (build_combined_payload host port code key relay) ''rc://''"
  by (cases relay) (simp_all add: build_combined_payload_def build_payload_def starts_with_def Let_def)

lemma card_payload: "build_qr_card addrs port code key relay = Some cd \<Longrightarrow>
    \<exists>host. qc_payload cd = build_combined_payload host port code key relay"
  by (auto simp: build_qr_card_def split: if_splits prod.splits)

lemma template_counts:
  assumes "markup c"
  shows "count_list (text_bytes [0xE7,0x89,0xA9,0xE7,0x90,0x86,0xE7,0xBD,0x91,0xE5,0x8D,0xA1]) c = 0"
    and "count_list (text_bytes [0xE8,0x99,0x9A,0xE6,0x8B,0x9F,0xE7,0xBD,0x91,0xE5,0x8D,0xA1]) c = 0"
    and "count_list middle_dot c = 0" "count_list relay_label c = 0"
  using assms by (auto simp: markup_def text_bytes_def middle_dot_def relay_label_def count_list_0_iff char_of_eq_iff)

lemma tile_counts:
  assumes "markup c"
  shows "count_list (qr_tile drawing relay cd) c = count_list drawing c + (if relay = None then 10 else 12)"
proof -
  have "c = CHR ''<'' \<or> c = CHR ''>'' \<or> c = CHR 0x22" using assms by (simp add: markup_def)
  then show ?thesis
    using count_escape [OF assms] template_counts [OF assms]
    by (elim disjE; cases "qc_kind cd") (simp_all add: qr_tile_def relay_line_def quoted_def dquote_def newline_def)
qed

section \<open>Properties\<close>

text \<open>
  Nothing that is put into the card adds markup to it: whatever the name of the interface, the
  addresses, the code, the key and the relay's URL contain, the card has the tags and attributes of the
  template and those of the drawing, and a line more exactly when there is a relay.
\<close>

theorem card_markup:
  "case page_tile svg addrs port code key relay of None \<Rightarrow>
       addrs = [] \<and> relay = None \<or> (\<exists>text. svg text = None)
   | Some tile \<Rightarrow> \<exists>text drawing. svg text = Some drawing
       \<and> starts_with text (''rc://'')
       \<and> count_list tile (CHR ''<'') = count_list drawing (CHR ''<'') + (if relay = None then 10 else 12)
       \<and> count_list tile (CHR ''>'') = count_list drawing (CHR ''>'') + (if relay = None then 10 else 12)
       \<and> count_list tile (CHR 0x22) = count_list drawing (CHR 0x22) + (if relay = None then 10 else 12)"
proof (cases "build_qr_card addrs port code key relay")
  case None
  then show ?thesis by (auto simp: page_tile_def build_qr_card_def split: prod.splits if_splits)
next
  case (Some cd)
  have rc: "starts_with (qc_payload cd) ''rc://''" using card_payload [OF Some] payload_prefix by metis
  note count = tile_counts [of _ _ relay cd]
  show ?thesis
    using Some rc count [of "CHR ''<''"] count [of "CHR ''>''"] count [of "CHR 0x22"]
    by (cases "svg (qc_payload cd)") (auto simp: page_tile_def markup_def)
qed

end
