(* ===== verification/Setup.thy ===== *)
theory Setup
  imports Media_Loops
begin

text \<open>
  How the media devices are opened: the constructors of the two Media Foundation encoders
  (\<^verbatim>\<open>encoder/mf_h264.rs\<close>, \<^verbatim>\<open>encoder/nvenc_mft.rs\<close>), of the screen capture
  (\<^verbatim>\<open>capture/dxgi.rs\<close>) and of the loopback device
  (\<^verbatim>\<open>audio/capture.rs\<close>). Each is a ladder of system calls, some of whose failures end the
  constructor (\<^verbatim>\<open>?\<close>) and some of which are ignored (\<^verbatim>\<open>let _\<close>); what the system
  answers to each call is an argument.
\<close>

section \<open>Ladders of calls\<close>

text \<open>
  The calls with whether a failure ends the ladder. The result is the calls made, and the call that
  failed, if one did.
\<close>

fun run_calls :: "('c \<Rightarrow> bool) \<Rightarrow> ('c \<times> bool) list \<Rightarrow> 'c list \<times> 'c option" where
  "run_calls ok [] = ([], None)"
| "run_calls ok ((c, required) # cs) =
     (if required \<and> \<not> ok c then ([c], Some c)
      else (let (made, failed) = run_calls ok cs in (c # made, failed)))"

definition all_required :: "('c \<Rightarrow> bool) \<Rightarrow> ('c \<times> bool) list \<Rightarrow> bool" where
  "all_required ok cs = list_all (\<lambda>(c, required). required \<longrightarrow> ok c) cs"

lemma run_calls_cases:
  "all_required ok cs \<and> run_calls ok cs = (map fst cs, None)
   \<or> (\<exists>pre c post. cs = pre @ (c, True) # post \<and> all_required ok pre \<and> \<not> ok c
       \<and> run_calls ok cs = (map fst pre @ [c], Some c))"
proof (induction cs)
  case Nil
  then show ?case by (simp add: all_required_def)
next
  case (Cons x cs)
  obtain c q where x: "x = (c, q)" by (cases x)
  show ?case
  proof (cases "q \<and> \<not> ok c")
    case True
    then show ?thesis using x by (intro disjI2 exI [of _ "[]"]) (simp add: all_required_def)
  next
    case False
    from Cons.IH show ?thesis
    proof
      assume "all_required ok cs \<and> run_calls ok cs = (map fst cs, None)"
      with x False show ?thesis by (auto simp: all_required_def)
    next
      assume "\<exists>pre c post. cs = pre @ (c, True) # post \<and> all_required ok pre \<and> \<not> ok c
        \<and> run_calls ok cs = (map fst pre @ [c], Some c)"
      then obtain pre d post where "cs = pre @ (d, True) # post" "all_required ok pre" "\<not> ok d"
        "run_calls ok cs = (map fst pre @ [d], Some d)" by blast
      with x False show ?thesis
        by (intro disjI2 exI [of _ "x # pre"] exI [of _ d] exI [of _ post]) (auto simp: all_required_def)
    qed
  qed
qed

lemma run_calls_ok: "run_calls ok cs = (made, None) \<longleftrightarrow> all_required ok cs \<and> made = map fst cs"
  using run_calls_cases [of ok cs] by (auto simp: all_required_def)

text \<open>A constructor: the object if every rung held, the failing call otherwise, and the calls made.\<close>

definition construct :: "('c \<Rightarrow> bool) \<Rightarrow> ('c \<times> bool) list \<Rightarrow> 'a \<Rightarrow> ('c + 'a) \<times> 'c list" where
  "construct ok cs obj = (case run_calls ok cs of (made, None) \<Rightarrow> (Inr obj, made) | (made, Some c) \<Rightarrow> (Inl c, made))"

lemma construct_Inr: "construct ok cs obj = (Inr x, made) \<longleftrightarrow> all_required ok cs \<and> x = obj \<and> made = map fst cs"
  using run_calls_cases [of ok cs] by (auto simp: construct_def all_required_def)

lemma construct_Inl:
  "construct ok cs obj = (Inl c, made) \<Longrightarrow> \<exists>pre post. cs = pre @ (c, True) # post \<and> all_required ok pre \<and> \<not> ok c \<and> made = map fst pre @ [c]"
proof -
  assume c: "construct ok cs obj = (Inl c, made)"
  with run_calls_cases [of ok cs] obtain pre d post where "cs = pre @ (d, True) # post" "all_required ok pre" "\<not> ok d"
    "run_calls ok cs = (map fst pre @ [d], Some d)" by (auto simp: construct_def)
  with c show ?thesis by (auto simp: construct_def)
qed

section \<open>The Media Foundation encoders\<close>

datatype rate_control = PeakConstrainedVBR | CBR

datatype codec_setting = LowLatency bool | QualityVsSpeed u32 | RateControl rate_control
  | MaxBitRate u32 | MeanBitRate u32 | GopSize u32 | BPictureCount u32

datatype mf_call = CoInitialize | MfStartup | CreateTransform | EnumTransforms | AnyTransform | FirstActivate
  | FreeActivates | ActivateTransform | GetAttributes | AsyncUnlock | CastCodecApi | SetCodec codec_setting
  | MakeType media_type | SetOutputType media_type | SetInputType media_type | CastEventGenerator
  | BeginStreaming | StartOfStream | GetOutputInfo

definition mf_settings :: "EncoderConfig \<Rightarrow> codec_setting list" where
  "mf_settings c = [LowLatency False, QualityVsSpeed 80, RateControl PeakConstrainedVBR,
     MaxBitRate (saturating_mul (ec_bitrate_kbps c) 1500), GopSize (ec_keyframe_interval_frames c)]"

definition mft_settings :: "EncoderConfig \<Rightarrow> codec_setting list" where
  "mft_settings c = [LowLatency False, QualityVsSpeed 70, RateControl CBR,
     MeanBitRate (saturating_mul (ec_bitrate_kbps c) 1000), GopSize (ec_keyframe_interval_frames c), BPictureCount 2]"

text \<open>The settings are tried only where the transform has the codec interface.\<close>

definition tune :: "(mf_call \<Rightarrow> bool) \<Rightarrow> codec_setting list \<Rightarrow> (mf_call \<times> bool) list" where
  "tune ok settings = (CastCodecApi, False) # (if ok CastCodecApi then map (\<lambda>s. (SetCodec s, False)) settings else [])"

definition mf_ladder :: "(mf_call \<Rightarrow> bool) \<Rightarrow> EncoderConfig \<Rightarrow> (mf_call \<times> bool) list" where
  "mf_ladder ok c = [(CoInitialize, False), (MfStartup, True), (CreateTransform, True)] @ tune ok (mf_settings c) @
     [(MakeType (mf_output_type c), True), (SetOutputType (mf_output_type c), True),
      (MakeType (mf_input_type c), True), (SetInputType (mf_input_type c), True),
      (BeginStreaming, True), (StartOfStream, True), (GetOutputInfo, True)]"

definition mf_new :: "(mf_call \<Rightarrow> bool) \<Rightarrow> EncoderConfig \<Rightarrow> (mf_call + mf_encoder) \<times> mf_call list" where
  "mf_new ok c = construct ok (mf_ladder ok c) (new_mf_encoder c)"

text \<open>\<^verbatim>\<open>enumerate_hardware_encoder\<close>: the list is freed only once its first entry was there.\<close>

definition enum_ladder :: "(mf_call \<times> bool) list" where
  "enum_ladder = [(EnumTransforms, True), (AnyTransform, True), (FirstActivate, True), (FreeActivates, False),
     (ActivateTransform, True)]"

definition nv_ladder :: "(mf_call \<Rightarrow> bool) \<Rightarrow> EncoderConfig \<Rightarrow> NvencCodec \<Rightarrow> (mf_call \<times> bool) list" where
  "nv_ladder ok c cd = [(CoInitialize, False), (MfStartup, True)] @ enum_ladder @
     [(GetAttributes, True), (AsyncUnlock, True)] @ tune ok (mft_settings c) @
     [(MakeType (nv_output_type c cd), True), (SetOutputType (nv_output_type c cd), True),
      (MakeType (mf_input_type c), True), (SetInputType (mf_input_type c), True), (CastEventGenerator, True),
      (BeginStreaming, True), (StartOfStream, True), (GetOutputInfo, True)]"

definition nvenc_mft_new :: "(mf_call \<Rightarrow> bool) \<Rightarrow> EncoderConfig \<Rightarrow> NvencCodec \<Rightarrow> (mf_call + mft_encoder) \<times> mf_call list" where
  "nvenc_mft_new ok c cd = construct ok (nv_ladder ok c cd) (new_with_codec c cd)"

section \<open>Screen and sound\<close>

datatype dxgi_call = CreateFactory | EnumAdapter | CreateDevice | DeviceGiven | ContextGiven | EnumOutput
  | CastOutput | DuplicateOutput | GetDuplicationDesc

definition dxgi_ladder :: "(dxgi_call \<times> bool) list" where
  "dxgi_ladder = [(CreateFactory, True), (EnumAdapter, True), (CreateDevice, True), (DeviceGiven, True),
     (ContextGiven, True), (EnumOutput, True), (CastOutput, True), (DuplicateOutput, True), (GetDuplicationDesc, False)]"

definition dxgi_new :: "(dxgi_call \<Rightarrow> bool) \<Rightarrow> u32 \<times> u32 \<Rightarrow> (dxgi_call + DxgiCapture) \<times> dxgi_call list" where
  "dxgi_new ok mode = construct ok dxgi_ladder (new_capture (fst mode) (snd mode))"

datatype wasapi_call = WCoInitialize | CreateEnumerator | GetEndpoint | ActivateClient | GetMixFormat
  | FormatGiven | InitializeLoopback int | FreeFormat | GetCaptureClient | StartClient | StopClient

definition wasapi_ladder :: "(wasapi_call \<times> bool) list" where
  "wasapi_ladder = [(WCoInitialize, False), (CreateEnumerator, True), (GetEndpoint, True), (ActivateClient, True),
     (GetMixFormat, True), (FormatGiven, True), (InitializeLoopback 1000000, True), (FreeFormat, False),
     (GetCaptureClient, True), (StartClient, True)]"

record WasapiLoopback =
  wl_sample_rate :: u32
  wl_channels :: u32

definition wasapi_new :: "(wasapi_call \<Rightarrow> bool) \<Rightarrow> u32 \<Rightarrow> u16 \<Rightarrow> (wasapi_call + WasapiLoopback) \<times> wasapi_call list" where
  "wasapi_new ok samples_per_sec channels = construct ok wasapi_ladder
     \<lparr> wl_sample_rate = samples_per_sec, wl_channels = ucast channels \<rparr>"

definition wasapi_drop :: "wasapi_call list" where
  "wasapi_drop = [StopClient]"

section \<open>The encoder a stream gets\<close>

text \<open>What the machine answers to each constructor.\<close>

record machine =
  mc_sdk :: nv_new_io
  mc_dims :: "u32 \<times> u32"
  mc_mft :: "NvencCodec \<Rightarrow> mf_call \<Rightarrow> bool"
  mc_mf :: "mf_call \<Rightarrow> bool"
  mc_error :: "mf_call \<Rightarrow> string"

definition backends_of :: "machine \<Rightarrow> backends" where
  "backends_of m = \<lparr> be_sdk = (\<lambda>c. case fst (nv_new (mc_sdk m) c (mc_dims m)) of Inr e \<Rightarrow> True | Inl err \<Rightarrow> False),
     be_mft_h264 = (\<lambda>c. case fst (nvenc_mft_new (mc_mft m NcH264) c NcH264) of Inr e \<Rightarrow> True | Inl err \<Rightarrow> False),
     be_mft_hevc = (\<lambda>c. case fst (nvenc_mft_new (mc_mft m NcHevc) c NcHevc) of Inr e \<Rightarrow> True | Inl err \<Rightarrow> False),
     be_software = (\<lambda>c. case fst (mf_new (mc_mf m) c) of Inr e \<Rightarrow> None | Inl err \<Rightarrow> Some (mc_error m err)) \<rparr>"

section \<open>Facts\<close>

lemma fst_construct: "fst (construct ok cs obj) = (if all_required ok cs then Inr obj else Inl (the (snd (run_calls ok cs))))"
  using run_calls_cases [of ok cs] by (auto simp: construct_def all_required_def)

text \<open>The calls that decide; tuning does not.\<close>

definition mf_mandatory :: "EncoderConfig \<Rightarrow> mf_call list" where
  "mf_mandatory c = [MfStartup, CreateTransform, MakeType (mf_output_type c), SetOutputType (mf_output_type c),
     MakeType (mf_input_type c), SetInputType (mf_input_type c), BeginStreaming, StartOfStream, GetOutputInfo]"

definition nv_mandatory :: "EncoderConfig \<Rightarrow> NvencCodec \<Rightarrow> mf_call list" where
  "nv_mandatory c cd = [MfStartup, EnumTransforms, AnyTransform, FirstActivate, ActivateTransform, GetAttributes,
     AsyncUnlock, MakeType (nv_output_type c cd), SetOutputType (nv_output_type c cd), MakeType (mf_input_type c),
     SetInputType (mf_input_type c), CastEventGenerator, BeginStreaming, StartOfStream, GetOutputInfo]"

lemma required_ladders:
  "all_required ok (mf_ladder ok c) \<longleftrightarrow> list_all ok (mf_mandatory c)"
  "all_required ok (nv_ladder ok c cd) \<longleftrightarrow> list_all ok (nv_mandatory c cd)"
  by (auto simp: all_required_def mf_ladder_def nv_ladder_def enum_ladder_def tune_def mf_mandatory_def nv_mandatory_def
      list_all_iff)

text \<open>What a constructor that fails leaves behind.\<close>

lemma null_activate_leaks:
  "ok MfStartup \<Longrightarrow> ok EnumTransforms \<Longrightarrow> ok AnyTransform \<Longrightarrow> \<not> ok FirstActivate \<Longrightarrow>
    \<exists>made. nvenc_mft_new ok c cd = (Inl FirstActivate, made) \<and> EnumTransforms \<in> set made \<and> FreeActivates \<notin> set made"
  by (simp add: nvenc_mft_new_def construct_def nv_ladder_def enum_ladder_def)

lemma format_leaks:
  assumes "ok CreateEnumerator" "ok GetEndpoint" "ok ActivateClient" "ok GetMixFormat" "ok FormatGiven"
    "\<not> ok (InitializeLoopback 1000000)"
  shows "\<exists>made. wasapi_new ok r ch = (Inl (InitializeLoopback 1000000), made)
    \<and> GetMixFormat \<in> set made \<and> FreeFormat \<notin> set made"
  using assms by (simp add: wasapi_new_def construct_def wasapi_ladder_def)

text \<open>A device that opened was started once, and is stopped when it is dropped.\<close>

lemma wasapi_started: "wasapi_new ok r ch = (Inr w, made) \<Longrightarrow>
    count_list (made @ wasapi_drop) StartClient = 1 \<and> count_list (made @ wasapi_drop) StopClient = 1
    \<and> count_list made GetMixFormat = count_list made FreeFormat \<and> wl_channels w = ucast ch"
  by (auto simp: wasapi_new_def construct_Inr wasapi_ladder_def wasapi_drop_def)

text \<open>A capture that opened has the dimensions of the output's mode.\<close>

lemma dxgi_opened: "dxgi_new ok (w, h) = (Inr s, made) \<longleftrightarrow>
    (\<forall>c. c \<noteq> GetDuplicationDesc \<longrightarrow> ok c) \<and> s = new_capture w h \<and> made = map fst dxgi_ladder"
proof -
  have "ok c" if "all_required ok dxgi_ladder" "c \<noteq> GetDuplicationDesc" for c
    using that by (cases c) (simp_all add: all_required_def dxgi_ladder_def)
  moreover have "all_required ok dxgi_ladder" if a: "\<And>c. c \<noteq> GetDuplicationDesc \<Longrightarrow> ok c"
    by (simp add: all_required_def dxgi_ladder_def a)
  ultimately have "all_required ok dxgi_ladder \<longleftrightarrow> (\<forall>c. c \<noteq> GetDuplicationDesc \<longrightarrow> ok c)" by blast
  then show ?thesis by (simp add: dxgi_new_def construct_Inr)
qed

section \<open>Properties\<close>

text \<open>
  Which encoder a stream gets: with the constructors as they call the system, a stream gets an encoder
  exactly when the direct encoder opens, or the hardware transform for H.264, or (for a request of HEVC)
  the one for HEVC, or the software encoder got through every mandatory call of its ladder; the settings
  that are only tuning never decide. If there is none, the error is that of the first mandatory call of
  the software encoder that failed, and no call was made after it.
\<close>

theorem encoder_available:
  "((\<exists>e. choose_encoder (backends_of m) cd c = Inr e) \<longleftrightarrow>
      (\<exists>s. fst (nv_new (mc_sdk m) c (mc_dims m)) = Inr s)
      \<or> list_all (mc_mft m NcH264) (nv_mandatory c NcH264)
      \<or> cd = Hevc \<and> list_all (mc_mft m NcHevc) (nv_mandatory c NcHevc)
      \<or> list_all (mc_mf m) (mf_mandatory c))
   \<and> (\<forall>err. choose_encoder (backends_of m) cd c = Inl err \<longrightarrow> (\<exists>call pre post.
        err = mc_error m call \<and> mf_ladder (mc_mf m) c = pre @ (call, True) # post \<and> all_required (mc_mf m) pre
        \<and> \<not> mc_mf m call \<and> snd (mf_new (mc_mf m) c) = map fst pre @ [call]))"
proof -
  have sdk: "be_sdk (backends_of m) c \<longleftrightarrow> (\<exists>s. fst (nv_new (mc_sdk m) c (mc_dims m)) = Inr s)"
    by (auto simp: backends_of_def split: sum.split)
  have mft: "be_mft_h264 (backends_of m) c \<longleftrightarrow> list_all (mc_mft m NcH264) (nv_mandatory c NcH264)"
    "be_mft_hevc (backends_of m) c \<longleftrightarrow> list_all (mc_mft m NcHevc) (nv_mandatory c NcHevc)"
    by (simp_all add: backends_of_def nvenc_mft_new_def fst_construct required_ladders)
  have soft: "be_software (backends_of m) c = None \<longleftrightarrow> list_all (mc_mf m) (mf_mandatory c)"
    by (simp add: backends_of_def mf_new_def fst_construct required_ladders)
  have err: "\<exists>call pre post. err = mc_error m call \<and> mf_ladder (mc_mf m) c = pre @ (call, True) # post
      \<and> all_required (mc_mf m) pre \<and> \<not> mc_mf m call \<and> snd (mf_new (mc_mf m) c) = map fst pre @ [call]"
    if "be_software (backends_of m) c = Some err" for err
  proof -
    from that obtain call made where "mf_new (mc_mf m) c = (Inl call, made)" "err = mc_error m call"
      by (cases "mf_new (mc_mf m) c") (auto simp: backends_of_def split: sum.splits)
    with construct_Inl [of "mc_mf m" "mf_ladder (mc_mf m) c" "new_mf_encoder c" call made]
    show ?thesis by (auto simp: mf_new_def)
  qed
  show ?thesis
    using sdk mft soft err by (cases cd; cases "be_software (backends_of m) c")
      (auto simp: choose_encoder_def software_or_fail_def split: if_splits)
qed

text \<open>A machine without NVIDIA hardware, and one without any encoder.\<close>

definition demo_machine :: "bool \<Rightarrow> machine" where
  "demo_machine soft = \<lparr> mc_sdk = \<lparr> nn_load = False, nn_open = True, nn_preset = True, nn_event = True, nn_init = True,
       nn_register_event = True, nn_texture = Created, nn_register = True, nn_bitstream = True \<rparr>,
     mc_dims = (2, 2), mc_mft = (\<lambda>cd x. x \<noteq> AnyTransform), mc_mf = (\<lambda>x. soft \<or> x \<noteq> CreateTransform),
     mc_error = (\<lambda>x. ''failed'') \<rparr>"

lemma encoder_available_witness:
  "(\<exists>e. choose_encoder (backends_of (demo_machine True)) Hevc demo_config = Inr e)
   \<and> snd (mf_new (mc_mf (demo_machine False)) demo_config) = [CoInitialize, MfStartup, CreateTransform]"
proof
  show "\<exists>e. choose_encoder (backends_of (demo_machine True)) Hevc demo_config = Inr e"
    using encoder_available [of "demo_machine True" Hevc demo_config] by (simp add: demo_machine_def list_all_iff)
  show "snd (mf_new (mc_mf (demo_machine False)) demo_config) = [CoInitialize, MfStartup, CreateTransform]"
    by (simp add: mf_new_def construct_def mf_ladder_def demo_machine_def)
qed

end
