(* ===== verification/Nvenc_Api.thy ===== *)
theory Nvenc_Api
  imports Nvenc_Sdk
begin

text \<open>
  The binding to the NVIDIA driver: the version tags and identifiers of
  \<^verbatim>\<open>server-pc/src/encoder/nvenc_sys.rs\<close>, and \<^verbatim>\<open>NvencApi\<close> of
  \<^verbatim>\<open>encoder/nvenc_sdk.rs\<close>, which loads the driver's library, fetches its function table and
  turns status codes into error texts; then the whole life of the library around an encoder. The
  interface version \<^verbatim>\<open>NVENCAPI_VERSION\<close> comes from a generated file and is an argument.
\<close>

section \<open>Version tags\<close>

text \<open>\<^verbatim>\<open>struct_version\<close>; \<open>api\<close> is \<^verbatim>\<open>NVENCAPI_VERSION\<close>.\<close>

definition struct_version :: "u32 \<Rightarrow> u32 \<Rightarrow> u32" where
  "struct_version api ver = (api OR push_bit 16 ver OR push_bit 28 0x7)"

datatype nv_struct = FunctionList | OpenSessionParams | PresetConfig | EncodeConfig | RcParams | InitializeParams
  | ReconfigureParams | RegisterResourceParams | MapInputParams | PicParams | LockBitstreamParams
  | CreateBitstreamParams | EventParams

definition extended :: u32 where
  "extended = push_bit 31 1"

text \<open>The constants \<^verbatim>\<open>NV_ENC_..._VER\<close>.\<close>

fun struct_tag :: "u32 \<Rightarrow> nv_struct \<Rightarrow> u32" where
  "struct_tag api FunctionList = struct_version api 2"
| "struct_tag api OpenSessionParams = struct_version api 1"
| "struct_tag api PresetConfig = (struct_version api 5 OR extended)"
| "struct_tag api EncodeConfig = (struct_version api 9 OR extended)"
| "struct_tag api RcParams = struct_version api 1"
| "struct_tag api InitializeParams = (struct_version api 7 OR extended)"
| "struct_tag api ReconfigureParams = (struct_version api 2 OR extended)"
| "struct_tag api RegisterResourceParams = struct_version api 5"
| "struct_tag api MapInputParams = struct_version api 4"
| "struct_tag api PicParams = (struct_version api 7 OR extended)"
| "struct_tag api LockBitstreamParams = (struct_version api 2 OR extended)"
| "struct_tag api CreateBitstreamParams = struct_version api 1"
| "struct_tag api EventParams = struct_version api 1"

section \<open>Identifiers\<close>

record GUID =
  Data1 :: u32
  Data2 :: u16
  Data3 :: u16
  Data4 :: bytes

definition guid :: "u32 \<Rightarrow> u16 \<Rightarrow> u16 \<Rightarrow> bytes \<Rightarrow> GUID" where
  "guid d1 d2 d3 d4 = \<lparr> Data1 = d1, Data2 = d2, Data3 = d3, Data4 = d4 \<rparr>"

datatype nv_guid = CodecH264 | CodecHevc | ProfileBaseline | ProfileMain | ProfileHigh | ProfileAuto
  | PresetP1 | PresetP2 | PresetP3 | PresetP4 | PresetP5 | PresetP6 | PresetP7

fun guid_of :: "nv_guid \<Rightarrow> GUID" where
  "guid_of CodecH264 = guid 0x6bc82762 0x4e63 0x4ca4 [0xaa, 0x85, 0x1e, 0x50, 0xf3, 0x21, 0xf6, 0xbf]"
| "guid_of CodecHevc = guid 0x790cdc88 0x4522 0x4d7b [0x94, 0x25, 0xbd, 0xa9, 0x97, 0x5f, 0x76, 0x03]"
| "guid_of ProfileBaseline = guid 0x0727bcaa 0x78c4 0x4c83 [0x8c, 0x2f, 0xef, 0x3d, 0xff, 0x26, 0x7c, 0x6a]"
| "guid_of ProfileMain = guid 0x60b5c1d4 0x67fe 0x4790 [0x94, 0xd5, 0xc4, 0x72, 0x6d, 0x7b, 0x6e, 0x6d]"
| "guid_of ProfileHigh = guid 0xe7cbc309 0x4f7a 0x4b89 [0xaf, 0x2a, 0xd5, 0x37, 0xc9, 0x2b, 0xe3, 0x10]"
| "guid_of ProfileAuto = guid 0xbfd6f8e7 0x233c 0x4341 [0x8b, 0x3e, 0x48, 0x18, 0x52, 0x38, 0x03, 0xf4]"
| "guid_of PresetP1 = guid 0xfc0a8d3e 0x45f8 0x4cf8 [0x80, 0xc7, 0x29, 0x88, 0x71, 0x59, 0x0e, 0xbf]"
| "guid_of PresetP2 = guid 0xf581cfb8 0x88d6 0x4381 [0x93, 0xf0, 0xdf, 0x13, 0xf9, 0xc2, 0x7d, 0xab]"
| "guid_of PresetP3 = guid 0x36850110 0x3a07 0x441f [0x94, 0xd5, 0x36, 0x70, 0x63, 0x1f, 0x91, 0xf6]"
| "guid_of PresetP4 = guid 0x90a7b826 0xdf06 0x4862 [0xb9, 0xd2, 0xcd, 0x6d, 0x73, 0xa0, 0x86, 0x81]"
| "guid_of PresetP5 = guid 0x21c6e6b4 0x297a 0x4cba [0x99, 0x8f, 0xb6, 0xcb, 0xde, 0x72, 0xad, 0xe3]"
| "guid_of PresetP6 = guid 0x8e75c279 0x6299 0x4ab6 [0x83, 0x02, 0x0b, 0x21, 0x5a, 0x33, 0x5c, 0xf5]"
| "guid_of PresetP7 = guid 0x84848c12 0x6f71 0x4c13 [0x93, 0x1b, 0x53, 0xe2, 0x83, 0xf5, 0x79, 0x74]"

section \<open>Loading the library\<close>

text \<open>
  The function table the driver fills in, as far as the program looks at it: whether it has the
  function for error texts, and what that returns (nothing is a null pointer). A status is an integer,
  zero on success.
\<close>

record nv_api =
  na_last_error :: "bytes option option"

text \<open>What the machine answers: the status of the creation may depend on the version passed.\<close>

record nv_loader =
  nl_library :: bool
  nl_symbol :: bool
  nl_create :: "u32 \<Rightarrow> int"
  nl_table :: nv_api

datatype load_error = NoLibrary | NoEntryPoint | CreateInstanceFailed int

datatype dll_call = LoadDll bool | GetEntryPoint bool | CreateInstance u32 int | FreeDll | LastErrorString | Nv nv_call

text \<open>\<^verbatim>\<open>NvencApi::load\<close>; the library is a local until it is stored, so a failure unloads it.\<close>

definition nv_load :: "u32 \<Rightarrow> nv_loader \<Rightarrow> (load_error + nv_api) \<times> dll_call list" where
  "nv_load api m =
     (if \<not> nl_library m then (Inl NoLibrary, [LoadDll False])
      else if \<not> nl_symbol m then (Inl NoEntryPoint, [LoadDll True, GetEntryPoint False, FreeDll])
      else let v = struct_tag api FunctionList; status = nl_create m v in
        if status \<noteq> 0 then (Inl (CreateInstanceFailed status),
          [LoadDll True, GetEntryPoint True, CreateInstance v status, FreeDll])
        else (Inr (nl_table m), [LoadDll True, GetEntryPoint True, CreateInstance v status]))"

section \<open>Status codes\<close>

definition show_int :: "int \<Rightarrow> string" where
  "show_int i = (if i < 0 then CHR ''-'' # show_nat (nat (- i)) else show_nat (nat i))"

text \<open>
  \<^verbatim>\<open>last_error\<close>: the driver's text is asked for only with a session; the bytes of the C string
  end before its zero. With the text, whether the driver was asked.
\<close>

definition c_string :: "bytes \<Rightarrow> bytes" where
  "c_string bs = takeWhile (\<lambda>b. b \<noteq> 0) bs"

definition error_detail :: "(bytes \<Rightarrow> string) \<Rightarrow> nv_api \<Rightarrow> bool \<Rightarrow> string" where
  "error_detail lossy api encoder =
     (if \<not> encoder then []
      else (case na_last_error api of None \<Rightarrow> []
        | Some None \<Rightarrow> []
        | Some (Some cstr) \<Rightarrow> (let s = lossy (c_string cstr) in if s = [] then [] else '': '' @ s)))"

definition last_error :: "(bytes \<Rightarrow> string) \<Rightarrow> nv_api \<Rightarrow> bool \<Rightarrow> string \<Rightarrow> int \<Rightarrow> string" where
  "last_error lossy api encoder op status =
     ''NVENC '' @ op @ '' returned '' @ show_int status @ error_detail lossy api encoder"

definition nv_check :: "(bytes \<Rightarrow> string) \<Rightarrow> nv_api \<Rightarrow> int \<Rightarrow> bool \<Rightarrow> string \<Rightarrow> string + unit" where
  "nv_check lossy api status encoder op = (if status = 0 then Inr () else Inl (last_error lossy api encoder op status))"

section \<open>The encoder with its library\<close>

text \<open>
  A step of the constructor that fails and goes through \<^verbatim>\<open>check\<close> asks the driver for the text;
  when opening the session fails there is none yet.
\<close>

fun asks_text :: "nv_error \<Rightarrow> bool" where
  "asks_text NvPreset = True"
| "asks_text NvInit = True"
| "asks_text NvRegisterEvent = True"
| "asks_text NvRegisterResource = True"
| "asks_text NvBitstream = True"
| "asks_text e = False"

text \<open>\<^verbatim>\<open>NvencSdkEncoder::new\<close>: a failure drops the local \<open>api\<close>, and with it the library.\<close>

definition sdk_new :: "u32 \<Rightarrow> nv_loader \<Rightarrow> nv_new_io \<Rightarrow> EncoderConfig \<Rightarrow> u32 \<times> u32 \<Rightarrow>
    ((load_error + nv_error) + nv_encoder) \<times> dll_call list" where
  "sdk_new api m io config dims =
     (case nv_load api m of
        (Inl e, ls) \<Rightarrow> (Inl (Inl e), ls)
      | (Inr table, ls) \<Rightarrow>
          (case nv_new (io\<lparr>nn_load := True\<rparr>) config dims of
             (Inl e, cs) \<Rightarrow> (Inl (Inr e), ls @ map Nv cs
               @ (if asks_text e \<and> na_last_error table \<noteq> None then [LastErrorString] else []) @ [FreeDll])
           | (Inr s, cs) \<Rightarrow> (Inr s, ls @ map Nv cs)))"

text \<open>The drop of the encoder runs before the drop of its field \<open>api\<close>.\<close>

definition sdk_drop :: "nv_encoder \<Rightarrow> dll_call list" where
  "sdk_drop s = map Nv (nv_drop s) @ [FreeDll]"

text \<open>The library is used by every call of its table; events and textures are the system's.\<close>

fun dll_usage :: "dll_call \<Rightarrow> usage" where
  "dll_usage (LoadDll ok) = (if ok then Acquire else Neutral)"
| "dll_usage FreeDll = Release"
| "dll_usage (GetEntryPoint ok) = Use"
| "dll_usage (CreateInstance v status) = Use"
| "dll_usage LastErrorString = Use"
| "dll_usage (Nv c) = (case session_usage c of Neutral \<Rightarrow> Neutral | _ \<Rightarrow> Use)"

fun session_of :: "dll_call \<Rightarrow> usage" where
  "session_of (Nv c) = session_usage c"
| "session_of LastErrorString = Use"
| "session_of c = Neutral"

text \<open>A usage of the driver calls, in the trace with the library.\<close>

fun nv_usage :: "(nv_call \<Rightarrow> usage) \<Rightarrow> dll_call \<Rightarrow> usage" where
  "nv_usage u (Nv c) = u c"
| "nv_usage u c = Neutral"

section \<open>Facts\<close>

lemma bracket_Nv: "bracket (nv_usage u) h (map Nv cs) = bracket u h cs" "bracket session_of h (map Nv cs) = bracket session_usage h cs"
  by (induction cs arbitrary: h) (simp_all split: usage.split)

lemma bracket_dll: "bracket dll_usage True (map Nv cs) = Some True"
  by (induction cs) (simp_all split: usage.split)

text \<open>A failed constructor that had opened a session keeps it; the library is gone all the same.\<close>

lemma nv_new_session: "nv_new (io\<lparr>nn_load := True\<rparr>) config dims = (Inl e, cs) \<Longrightarrow>
    bracket session_usage False cs = Some (e \<noteq> NvOpen) \<and> e \<noteq> NvLoad
    \<and> (asks_text e \<longrightarrow> bracket session_usage False cs = Some True)"
  by (auto simp: nv_new_def Let_def split: if_splits create_answer.splits)

lemma nv_load_calls:
  "nv_load api m = (Inl e, ls) \<Longrightarrow> bracket dll_usage False ls = Some False \<and> bracket session_of False ls = Some False"
  "nv_load api m = (Inr table, ls) \<Longrightarrow> bracket dll_usage False ls = Some True \<and> bracket session_of False ls = Some False
     \<and> bracket (nv_usage u) False ls = Some False"
  by (auto simp: nv_load_def Let_def split: if_splits)

lemma bracket_append_eq: "bracket u h xs = Some k \<Longrightarrow> bracket u h (xs @ ys) = bracket u k ys"
  by simp

section \<open>The identifiers as text\<close>

text \<open>The notation of the comments: eight, four, four, four and twelve hexadecimal digits.\<close>

definition hex_digit :: "nat \<Rightarrow> char" where
  "hex_digit d = char_of (if d < 10 then 48 + d else 87 + d)"

definition hex_text :: "nat \<Rightarrow> nat \<Rightarrow> string" where
  "hex_text k n = map (\<lambda>i. hex_digit (n div 16 ^ i mod 16)) (rev [0..<k])"

definition hex_bytes :: "bytes \<Rightarrow> string" where
  "hex_bytes bs = concat (map (\<lambda>b. hex_text 2 (unat b)) bs)"

definition guid_text :: "GUID \<Rightarrow> string" where
  "guid_text g = hex_text 8 (unat (Data1 g)) @ ''-'' @ hex_text 4 (unat (Data2 g)) @ ''-'' @ hex_text 4 (unat (Data3 g))
     @ ''-'' @ hex_bytes (take 2 (Data4 g)) @ ''-'' @ hex_bytes (drop 2 (Data4 g))"

lemma hex_places: "rev [0..<8] = [7, 6, 5, 4, 3, 2, 1, 0 :: nat]" "rev [0..<4] = [3, 2, 1, 0 :: nat]" "rev [0..<2] = [1, 0 :: nat]"
  by code_simp+

lemma guid_comments:
  "guid_text (guid_of CodecH264) = ''6bc82762-4e63-4ca4-aa85-1e50f321f6bf''"
  "guid_text (guid_of CodecHevc) = ''790cdc88-4522-4d7b-9425-bda9975f7603''"
  "guid_text (guid_of ProfileBaseline) = ''0727bcaa-78c4-4c83-8c2f-ef3dff267c6a''"
  "guid_text (guid_of ProfileMain) = ''60b5c1d4-67fe-4790-94d5-c4726d7b6e6d''"
  "guid_text (guid_of ProfileHigh) = ''e7cbc309-4f7a-4b89-af2a-d537c92be310''"
  "guid_text (guid_of ProfileAuto) = ''bfd6f8e7-233c-4341-8b3e-4818523803f4''"
  "guid_text (guid_of PresetP1) = ''fc0a8d3e-45f8-4cf8-80c7-298871590ebf''"
  "guid_text (guid_of PresetP2) = ''f581cfb8-88d6-4381-93f0-df13f9c27dab''"
  "guid_text (guid_of PresetP3) = ''36850110-3a07-441f-94d5-3670631f91f6''"
  "guid_text (guid_of PresetP4) = ''90a7b826-df06-4862-b9d2-cd6d73a08681''"
  "guid_text (guid_of PresetP5) = ''21c6e6b4-297a-4cba-998f-b6cbde72ade3''"
  "guid_text (guid_of PresetP6) = ''8e75c279-6299-4ab6-8302-0b215a335cf5''"
  "guid_text (guid_of PresetP7) = ''84848c12-6f71-4c13-931b-53e283f57974''"
  by (simp_all add: guid_text_def guid_def hex_text_def hex_bytes_def hex_digit_def hex_places char_of_def bit_Suc_0_iff)

text \<open>Data1 alone tells the identifiers apart.\<close>

lemma guids_distinct: "guid_of g = guid_of h \<longleftrightarrow> g = h"
proof
  assume "guid_of g = guid_of h"
  then have "Data1 (guid_of g) = Data1 (guid_of h)" by simp
  then show "g = h" by (cases g; cases h; simp add: guid_def)
qed simp

section \<open>The tags taken apart\<close>

text \<open>
  The fields of a tag: interface version, revision and the flag of an extended structure; none without
  the mark 7.
\<close>

definition tag_fields :: "u32 \<Rightarrow> (u32 \<times> u32 \<times> bool) option" where
  "tag_fields tag = (if tag AND 0x70000000 = 0x70000000
     then Some (tag AND 0x0F00FFFF, drop_bit 16 (tag AND 0x00FF0000), bit tag 31) else None)"

lemma u32_eqI:
  assumes "list_all (\<lambda>n. bit a n = bit b n) [0, 1, 2, 3, 4, 5, 6, 7, 8, 9, 10, 11, 12, 13, 14, 15, 16, 17, 18, 19, 20, 21, 22, 23, 24, 25, 26, 27, 28, 29, 30, 31]"
  shows "a = (b :: u32)"
proof (rule bit_word_eqI)
  fix n :: nat
  assume "n < LENGTH(32)"
  then have "n \<in> set [0..<32]" by simp
  moreover have "[0..<32] = [0, 1, 2, 3, 4, 5, 6, 7, 8, 9, 10, 11, 12, 13, 14, 15, 16, 17, 18, 19, 20, 21, 22, 23, 24, 25, 26, 27, 28, 29, 30, 31 :: nat]" by code_simp
  ultimately show "bit a n = bit b n" using assms by (simp only: list_all_iff)
qed

lemma bit_masked: "api AND m = 0 \<Longrightarrow> bit m n \<Longrightarrow> \<not> bit (api :: u32) n"
  by (metis bit_and_iff bit_0_eq bot_apply bot_bool_def)

lemma bit_small: "(ver :: u32) < 0x100 \<Longrightarrow> 8 \<le> n \<Longrightarrow> \<not> bit ver n"
proof -
  assume "ver < 0x100" "8 \<le> n"
  then have "take_bit 8 ver = ver" by (simp add: take_bit_word_eq_self word_less_nat_alt take_bit_eq_mod unat_mod word_unat_eq_iff)
  then show ?thesis using \<open>8 \<le> n\<close> by (metis bit_take_bit_iff not_le)
qed

lemma struct_version_fields:
  assumes api: "api AND 0xF0FF0000 = 0" and ver: "ver < 0x100"
  shows "tag_fields (struct_version api ver OR (if ext then extended else 0)) = Some (api, ver, ext)"
proof -
  let ?tag = "struct_version api ver OR (if ext then extended else 0)"
  note bits = bit_masked [OF api] bit_small [OF ver]
  have "?tag AND 0x70000000 = 0x70000000" "?tag AND 0x0F00FFFF = api" "drop_bit 16 (?tag AND 0x00FF0000) = ver"
    by (rule u32_eqI, simp add: struct_version_def extended_def bit_simps bits)+
  moreover have "bit ?tag 31 = ext"
    by (simp add: struct_version_def extended_def bit_simps bits)
  ultimately show ?thesis by (simp add: tag_fields_def)
qed

text \<open>The revision has twelve bits before it runs into the mark, not sixteen.\<close>

lemma revision_overlap: "struct_version api (ver OR 0x1000) = struct_version api ver"
proof -
  have "push_bit 16 (ver OR 0x1000) OR push_bit 28 0x7 = push_bit 16 ver OR push_bit 28 (0x7 :: u32)"
    by (rule u32_eqI, simp add: bit_simps)
  then show ?thesis by (simp only: struct_version_def or.assoc)
qed

section \<open>Error texts\<close>

text \<open>The driver's text is in the error exactly when there is a session and the driver has something to say.\<close>

lemma last_error_text:
  "nv_check lossy api status encoder op = Inl e \<longleftrightarrow> status \<noteq> 0 \<and>
     e = ''NVENC '' @ op @ '' returned '' @ show_int status @
       (if \<exists>b. encoder \<and> na_last_error api = Some (Some b) \<and> lossy (c_string b) \<noteq> []
        then '': '' @ lossy (c_string (the (the (na_last_error api)))) else [])"
  by (auto simp: nv_check_def last_error_def error_detail_def Let_def split: option.split)

section \<open>Properties\<close>

text \<open>
  C34. The life of an encoder with its library: from the loading of the driver's library over the
  construction and any sequence of calls to the drop, the library is loaded whenever a function of its
  table is called and unloaded exactly once, at the end, and session, event, registration, texture and
  bitstream buffer are each acquired once, used only in between and released before it goes. When the
  construction fails, the library is unloaded all the same, but a session that had been opened is still
  open then.
\<close>

theorem encoder_lifecycle:
  "case sdk_new api m io config dims of
     (Inl e, cs) \<Rightarrow> bracket dll_usage False cs = Some False
       \<and> bracket session_of False cs = Some (\<exists>v. e = Inr v \<and> v \<noteq> NvOpen)
   | (Inr s, cs) \<Rightarrow>
       (case device_run encode_step ops (cap, s) of (st, ds) \<Rightarrow>
          bracket dll_usage False (cs @ map Nv ds @ sdk_drop (snd st)) = Some False
          \<and> list_all (\<lambda>u. bracket (nv_usage u) False (cs @ map Nv ds @ sdk_drop (snd st)) = Some False)
              [session_usage, event_usage, registration_usage, resource_usage, bitstream_usage])"
proof (cases "nv_load api m")
  case load: (Pair r ls)
  show ?thesis
  proof (cases r)
    case (Inl e)
    with load nv_load_calls(1) [of api m e ls] show ?thesis by (simp add: sdk_new_def)
  next
    case (Inr table)
    note ls = nv_load_calls(2) [OF load [unfolded Inr]]
    let ?io = "io\<lparr>nn_load := True\<rparr>"
    obtain q cs where new: "nv_new ?io config dims = (q, cs)" by fastforce
    show ?thesis
    proof (cases q)
      case q: (Inl e)
      with load Inr new ls nv_new_session [of io config dims e cs] show ?thesis
        by (auto simp: sdk_new_def bracket_dll bracket_Nv)
    next
      case q: (Inr s)
      obtain st ds where d: "device_run encode_step ops (cap, s) = (st, ds)" by fastforce
      have "list_all (\<lambda>u. bracket u False (cs @ ds @ nv_drop (snd st)) = Some False)
          [session_usage, event_usage, registration_usage, resource_usage, bitstream_usage]"
        using nvenc_session_lifecycle [where io = ?io and config = config and dims = dims and ops = ops and cap = cap] new q d by simp
      then have mid: "bracket (nv_usage u) False (map Nv (cs @ ds @ nv_drop (snd st))) = Some False"
        if "u \<in> {session_usage, event_usage, registration_usage, resource_usage, bitstream_usage}" for u
        using that by (simp only: bracket_Nv) (auto simp: list_all_iff)
      have "bracket (nv_usage u) False (ls @ map Nv cs @ map Nv ds @ sdk_drop (snd st)) = Some False"
        if "u \<in> {session_usage, event_usage, registration_usage, resource_usage, bitstream_usage}" for u
      proof -
        have "bracket (nv_usage u) False (ls @ map Nv (cs @ ds @ nv_drop (snd st)) @ [FreeDll]) = Some False"
          using ls [of u] mid [OF that] by (simp only: bracket_append option.case) simp
        then show ?thesis by (simp add: sdk_drop_def)
      qed
      moreover have "bracket dll_usage False (ls @ map Nv cs @ map Nv ds @ sdk_drop (snd st)) = Some False"
        using ls by (simp add: sdk_drop_def bracket_dll)
      ultimately show ?thesis using load Inr new q d by (simp add: sdk_new_def del: bracket_append)
    qed
  qed
qed

end
