(* ===== verification/Program.thy ===== *)
theory Program
  imports Setup Peers Browser_Page Relay_System
begin

text \<open>
  The three programs from the outside: \<^verbatim>\<open>main\<close> of the PC server (\<^verbatim>\<open>server-pc/src/main.rs\<close>)
  with the start of its tray (\<^verbatim>\<open>tray.rs\<close>), \<^verbatim>\<open>main\<close> of the relay
  (\<^verbatim>\<open>relay/src/main.rs\<close>), how the server dials the relay (\<^verbatim>\<open>relay_client.rs\<close>), and
  the card the page and the terminal show (\<^verbatim>\<open>qr.rs\<close>). What the system and the libraries answer is
  an argument, and each operation returns the calls it makes.
\<close>

section \<open>Dialing the relay\<close>

datatype dial_call = ConnectTcp string | UpgradeOver string string | ConnectAsync string

datatype dial_error = BadUrl relay_error | TcpRefused string | BadRequest string | UpgradeRefused string | DialRefused string

text \<open>
  \<open>ok\<close> is the answer to each call; \<open>request_ok\<close> whether the URL makes a request. The result says
  whether the stream is the plain socket.
\<close>

definition dial :: "(dial_call \<Rightarrow> bool) \<Rightarrow> (string \<Rightarrow> bool) \<Rightarrow> RelayConfig \<Rightarrow> (dial_error + bool) \<times> dial_call list" where
  "dial ok request_ok cfg =
     (case host_ws_url cfg of
        Inl e \<Rightarrow> (Inl (BadUrl e), [])
      | Inr ws_url \<Rightarrow>
          (case parse_ws_authority ws_url of
             Some addr \<Rightarrow>
               if \<not> ok (ConnectTcp addr) then (Inl (TcpRefused addr), [ConnectTcp addr])
               else if \<not> request_ok ws_url then (Inl (BadRequest ws_url), [ConnectTcp addr])
               else if \<not> ok (UpgradeOver addr ws_url) then (Inl (UpgradeRefused ws_url), [ConnectTcp addr, UpgradeOver addr ws_url])
               else (Inr True, [ConnectTcp addr, UpgradeOver addr ws_url])
           | None \<Rightarrow>
               if ok (ConnectAsync ws_url) then (Inr False, [ConnectAsync ws_url])
               else (Inl (DialRefused ws_url), [ConnectAsync ws_url])))"

section \<open>The relay program\<close>

record relay_args =
  ra_port :: u16
  ra_host :: string
  ra_hosts_file :: string

definition default_relay_args :: relay_args where
  "default_relay_args = \<lparr> ra_port = 7891, ra_host = ''0.0.0.0'', ra_hosts_file = ''relay-hosts.json'' \<rparr>"

datatype relay_handler = HostRegister | HostWs | ClientWs | Healthz

definition relay_routes :: "(string \<times> string \<times> relay_handler) list" where
  "relay_routes = [(''/v1/host/register'', ''POST'', HostRegister), (''/v1/host'', ''GET'', HostWs),
     (''/v1/client'', ''GET'', ClientWs), (''/healthz'', ''GET'', Healthz)]"

definition relay_bind :: "relay_args \<Rightarrow> string" where
  "relay_bind args = ra_host args @ '':'' @ show_nat (unat (ra_port args))"

text \<open>The state the server starts with; none if binding fails. \<open>read\<close> is what the file holds.\<close>

definition relay_main :: "(bytes \<Rightarrow> registry option) \<Rightarrow> (string \<Rightarrow> disk_read) \<Rightarrow> (string \<Rightarrow> bool) \<Rightarrow> relay_args \<Rightarrow> relay option" where
  "relay_main parse read bind_ok args =
     (let loaded = load_hosts_from_disk parse (read (ra_hosts_file args)); state = relay_start loaded
      in if bind_ok (relay_bind args) then Some state else None)"

section \<open>The tray\<close>

datatype tray_call = MakeIcon | AppendMenu | BuildTray

definition tray_ladder :: "(tray_call \<times> bool) list" where
  "tray_ladder = [(MakeIcon, True), (AppendMenu, True), (BuildTray, True)]"

text \<open>The window: first the frame, then the web view in it.\<close>

datatype window_call = BuildWindow | BuildWebview string

definition window_ladder :: "string \<Rightarrow> (window_call \<times> bool) list" where
  "window_ladder url = [(BuildWindow, True), (BuildWebview url, True)]"

definition open_window :: "(window_call \<Rightarrow> bool) \<Rightarrow> string \<Rightarrow> (window_call + unit) \<times> window_call list" where
  "open_window ok url = construct ok (window_ladder url) ()"

definition qr_url :: "u16 \<Rightarrow> string" where
  "qr_url port = ''http://127.0.0.1:'' @ show_nat (unat port) @ ''/''"

text \<open>The menu: what each entry says and whether it can be clicked; nothing is a separator.\<close>

definition tray_menu :: "(string \<times> bool) option list" where
  "tray_menu =
     [Some (''RemoteControl '' @ text_bytes [0xE6,0x9C,0x8D,0xE5,0x8A,0xA1], False),
      None,
      Some (text_bytes [0xF0,0x9F,0x93,0xB7] @ '' '' @
        text_bytes [0xE6,0x89,0x93,0xE5,0xBC,0x80,0xE4,0xBA,0x8C,0xE7,0xBB,0xB4,0xE7,0xA0,0x81,0xE9,0xA1,0xB5], True),
      Some (text_bytes [0xF0,0x9F,0x94,0x84] @ '' '' @
        text_bytes [0xE5,0x88,0xB7,0xE6,0x96,0xB0,0xE4,0xBA,0x8C,0xE7,0xBB,0xB4,0xE7,0xA0,0x81], True),
      Some (text_bytes [0xF0,0x9F,0x93,0x82] @ '' '' @
        text_bytes [0xE6,0x89,0x93,0xE5,0xBC,0x80,0xE6,0x97,0xA5,0xE5,0xBF,0x97,0xE6,0x96,0x87,0xE4,0xBB,0xB6,0xE5,0xA4,0xB9], True),
      None,
      Some (text_bytes [0xE2,0x9D,0x8C] @ '' '' @ text_bytes [0xE9,0x80,0x80,0xE5,0x87,0xBA], True)]"

text \<open>
  Up to the event loop; its first event opens the window.
\<close>

definition run_tray_loop :: "(tray_call \<Rightarrow> bool) \<Rightarrow> (window_call \<Rightarrow> bool) \<Rightarrow> u16 \<Rightarrow> Inner \<Rightarrow> (tray_call + tray) \<times> tray_call list" where
  "run_tray_loop ok win port pairing =
     (let opened = (case fst (open_window win (qr_url port)) of Inr u \<Rightarrow> True | Inl e \<Rightarrow> False)
      in construct ok tray_ladder
           (tray_step (OpenQrAtStartup opened) \<lparr> ty_window = None, ty_pairing = pairing, ty_exited = False \<rparr>))"

text \<open>The command that opens the folder of the logs, if there is one.\<close>

definition open_logs_folder :: "string option \<Rightarrow> string list option" where
  "open_logs_folder dir = map_option (\<lambda>d. [''cmd'', ''/C'', ''start'', '''', d]) dir"

section \<open>The server program\<close>

datatype start_call = AttachParentConsole | CreateLogDir string | InstallSubscriber | InstallPanicHook
  | Register string string | SpawnServer ServerMode | RunTray u16

datatype start_error = NoLogDir | LogDirNotCreated string | RegistrationFailed relay_error | ThreadNotSpawned
  | TrayFailed tray_call

text \<open>How the program ends, or that it runs: the tray, and what the server thread came to.\<close>

datatype program_end = StartFailed start_error | Registered RelayConfig | Running "boot_error + boot_plan" tray

record program_env =
  pe_local_appdata :: "string option"
  pe_appdata :: "string option"
  pe_mkdir :: "string \<Rightarrow> bool"
  pe_provision :: "string \<Rightarrow> string \<Rightarrow> relay_error + RelayConfig"
  pe_boot :: boot_env
  pe_spawn_ok :: bool
  pe_tray :: "tray_call \<Rightarrow> bool"
  pe_window :: "window_call \<Rightarrow> bool"
  pe_fresh_code :: Inner

text \<open>\<^verbatim>\<open>init_tracing\<close>: the directory is made before anything can be logged.\<close>

definition init_tracing :: "program_env \<Rightarrow> (start_error + unit) \<times> start_call list" where
  "init_tracing pe =
     (case log_dir (pe_local_appdata pe) (pe_appdata pe) of
        None \<Rightarrow> (Inl NoLogDir, [])
      | Some d \<Rightarrow>
          if pe_mkdir pe d then (Inr (), [CreateLogDir d, InstallSubscriber])
          else (Inl (LogDirNotCreated d), [CreateLogDir d]))"

definition run_relay_register :: "program_env \<Rightarrow> string \<Rightarrow> program_end \<times> start_call list" where
  "run_relay_register pe base_url =
     (let cfg = load_or_default (be_computername (pe_boot pe)) in
      (case pe_provision pe base_url (sv_server_name cfg) of
         Inl e \<Rightarrow> (StartFailed (RegistrationFailed e), [Register base_url (sv_server_name cfg)])
       | Inr provisioned \<Rightarrow> (Registered provisioned, [Register base_url (sv_server_name cfg)])))"

definition run_tray :: "program_env \<Rightarrow> ServerMode \<Rightarrow> program_end \<times> start_call list" where
  "run_tray pe mode =
     (let port = qr_http_port (sv_port (load_or_default (be_computername (pe_boot pe)))) in
      if \<not> pe_spawn_ok pe then (StartFailed ThreadNotSpawned, [SpawnServer mode])
      else (case fst (run_tray_loop (pe_tray pe) (pe_window pe) port (pe_fresh_code pe)) of
          Inl c \<Rightarrow> (StartFailed (TrayFailed c), [SpawnServer mode, RunTray port])
        | Inr ty \<Rightarrow> (Running (run_server mode (pe_boot pe)) ty, [SpawnServer mode, RunTray port])))"

text \<open>\<^verbatim>\<open>main\<close>; attaching to a console may fail, an error of the server thread is only logged.\<close>

definition program_main :: "program_env \<Rightarrow> Cli \<Rightarrow> program_end \<times> start_call list" where
  "program_main pe cli =
     (case init_tracing pe of
        (Inl e, cs) \<Rightarrow> (StartFailed e, AttachParentConsole # cs)
      | (Inr u, cs) \<Rightarrow>
          (let (r, ds) = (case start_action_of cli of
                 RegisterRelay base_url \<Rightarrow> run_relay_register pe base_url
               | Serve mode \<Rightarrow> run_tray pe mode)
           in (r, AttachParentConsole # cs @ InstallPanicHook # ds)))"

text \<open>Where the page server listens.\<close>

definition page_bind :: "boot_plan \<Rightarrow> string" where
  "page_bind bp = ''127.0.0.1:'' @ show_nat (unat (bp_qr_port bp))"

section \<open>Facts\<close>

lemma relay_main_reach: "relay_main parse read bind_ok args = Some s \<Longrightarrow> relay_reach D s"
  by (auto simp: relay_main_def Let_def rr_start split: if_splits)

lemma relay_routes_distinct: "distinct (map (\<lambda>(p, m, h). (p, m)) relay_routes) \<and> distinct (map (\<lambda>(p, m, h). h) relay_routes)"
  by (simp add: relay_routes_def)

lemma host_ws_url_scheme:
  assumes "host_ws_url cfg = Inr url"
  shows "\<exists>rest. url = ''wss://'' @ rest \<and> starts_with (rc_base_url cfg) ''https://''
    \<or> url = ''ws://'' @ rest \<and> starts_with (rc_base_url cfg) ''http://''"
proof -
  let ?base = "trim_end_char (CHR ''/'') (rc_base_url cfg)"
  have "?base = rev (dropWhile (\<lambda>x. x = CHR ''/'') (rev (rc_base_url cfg)))" by (simp add: trim_end_char_def)
  then have "rc_base_url cfg = ?base @ rev (takeWhile (\<lambda>x. x = CHR ''/'') (rev (rc_base_url cfg)))"
    by (metis rev_append rev_rev_ident takeWhile_dropWhile_id)
  then have pre: "starts_with ?base p \<Longrightarrow> starts_with (rc_base_url cfg) p" for p
    by (metis append.assoc starts_with_iff)
  define tail where "tail scheme = (case after_first ''://'' ?base of None \<Rightarrow> Inl (BadBaseUrl ?base)
    | Some host_part \<Rightarrow> Inr (scheme @ ''://'' @ host_part @ ''/v1/host?host_id='' @ rc_host_id cfg
        @ ''&host_token='' @ rc_host_token cfg))" for scheme
  have def_url: "host_ws_url cfg = (if starts_with ?base ''https://'' then tail ''wss''
      else if starts_with ?base ''http://'' then tail ''ws'' else Inl (BadBaseUrl ?base))"
    by (simp add: host_ws_url_def tail_def Let_def)
  have tail: "\<exists>rest. url = scheme @ ''://'' @ rest" if "tail scheme = Inr url" for scheme
  proof (cases "after_first ''://'' ?base")
    case None
    with that show ?thesis by (simp only: tail_def option.case) simp
  next
    case (Some host_part)
    with that have "url = scheme @ ''://'' @ host_part @ ''/v1/host?host_id='' @ rc_host_id cfg
        @ ''&host_token='' @ rc_host_token cfg" by (simp only: tail_def option.case sum.inject)
    then show ?thesis by blast
  qed
  show ?thesis
  proof (cases "starts_with ?base ''https://''")
    case True
    with assms def_url have "tail ''wss'' = Inr url" by simp
    from tail [OF this] pre [OF True] show ?thesis by auto
  next
    case False
    with assms def_url have h: "starts_with ?base ''http://''" "tail ''ws'' = Inr url"
      by (simp_all split: if_splits)
    from tail [OF h(2)] pre [OF h(1)] show ?thesis by auto
  qed
qed

lemma parse_ws_authority_Some:
  "parse_ws_authority url = Some addr \<Longrightarrow> CHR '':'' \<in> set addr \<and> (\<exists>rest. url = ''ws://'' @ addr @ rest
     \<and> (rest = [] \<or> hd rest \<in> {CHR ''/'', CHR ''?''}))"
proof -
  assume p: "parse_ws_authority url = Some addr"
  let ?P = "\<lambda>c. \<not> (c = CHR ''/'' \<or> c = CHR ''?'')"
  from p obtain r where r: "url = ''ws://'' @ r" and a: "addr = takeWhile ?P r" "CHR '':'' \<in> set addr"
    by (auto simp: parse_ws_authority_def strip_prefix_Some Let_def split: option.splits if_splits)
  have "addr @ dropWhile ?P r = r" using a(1) by simp
  with r have "url = ''ws://'' @ addr @ dropWhile ?P r" by (simp only:)
  moreover have "dropWhile ?P r = [] \<or> hd (dropWhile ?P r) \<in> {CHR ''/'', CHR ''?''}"
    using hd_dropWhile [of ?P r] by auto
  ultimately show ?thesis using a(2) by blast
qed

section \<open>Properties\<close>



text \<open>
  What a start of the program comes to: nothing is done before the log is installed; registering with
  a relay starts neither the server nor the tray; otherwise the server runs in the mode of the flags,
  the tray's window points at the address the page server listens on, and the tray runs whatever the
  server thread came to, even when it failed to start.
\<close>

theorem program_start:
  "case program_main pe cli of (r, cs) \<Rightarrow>
     (\<exists>d rest. cs = [AttachParentConsole, CreateLogDir d, InstallSubscriber, InstallPanicHook] @ rest
        \<and> log_dir (pe_local_appdata pe) (pe_appdata pe) = Some d
        \<and> (case cli_relay_register cli of
             Some base_url \<Rightarrow> (\<exists>name. rest = [Register base_url name]) \<and> (\<forall>res ty. r \<noteq> Running res ty)
           | None \<Rightarrow> (\<exists>more. rest = SpawnServer (if cli_relay_only cli then RelayOnly
               else if cli_relay cli then LanAndRelay else LanOnly) # more \<and> (more = [] \<or> (\<exists>port. more = [RunTray port])))))
     \<or> (\<exists>e. r = StartFailed e \<and> e \<in> {NoLogDir} \<union> range LogDirNotCreated
         \<and> list_all (\<lambda>c. c = AttachParentConsole \<or> (\<exists>d. c = CreateLogDir d)) cs)"
  by (cases "log_dir (pe_local_appdata pe) (pe_appdata pe)")
    (auto simp: program_main_def init_tracing_def start_action_of_def run_relay_register_def run_tray_def Let_def
      split: option.splits sum.splits if_splits)

text \<open>The address of the window and of the page server, whatever the server thread came to.\<close>

lemma running_program:
  assumes "program_main pe cli = (Running res ty, cs)"
  shows "\<exists>mode port. SpawnServer mode \<in> set cs \<and> RunTray port \<in> set cs \<and> res = run_server mode (pe_boot pe)
    \<and> (\<forall>bp. res = Inr bp \<longrightarrow> qr_url port = ''http://'' @ page_bind bp @ ''/'')
    \<and> \<not> ty_exited ty \<and> ty_pairing ty = pe_fresh_code pe"
proof -
  from assms obtain mode where m: "start_action_of cli = Serve mode" "run_tray pe mode = (Running res ty, drop 4 cs)"
    and sub: "set (drop 4 cs) \<subseteq> set cs"
    by (auto simp: program_main_def init_tracing_def run_relay_register_def Let_def set_drop_subset
        split: option.splits sum.splits if_splits start_action.splits prod.splits)
  let ?port = "qr_http_port (sv_port (load_or_default (be_computername (pe_boot pe))))"
  from m(2) have r: "drop 4 cs = [SpawnServer mode, RunTray ?port]" "res = run_server mode (pe_boot pe)"
    and ty: "fst (run_tray_loop (pe_tray pe) (pe_window pe) ?port (pe_fresh_code pe)) = Inr ty"
    by (auto simp: run_tray_def Let_def split: if_splits sum.splits)
  have "bp_qr_port bp = ?port" if "res = Inr bp" for bp
    using that r(2) by (auto simp: run_server_def Let_def split: option.splits sum.splits if_splits)
  then have "\<forall>bp. res = Inr bp \<longrightarrow> qr_url ?port = ''http://'' @ page_bind bp @ ''/''"
    by (simp add: qr_url_def page_bind_def)
  moreover have "\<not> ty_exited ty \<and> ty_pairing ty = pe_fresh_code pe"
    using ty by (auto simp: run_tray_loop_def fst_construct Let_def split: if_splits sum.splits)
  ultimately show ?thesis using r sub by auto
qed

end
