(* ===== verification/Build_Script.thy ===== *)
theory Build_Script
  imports Http_Reply Setup
begin

text \<open>
  The build script of the server (\<^verbatim>\<open>server-pc/build.rs\<close>): when it generates the driver bindings,
  what it asks of them, and the icon and version resources it writes. The tools it calls (bindgen, the
  SVG renderer, the resource compiler) and the environment are arguments; a panic ends the build.
\<close>

section \<open>Versions\<close>

definition parse_part :: "string \<Rightarrow> u16" where
  "parse_part p = (case parse_uint (2 ^ 16) p of Some n \<Rightarrow> word_of_nat n | None \<Rightarrow> 0)"

definition parse_semver :: "string \<Rightarrow> u16 \<times> u16 \<times> u16" where
  "parse_semver v =
     (let parts = map parse_part (split_on (CHR ''.'') v);
          next_part = (\<lambda>i. if i < length parts then parts ! i else 0)
      in (next_part 0, next_part 1, next_part 2))"

definition version_quad :: "u16 \<times> u16 \<times> u16 \<Rightarrow> string" where
  "version_quad v = (case v of (a, b, c) \<Rightarrow>
     show_nat (unat a) @ '','' @ show_nat (unat b) @ '','' @ show_nat (unat c) @ '',0'')"

definition version_str :: "u16 \<times> u16 \<times> u16 \<Rightarrow> string" where
  "version_str v = (case v of (a, b, c) \<Rightarrow>
     show_nat (unat a) @ ''.'' @ show_nat (unat b) @ ''.'' @ show_nat (unat c) @ ''.0'')"

section \<open>The resource script\<close>

text \<open>The lines of the template; each ends with a newline.\<close>

definition rc_value :: "string \<Rightarrow> string \<Rightarrow> string \<Rightarrow> string" where
  "rc_value name gap value = ''            VALUE '' @ quoted name @ '','' @ gap @ quoted value"

definition rc_lines :: "string \<Rightarrow> string \<Rightarrow> string \<Rightarrow> string list" where
  "rc_lines ico ver_quad ver_str =
    [''#include <winver.h>'',
     ''1 ICON '' @ quoted ico,
     [],
     ''1 VERSIONINFO'',
     '' FILEVERSION    '' @ ver_quad,
     '' PRODUCTVERSION '' @ ver_quad,
     '' FILEOS         VOS_NT_WINDOWS32'',
     '' FILETYPE       VFT_APP'',
     '' FILESUBTYPE    VFT2_UNKNOWN'',
     ''BEGIN'',
     ''    BLOCK '' @ quoted ''StringFileInfo'',
     ''    BEGIN'',
     ''        BLOCK '' @ quoted ''040904b0'',
     ''        BEGIN'',
     rc_value ''CompanyName'' ''      '' ''RemoteControl'',
     rc_value ''FileDescription'' ''  '' ''RemoteControl PC server'',
     rc_value ''FileVersion'' ''      '' ver_str,
     rc_value ''InternalName'' ''     '' ''remotecontrol-server'',
     rc_value ''LegalCopyright'' ''   '' ''RemoteControl contributors'',
     rc_value ''OriginalFilename'' '' '' ''remotecontrol-server.exe'',
     rc_value ''ProductName'' ''      '' ''RemoteControl'',
     rc_value ''ProductVersion'' ''   '' ver_str,
     ''        END'',
     ''    END'',
     ''    BLOCK '' @ quoted ''VarFileInfo'',
     ''    BEGIN'',
     ''        VALUE '' @ quoted ''Translation'' @ '', 0x0409, 0x04B0'',
     ''    END'',
     ''END'']"

definition forward_slashes :: "string \<Rightarrow> string" where
  "forward_slashes path = map (\<lambda>c. if c = CHR 0x5C then CHR ''/'' else c) path"

definition rc_text :: "string \<Rightarrow> string \<Rightarrow> string" where
  "rc_text ico_path pkg_version =
     (let v = parse_semver pkg_version
      in concat (map (\<lambda>l. l @ [CHR 0x0A]) (rc_lines (forward_slashes ico_path) (version_quad v) (version_str v))))"

section \<open>Icon and resources\<close>

definition icon_sizes :: "u32 list" where
  "icon_sizes = [16, 24, 32, 48, 64, 128, 256]"

datatype res_call = GetOutDir | ReadSvg string | ParseSvg | AllocPixmap u32 | EncodeEntry u32 | CreateIco string
  | WriteIco string | WriteRc string string | CompileRc string

text \<open>Every step but the last panics when it fails.\<close>

definition res_ladder :: "string \<Rightarrow> string \<Rightarrow> string \<Rightarrow> (res_call \<times> bool) list" where
  "res_ladder out_dir manifest_dir pkg_version =
     (let ico_path = path_join out_dir ''icon.ico''; rc_path = path_join out_dir ''app.rc'' in
      [(GetOutDir, True), (ReadSvg (path_join (path_join manifest_dir ''assets'') ''icon.svg''), True), (ParseSvg, True)]
      @ concat (map (\<lambda>s. [(AllocPixmap s, True), (EncodeEntry s, True)]) icon_sizes)
      @ [(CreateIco ico_path, True), (WriteIco ico_path, True), (WriteRc rc_path (rc_text ico_path pkg_version), True),
         (CompileRc rc_path, False)])"

definition emit_windows_resources :: "(res_call \<Rightarrow> bool) \<Rightarrow> string \<Rightarrow> string \<Rightarrow> string \<Rightarrow> (res_call + unit) \<times> res_call list" where
  "emit_windows_resources ok out_dir manifest_dir pkg_version = construct ok (res_ladder out_dir manifest_dir pkg_version) ()"

section \<open>The script\<close>

record build_env =
  bd_target :: "string option"
  bd_out_dir :: string
  bd_manifest_dir :: string
  bd_manifest_parent :: "string option"
  bd_pkg_version :: string
  bd_libclang_set :: bool
  bd_exists :: "string \<Rightarrow> bool"
  bd_res :: "res_call \<Rightarrow> bool"
  bd_bindgen_ok :: bool
  bd_write_ok :: bool

datatype build_call = Resource res_call | WriteStub string | SetLibclang string | Bindgen string | WriteBindings string

datatype build_error = ResourceFailed res_call | NoParent | HeaderMissing string | BindgenFailed | BindingsNotWritten

definition llvm_bin :: string where
  "llvm_bin = ''C:'' @ [CHR 0x5C] @ ''Program Files'' @ [CHR 0x5C] @ ''LLVM'' @ [CHR 0x5C] @ ''bin''"

definition nvenc_header :: "string \<Rightarrow> string" where
  "nvenc_header parent = foldl path_join parent [''vendor'', ''nv-codec-headers'', ''include'', ''ffnvcodec'', ''nvEncodeAPI.h'']"

text \<open>From the variable for libclang on.\<close>

definition build_bindings :: "build_env \<Rightarrow> (build_error + unit) \<times> build_call list" where
  "build_bindings be =
     (let clang = (if \<not> bd_libclang_set be \<and> bd_exists be (path_join llvm_bin ''libclang.dll'') then [SetLibclang llvm_bin] else [])
      in (case bd_manifest_parent be of None \<Rightarrow> (Inl NoParent, clang)
        | Some parent \<Rightarrow> (let header = nvenc_header parent; out = path_join (bd_out_dir be) ''nvenc_sys.rs'' in
            if \<not> bd_exists be header then (Inl (HeaderMissing header), clang)
            else if \<not> bd_bindgen_ok be then (Inl BindgenFailed, clang @ [Bindgen header])
            else if \<not> bd_write_ok be then (Inl BindingsNotWritten, clang @ [Bindgen header, WriteBindings out])
            else (Inr (), clang @ [Bindgen header, WriteBindings out]))))"

definition build_main :: "build_env \<Rightarrow> (build_error + unit) \<times> build_call list" where
  "build_main be =
     (let target = (case bd_target be of Some t \<Rightarrow> t | None \<Rightarrow> []); is_windows = contains_str target ''windows'' in
      if \<not> is_windows then (Inr (), [WriteStub (path_join (bd_out_dir be) ''nvenc_sys.rs'')])
      else (case emit_windows_resources (bd_res be) (bd_out_dir be) (bd_manifest_dir be) (bd_pkg_version be) of
          (Inl c, cs) \<Rightarrow> (Inl (ResourceFailed c), map Resource cs)
        | (Inr u, cs) \<Rightarrow> (case build_bindings be of (r, ds) \<Rightarrow> (r, map Resource cs @ ds))))"

section \<open>Facts\<close>

lemma split_on_cons: "c \<notin> set a \<Longrightarrow> split_on c (a @ c # r) = a # split_on c r"
proof (induction a)
  case (Cons x a)
  then have "split_on c (a @ c # r) = a # split_on c r" by auto
  with Cons.prems show ?case by auto
qed simp

lemma parse_part_show: "parse_part (show_nat (unat w)) = w"
proof -
  have "unat w < 2 ^ 16" using unsigned_less [of w, where 'a = nat] by simp
  then show ?thesis by (simp add: parse_part_def parse_uint_show)
qed

lemma no_dot: "CHR ''.'' \<notin> set (show_nat n)"
  using show_nat_digits [of "CHR ''.''" n] by (auto simp: is_digit_def)

lemma parse_semver_parts:
  assumes "CHR ''.'' \<notin> set r"
  shows "parse_semver (show_nat (unat a) @ ''.'' @ show_nat (unat b) @ ''.'' @ r) = (a, b, parse_part r)"
proof -
  have "split_on (CHR ''.'') (show_nat (unat a) @ ''.'' @ show_nat (unat b) @ ''.'' @ r)
      = [show_nat (unat a), show_nat (unat b), r]"
    by (simp add: split_on_cons no_dot split_on_single assms)
  then show ?thesis by (simp add: parse_semver_def parse_part_show)
qed

text \<open>A pre-release of a version keeps its first two parts only.\<close>

lemma prerelease_patch:
  "parse_semver (show_nat (unat a) @ ''.'' @ show_nat (unat b) @ ''.'' @ show_nat (unat c) @ ''-rc1'') = (a, b, 0)"
proof -
  have "parse_uint (2 ^ 16) (show_nat (unat c) @ ''-rc1'') = None"
  proof (cases "show_nat (unat c)")
    case (Cons x s)
    then have "x \<noteq> CHR ''+''" using show_nat_digits [of x "unat c"] by (auto simp: is_digit_def)
    with Cons show ?thesis by (simp add: parse_uint_def is_digit_def)
  qed simp
  then have "parse_part (show_nat (unat c) @ ''-rc1'') = 0" by (simp add: parse_part_def)
  moreover have "CHR ''.'' \<notin> set (show_nat (unat c) @ ''-rc1'')"
    using no_dot [of "unat c"] by auto
  ultimately show ?thesis using parse_semver_parts by metis
qed

text \<open>Which targets get what, and what a build needs on Windows.\<close>

lemma build_elsewhere: "\<not> contains_str (case bd_target be of Some t \<Rightarrow> t | None \<Rightarrow> []) ''windows'' \<Longrightarrow>
    build_main be = (Inr (), [WriteStub (path_join (bd_out_dir be) ''nvenc_sys.rs'')])"
  by (simp add: build_main_def Let_def)

lemma build_windows:
  assumes "contains_str (case bd_target be of Some t \<Rightarrow> t | None \<Rightarrow> []) ''windows''"
  shows "fst (build_main be) = Inr () \<longleftrightarrow>
    all_required (bd_res be) (res_ladder (bd_out_dir be) (bd_manifest_dir be) (bd_pkg_version be))
    \<and> (\<exists>parent. bd_manifest_parent be = Some parent \<and> bd_exists be (nvenc_header parent))
    \<and> bd_bindgen_ok be \<and> bd_write_ok be"
proof -
  obtain r cs where e: "emit_windows_resources (bd_res be) (bd_out_dir be) (bd_manifest_dir be) (bd_pkg_version be) = (r, cs)"
    by fastforce
  show ?thesis
  proof (cases r)
    case (Inl c)
    with e have "\<not> all_required (bd_res be) (res_ladder (bd_out_dir be) (bd_manifest_dir be) (bd_pkg_version be))"
      using fst_construct [of "bd_res be" "res_ladder (bd_out_dir be) (bd_manifest_dir be) (bd_pkg_version be)" "()"]
      by (auto simp: emit_windows_resources_def split: if_splits)
    with assms e Inl show ?thesis by (simp add: build_main_def Let_def)
  next
    case (Inr u)
    with e have "all_required (bd_res be) (res_ladder (bd_out_dir be) (bd_manifest_dir be) (bd_pkg_version be))"
      using construct_Inr [of "bd_res be" _ "()"] by (auto simp: emit_windows_resources_def)
    moreover obtain s ds where b: "build_bindings be = (s, ds)" by fastforce
    then have "s = Inr () \<longleftrightarrow> (\<exists>parent. bd_manifest_parent be = Some parent \<and> bd_exists be (nvenc_header parent))
        \<and> bd_bindgen_ok be \<and> bd_write_ok be"
      by (cases "bd_manifest_parent be") (auto simp: build_bindings_def Let_def split: if_splits)
    ultimately show ?thesis using assms e Inr b by (simp add: build_main_def Let_def)
  qed
qed

section \<open>Properties\<close>

text \<open>
  The version resource carries the package's version: every version of three 16-bit numbers is read
  back from its text, the resource script has exactly the lines with these numbers, the fourth being
  zero, and no backslash is left in it, which its parser would take for an escape, whatever the path of
  the icon.
\<close>

theorem version_resource:
  "parse_semver (show_nat (unat a) @ ''.'' @ show_nat (unat b) @ ''.'' @ show_nat (unat c)) = (a, b, c)
   \<and> rc_text ico (show_nat (unat a) @ ''.'' @ show_nat (unat b) @ ''.'' @ show_nat (unat c)) =
      concat (map (\<lambda>l. l @ [CHR 0x0A]) (rc_lines (forward_slashes ico)
        (show_nat (unat a) @ '','' @ show_nat (unat b) @ '','' @ show_nat (unat c) @ '',0'')
        (show_nat (unat a) @ ''.'' @ show_nat (unat b) @ ''.'' @ show_nat (unat c) @ ''.0'')))
   \<and> CHR 0x5C \<notin> set (rc_text ico v)"
proof -
  have p: "parse_semver (show_nat (unat a) @ ''.'' @ show_nat (unat b) @ ''.'' @ show_nat (unat c)) = (a, b, c)"
    using parse_semver_parts [OF no_dot] parse_part_show by metis
  have n: "CHR 0x5C \<notin> set (show_nat n)" for n
    using show_nat_digits [of "CHR 0x5C" n] by (auto simp: is_digit_def)
  obtain x y z where v: "parse_semver v = (x, y, z)" by (metis prod_cases3)
  have "CHR 0x5C \<notin> set (forward_slashes ico)" by (auto simp: forward_slashes_def)
  then have "CHR 0x5C \<notin> set (rc_text ico v)"
    by (simp add: rc_text_def v rc_lines_def rc_value_def quoted_def dquote_def version_quad_def version_str_def n)
  with p show ?thesis by (simp add: rc_text_def version_quad_def version_str_def)
qed

end
