(* ===== verification/State_Files.thy ===== *)
theory State_Files
  imports Server
begin

text \<open>
  What the server keeps between runs (\<^verbatim>\<open>paths.rs\<close>, \<^verbatim>\<open>default_path\<close> and
  \<^verbatim>\<open>open_default\<close> of \<^verbatim>\<open>trusted_devices.rs\<close>, \<^verbatim>\<open>config_path\<close> of
  \<^verbatim>\<open>relay_client.rs\<close>): the three places the code computes a path in, for Windows and for
  other systems, and a boot that reads both files from one disk. The theorem joins
  \<^verbatim>\<open>--relay-register\<close>, a session that trusts a phone, and the next start.
\<close>

section \<open>Paths\<close>

text \<open>\<^verbatim>\<open>Path::join\<close> on the other systems, for a relative name.\<close>

definition unix_join :: "string \<Rightarrow> string \<Rightarrow> string" where
  "unix_join dir name = dir @ (if dir \<noteq> [] \<and> last dir \<noteq> CHR ''/'' then ''/'' else []) @ name"

definition local_state_dir_unix :: "string option \<Rightarrow> string option \<Rightarrow> string" where
  "local_state_dir_unix xdg_config_home home =
     (let base = (case (case xdg_config_home of Some d \<Rightarrow> Some d | None \<Rightarrow> map_option (\<lambda>h. unix_join h ''.config'') home) of
                    Some d \<Rightarrow> d | None \<Rightarrow> ''.'')
      in unix_join base ''RemoteControl'')"

definition config_path_unix :: "string option \<Rightarrow> string option \<Rightarrow> string" where
  "config_path_unix xdg_config_home home =
     (let base = (case (case xdg_config_home of Some d \<Rightarrow> Some d | None \<Rightarrow> map_option (\<lambda>h. unix_join h ''.config'') home) of
                    Some d \<Rightarrow> d | None \<Rightarrow> ''.'')
      in unix_join (unix_join base ''RemoteControl'') ''relay.toml'')"

definition default_path_unix :: "string option \<Rightarrow> string option \<Rightarrow> string" where
  "default_path_unix xdg_config_home home =
     (let base = (case (case xdg_config_home of Some d \<Rightarrow> Some d | None \<Rightarrow> map_option (\<lambda>h. unix_join h ''.config'') home) of
                    Some d \<Rightarrow> d | None \<Rightarrow> ''.'')
      in unix_join (unix_join base ''RemoteControl'') ''trusted_devices.json'')"

definition default_path :: "string option \<Rightarrow> string option \<Rightarrow> string option" where
  "default_path local_appdata appdata =
     (case (case local_appdata of Some d \<Rightarrow> Some d | None \<Rightarrow> appdata) of
        None \<Rightarrow> None
      | Some d \<Rightarrow> Some (path_join (path_join d ''RemoteControl'') ''trusted_devices.json''))"

text \<open>The three computations agree on the root, on each system.\<close>

lemma one_state_root:
  "config_path l a = map_option (\<lambda>d. path_join d ''relay.toml'') (local_state_dir l a)"
  "default_path l a = map_option (\<lambda>d. path_join d ''trusted_devices.json'') (local_state_dir l a)"
  "config_path_unix x h = unix_join (local_state_dir_unix x h) ''relay.toml''"
  "default_path_unix x h = unix_join (local_state_dir_unix x h) ''trusted_devices.json''"
  by (simp_all add: config_path_def default_path_def local_state_dir_def config_path_unix_def default_path_unix_def
      local_state_dir_unix_def Let_def split: option.split)

section \<open>The trust store on the disk\<close>

text \<open>\<^verbatim>\<open>path.with_extension("json.tmp")\<close>, for a path that ends in \<^verbatim>\<open>.json\<close>.\<close>

definition tmp_path :: "string \<Rightarrow> string" where
  "tmp_path path = path @ ''.tmp''"

definition disk_bytes :: "disk_read \<Rightarrow> bytes option" where
  "disk_bytes r = (case r of DiskBytes b \<Rightarrow> Some b | _ \<Rightarrow> None)"

definition open_at :: "(bytes \<Rightarrow> TrustedDevicesFile option) \<Rightarrow> bool \<Rightarrow> (string \<Rightarrow> disk_read) \<Rightarrow> string \<Rightarrow>
    store_error + TrustedDevicesStore" where
  "open_at parse mkdir_ok disk path =
     open_store parse mkdir_ok
       (case disk path of DiskBytes b \<Rightarrow> ReadOk b | DiskNotFound \<Rightarrow> ReadNotFound | DiskError \<Rightarrow> ReadErr)
       (disk_bytes (disk path)) (disk_bytes (disk (tmp_path path)))"

definition open_default :: "(bytes \<Rightarrow> TrustedDevicesFile option) \<Rightarrow> bool \<Rightarrow> (string \<Rightarrow> disk_read) \<Rightarrow>
    string option \<Rightarrow> string option \<Rightarrow> store_error + TrustedDevicesStore" where
  "open_default parse mkdir_ok disk local_appdata appdata =
     (case default_path local_appdata appdata of
        None \<Rightarrow> Inl NoStateDir
      | Some path \<Rightarrow> open_at parse mkdir_ok disk path)"

text \<open>The disk as a store opened at a path leaves it: what never got a new content is as it was.\<close>

definition store_files :: "TrustedDevicesStore \<Rightarrow> string \<Rightarrow> (string \<Rightarrow> disk_read) \<Rightarrow> string \<Rightarrow> disk_read" where
  "store_files st path disk =
     (let disk = disk(tmp_path path := (case ts_tmp st of Some b \<Rightarrow> DiskBytes b | None \<Rightarrow> DiskNotFound))
      in case ts_disk st of Some b \<Rightarrow> disk(path := DiskBytes b) | None \<Rightarrow> disk)"

text \<open>
  What the two files contribute to a start of the server; the fallback store in the temporary
  directory, the interfaces, the host name and the terminal are arguments.
\<close>

definition boot_from :: "(bytes \<Rightarrow> TrustedDevicesFile option) \<Rightarrow> (string \<Rightarrow> RelayConfig option) \<Rightarrow>
    string option \<Rightarrow> string option \<Rightarrow> bool \<Rightarrow> store_error + TrustedDevicesStore \<Rightarrow> (string \<Rightarrow> disk_read) \<Rightarrow>
    string option \<Rightarrow> interface list option \<Rightarrow> bool \<Rightarrow> boot_env" where
  "boot_from parse from_toml local_appdata appdata mkdir_ok tmp_store disk computername ifs qr_ok =
     \<lparr> be_computername = computername, be_interfaces = ifs,
       be_trusted = open_default parse mkdir_ok disk local_appdata appdata, be_trusted_tmp = tmp_store,
       be_relay = load_config from_toml (config_path local_appdata appdata) disk, be_qr_printed = qr_ok \<rparr>"

section \<open>What stays on the disk\<close>

lemma step_schema: "tf_schema (ts_inner (store_step D ser a st)) = tf_schema (ts_inner st)"
  by (cases a) (auto simp: mint_def verify_def Let_def split_beta split: option.split)

text \<open>The file is one that the store could write now or earlier, with the credentials of a device in it.\<close>

definition file_has :: "(TrustedDevicesFile \<Rightarrow> bytes option) \<Rightarrow> string \<Rightarrow> string \<times> string \<Rightarrow> TrustedDevicesStore \<Rightarrow> bool" where
  "file_has ser i c st = (tf_schema (ts_inner st) = CURRENT_SCHEMA \<and> credentials st i = Some c
     \<and> (\<exists>f b. ts_disk st = Some b \<and> ser f = Some b \<and> tf_schema f = CURRENT_SCHEMA
        \<and> credentials (st\<lparr>ts_inner := f\<rparr>) i = Some c))"

lemma file_has_step: "file_has ser i c st \<Longrightarrow> file_has ser i c (store_step D ser a st)"
proof -
  assume h: "file_has ser i c st"
  let ?s = "store_step D ser a st"
  have s: "tf_schema (ts_inner ?s) = CURRENT_SCHEMA" "credentials ?s i = Some c"
    using h credentials_persist [of st i c D ser "[a]"] by (simp_all add: file_has_def step_schema store_run_def)
  have inner: "credentials (?s\<lparr>ts_inner := f\<rparr>) = credentials (st\<lparr>ts_inner := f\<rparr>)" for f
    by (rule ext) (simp add: credentials_def)
  from step_disk [of D ser a st] show ?thesis
  proof
    assume "ts_disk ?s = ts_disk st"
    with h s inner show ?thesis by (simp add: file_has_def)
  next
    assume "ts_disk ?s = ser (ts_inner ?s) \<and> ser (ts_inner ?s) \<noteq> None"
    with s show ?thesis
      unfolding file_has_def by (intro conjI exI [of _ "ts_inner ?s"] exI [of _ "the (ts_disk ?s)"]) auto
  qed
qed

lemma file_has_run: "file_has ser i c st \<Longrightarrow> file_has ser i c (store_run D ser cs st)"
  by (induction cs arbitrary: st) (simp_all add: store_run_def file_has_step)

lemma mint_file_has:
  assumes "mint D ser tb uuid now io nm st = (Inr (i, t), st1)" "credentials st uuid = None"
    and "tf_schema (ts_inner st) = CURRENT_SCHEMA"
  shows "file_has ser i (sha256_hex D (as_bytes t), nm) st1"
proof -
  have it: "i = uuid" "t = base64_url_no_pad D tb" using mint_Inr assms(1) by (metis fst_conv)+
  have "credentials st1 i = Some (sha256_hex D (as_bytes t), nm)"
    using mint_credentials [of D ser tb uuid now io nm st uuid] assms(1,2) it by simp
  moreover have "tf_schema (ts_inner st1) = CURRENT_SCHEMA"
    using step_schema [of D ser "MintCall tb uuid now io nm" st] assms(1,3) by simp
  moreover have "ts_disk st1 = ser (ts_inner st1) \<and> ser (ts_inner st1) \<noteq> None"
    using mint_success_disk [of D ser tb uuid now io nm st] assms(1) by simp
  ultimately show ?thesis
    unfolding file_has_def by (intro conjI exI [of _ "ts_inner st1"] exI [of _ "the (ts_disk st1)"]) auto
qed

lemma reopened:
  assumes "file_has ser i c st" "\<forall>f b. ser f = Some b \<longrightarrow> parse b = Some f" "default_path l a = Some path"
  shows "\<exists>s. open_default parse True (store_files st path disk) l a = Inr s \<and> credentials s i = Some c"
proof -
  from assms(1) obtain f b where f: "ts_disk st = Some b" "ser f = Some b" "tf_schema f = CURRENT_SCHEMA"
    "credentials (st\<lparr>ts_inner := f\<rparr>) i = Some c" by (auto simp: file_has_def)
  with assms(2) have "parse b = Some f" by blast
  with f assms(3) show ?thesis
    by (simp add: open_default_def open_at_def open_store_def store_files_def credentials_def Let_def disk_bytes_def)
qed

lemma config_apart:
  assumes "default_path l a = Some path" "config_path l a = Some q"
  shows "q \<noteq> path" "q \<noteq> tmp_path path"
  using assms by (auto simp: one_state_root path_join_def tmp_path_def)

section \<open>Properties\<close>

lemma run_schema: "tf_schema (ts_inner (store_run D ser cs st)) = tf_schema (ts_inner st)"
  by (induction cs arbitrary: st) (simp_all add: store_run_def step_schema)

lemma opened_schema: "open_default parse True disk l a = Inr st \<Longrightarrow> tf_schema (ts_inner st) = CURRENT_SCHEMA"
  by (auto simp: open_default_def open_at_def open_store_def Let_def split: option.splits)

lemma store_files_other: "q \<noteq> path \<Longrightarrow> q \<noteq> tmp_path path \<Longrightarrow> store_files st path disk q = disk q"
  by (simp add: store_files_def Let_def split: option.split)

lemma load_config_local: "(\<And>q. path = Some q \<Longrightarrow> disk q = disk' q) \<Longrightarrow> load_config from_toml path disk = load_config from_toml path disk'"
  by (simp add: load_config_def split: option.split)

text \<open>
  C24. A restart loses nothing: after a successful registration with a relay and a session in which a
  phone was trusted, and whatever the session's store did afterwards, failed saves included, the next
  start on that disk, in any mode, comes up with the same relay credentials, if the mode uses the relay,
  and accepts the phone's pair under its name, for as long as it runs. (The hypotheses on \<open>to_toml\<close>
  and \<open>ser\<close> are the round trips of the two file formats.)
\<close>

theorem restart_resumes:
  assumes registered: "provision to_toml post (config_path l a) cio base name disk = (Inr cfg, disk1)"
    and toml: "\<And>cfg s. to_toml cfg = Some s \<Longrightarrow> rust_str s \<and> from_toml s = Some cfg"
    and serde: "\<forall>f b. ser f = Some b \<longrightarrow> parse b = Some f"
    and path: "default_path l a = Some path"
    and opened: "open_default parse True disk1 l a = Inr st0"
    and minted: "mint D ser tb uuid now mio nm (store_run D ser cs0 st0) = (Inr (i, t), st1)"
    and fresh: "credentials (store_run D ser cs0 st0) uuid = None"
    and net: "discover_lan_ipv4 ifs = Some addrs" "addrs \<noteq> []"
  shows "\<exists>bp. run_server mode (boot_from parse from_toml l a True tmp_store
        (store_files (store_run D ser cs st1) path disk1) host ifs True) = Inr bp
      \<and> bp_relay bp = (if serves_relay mode then Some cfg else None)
      \<and> fst (verify D ser now' io' i t (store_run D ser cs' (bp_trusted bp))) = TOk nm"
proof -
  let ?disk = "store_files (store_run D ser cs st1) path disk1"
  let ?be = "boot_from parse from_toml l a True tmp_store ?disk host ifs True"
  have "file_has ser i (sha256_hex D (as_bytes t), nm) st1"
    using mint_file_has [OF minted fresh] opened_schema [OF opened] by (simp add: run_schema)
  from reopened [OF file_has_run [OF this] serde path] obtain s where
    s: "open_default parse True ?disk l a = Inr s" "credentials s i = Some (sha256_hex D (as_bytes t), nm)" by blast
  have "load_config from_toml (config_path l a) disk1 = Inr (Some cfg)"
    using provision_then_load [OF registered, of from_toml undefined] toml by simp
  then have "load_config from_toml (config_path l a) ?disk = Inr (Some cfg)"
    using load_config_local [of "config_path l a" ?disk disk1 from_toml] config_apart [OF path] store_files_other by metis
  then have r: "be_relay ?be = Inr (Some cfg)" by (simp add: boot_from_def)
  have t: "open_trusted ?be = Inr s" using s(1) by (simp add: open_trusted_def boot_from_def)
  have q: "be_interfaces ?be = ifs" "be_qr_printed ?be" by (simp_all add: boot_from_def)
  obtain bp where bp: "run_server mode ?be = Inr bp" "bp_trusted bp = s"
    "bp_relay bp = (if serves_relay mode then Some cfg else None)"
    using net r t q by (cases "serves_relay mode") (simp_all add: run_server_def load_relay_def Let_def)
  moreover have "fst (verify D ser now' io' i t (store_run D ser cs' s)) = TOk nm"
    using credentials_persist [OF s(2)] by (simp add: verify_by_credentials)
  ultimately show ?thesis by blast
qed

definition demo_trust :: TrustedDevicesFile where
  "demo_trust = \<lparr>tf_schema = CURRENT_SCHEMA, tf_devices = [\<lparr>td_device_id = ''dev'', td_token_hash = ''3037'',
     td_device_name = ''phone'', td_created_unix_ms = 1, td_last_seen_unix_ms = 1\<rparr>]\<rparr>"

definition demo_ser :: "TrustedDevicesFile \<Rightarrow> bytes option" where
  "demo_ser f = (if f = demo_trust then Some [1] else None)"

definition demo_relay :: RelayConfig where
  "demo_relay = \<lparr> rc_base_url = ''http://a:1'', rc_host_id = ''i'', rc_host_token = ''t'' \<rparr>"

definition demo_toml :: "RelayConfig \<Rightarrow> string option" where
  "demo_toml c = (if c = demo_relay then Some ''x'' else None)"

definition demo_registered :: "(relay_error + RelayConfig) \<times> (string \<Rightarrow> disk_read)" where
  "demo_registered = provision demo_toml (\<lambda>u n. Some (''i'', ''t'')) (config_path (Some ''d'') None)
     \<lparr> cs_mkdir_ok = True, cs_write_ok = True, cs_left = DiskError \<rparr> ''http://a:1/'' ''pc'' (\<lambda>p. DiskNotFound)"

definition demo_minted :: "(store_error + string \<times> string) \<times> TrustedDevicesStore" where
  "demo_minted = mint toy_deps demo_ser [7] ''dev'' 1 \<lparr>io_write = WriteOk, io_rename_ok = True\<rparr> ''phone''
     \<lparr>ts_inner = \<lparr>tf_schema = CURRENT_SCHEMA, tf_devices = []\<rparr>, ts_disk = None, ts_tmp = None\<rparr>"

definition demo_ifs :: "interface list" where
  "demo_ifs = [\<lparr> if_name = ''wlan0'', if_loopback = False, if_ip = V4 (192, 168, 0, 2) \<rparr>]"

lemma demo_trim: "trim_end_char (CHR ''/'') ''http://a:1/'' = ''http://a:1''"
  by (simp add: trim_end_char_def)

lemma demo_registers: "fst demo_registered = Inr demo_relay"
  by (simp add: demo_registered_def provision_def save_config_def config_path_def demo_toml_def demo_relay_def demo_trim Let_def)

lemma demo_elsewhere: "p \<noteq> the (config_path (Some ''d'') None) \<Longrightarrow> snd demo_registered p = DiskNotFound"
  by (simp add: demo_registered_def provision_def save_config_def config_path_def demo_toml_def demo_relay_def demo_trim Let_def)

lemma demo_opens: "open_default (\<lambda>b. Some demo_trust) True (snd demo_registered) (Some ''d'') None =
    Inr \<lparr>ts_inner = \<lparr>tf_schema = CURRENT_SCHEMA, tf_devices = []\<rparr>, ts_disk = None, ts_tmp = None\<rparr>"
proof -
  obtain p where p: "default_path (Some ''d'') None = Some p" by (simp add: default_path_def)
  obtain q where q: "config_path (Some ''d'') None = Some q" by (simp add: config_path_def)
  from p q config_apart [OF p q] demo_elsewhere [of p] demo_elsewhere [of "tmp_path p"] show ?thesis
    by (simp add: open_default_def open_at_def open_store_def default_file_def disk_bytes_def)
qed

lemma demo_mints: "fst demo_minted = Inr (''dev'', ''07'')"
proof -
  have tok: "base64_url_no_pad toy_deps [7] = ''07''" and hash: "sha256_hex toy_deps (as_bytes ''07'') = ''3037''"
    by code_simp+
  show ?thesis by (simp add: demo_minted_def mint_def save_def demo_ser_def demo_trust_def tok hash Let_def)
qed

lemma demo_network: "discover_lan_ipv4 (Some demo_ifs) =
    Some [\<lparr> da_addr = (192, 168, 0, 2), da_iface_name = ''wlan0'', da_kind = classify_interface ''wlan0'' \<rparr>]"
  by (simp add: discover_lan_ipv4_def demo_ifs_def List.map_filter_def candidate_def)

lemma restart_resumes_witness:
  "\<exists>bp. run_server LanAndRelay (boot_from (\<lambda>b. Some demo_trust) (\<lambda>s. Some demo_relay) (Some ''d'') None True
        (Inl MkdirFailed) (store_files (store_run toy_deps demo_ser [VerifyCall 2 \<lparr>io_write = WriteOk, io_rename_ok = True\<rparr> ''dev'' ''07'']
          (snd demo_minted)) (the (default_path (Some ''d'') None)) (snd demo_registered)) None (Some demo_ifs) True) = Inr bp
      \<and> bp_relay bp = Some demo_relay
      \<and> fst (verify toy_deps demo_ser 9 \<lparr>io_write = WriteOk, io_rename_ok = True\<rparr> ''dev'' ''07''
          (store_run toy_deps demo_ser [] (bp_trusted bp))) = TOk ''phone''"
proof -
  let ?st = "\<lparr>ts_inner = \<lparr>tf_schema = CURRENT_SCHEMA, tf_devices = []\<rparr>, ts_disk = None, ts_tmp = None\<rparr>"
  have rust: "rust_str ''x''" by (rule rust_str_ascii) (simp add: is_ascii_def)
  have path: "default_path (Some ''d'') None = Some (the (default_path (Some ''d'') None))" by (simp add: default_path_def)
  have start: "store_run toy_deps demo_ser [] ?st = ?st" by (simp add: store_run_def)
  let ?s = "store_run toy_deps demo_ser [VerifyCall 2 \<lparr>io_write = WriteOk, io_rename_ok = True\<rparr> ''dev'' ''07''] (snd demo_minted)"
  have "\<exists>bp. run_server LanAndRelay (boot_from (\<lambda>b. Some demo_trust) (\<lambda>s. Some demo_relay) (Some ''d'') None True
        (Inl MkdirFailed) (store_files ?s (the (default_path (Some ''d'') None)) (snd demo_registered)) None (Some demo_ifs) True) = Inr bp
      \<and> bp_relay bp = (if serves_relay LanAndRelay then Some demo_relay else None)
      \<and> fst (verify toy_deps demo_ser 9 \<lparr>io_write = WriteOk, io_rename_ok = True\<rparr> ''dev'' ''07''
          (store_run toy_deps demo_ser [] (bp_trusted bp))) = TOk ''phone''"
  proof (rule restart_resumes)
    show "provision demo_toml (\<lambda>u n. Some (''i'', ''t'')) (config_path (Some ''d'') None)
       \<lparr> cs_mkdir_ok = True, cs_write_ok = True, cs_left = DiskError \<rparr> ''http://a:1/'' ''pc'' (\<lambda>p. DiskNotFound)
       = (Inr demo_relay, snd demo_registered)"
      using demo_registers unfolding demo_registered_def by (metis prod.collapse)
    show "mint toy_deps demo_ser [7] ''dev'' 1 \<lparr>io_write = WriteOk, io_rename_ok = True\<rparr> ''phone''
       (store_run toy_deps demo_ser [] ?st) = (Inr (''dev'', ''07''), snd demo_minted)"
      using demo_mints start unfolding demo_minted_def by (metis prod.collapse)
    show "credentials (store_run toy_deps demo_ser [] ?st) ''dev'' = None"
      by (simp add: start credentials_def find_device_def)
    show "rust_str s \<and> Some demo_relay = Some cfg" if "demo_toml cfg = Some s" for cfg s
      using that rust by (simp add: demo_toml_def split: if_splits)
    show "\<forall>f b. demo_ser f = Some b \<longrightarrow> Some demo_trust = Some f"
      by (simp add: demo_ser_def)
  qed (rule path, rule demo_opens, rule demo_network, simp)
  then show ?thesis by simp
qed

end
