(* ===== verification/Spec2Isabelle.thy ===== *)
theory Spec2Isabelle
  imports Prelude Utf8 Codec Protocol Phone Tunnel Slot Pairing File_Send Deps Trusted_Devices
    File_Names File_Transfer File_Sender Stream Connection Run_Connection Relay_Server Relay_System
    Relay_Delivery Relay_Client End_To_End Qr_Server
    Brackets Capture Pixels Mft_Encoder Nvenc_Sdk Media_Loops Net Qr_Payload Desktop_Input Lan_Peer Server
    Journeys Lan_Journeys Wire Watchdog Peers Browser_Page Http_Reply Qr_Card Setup Nvenc_Api Program Build_Script
    State_Files
begin

text \<open>
  RemoteControl: a phone controls a Windows PC. This library models the PC server
  (\<^verbatim>\<open>src/server-pc/src\<close>), the relay between networks (\<^verbatim>\<open>src/relay/src/main.rs\<close>) and
  the parts of the phone (\<^verbatim>\<open>src/app-android\<close>) the two have to agree with, and proves what makes
  them correct.

  \<^bold>\<open>The program.\<close> The PC shows a code with its address, a six-digit pairing code and a key; the phone
  dials the PC directly or through the relay, proves that it has the code (or a token from an earlier
  pairing) and then exchanges JSON messages and binary frames: video and audio from the PC, files in
  both directions, mouse and keyboard events and the clipboard to the PC. A connection of the PC is one
  event loop (\<^verbatim>\<open>run_connection\<close>) whatever carries it: \<^verbatim>\<open>ws_server\<close> feeds it from a LAN
  socket, \<^verbatim>\<open>relay_client\<close> from one tunnel that multiplexes all phones behind the relay. Connections
  share the pairing store, the trust store, the disk and the slot through which the browser page
  (\<^verbatim>\<open>qr_server\<close>) hands files to the current phone.

  \<^bold>\<open>How it is modelled.\<close> One definition per function, handler or arm of a select, with the source's
  names; records for the state, datatypes for enums, sums for \<^verbatim>\<open>Result\<close>, words where a number has
  a width. Whatever the code cannot decide alone (what the disk, a driver, a socket or the clock answers)
  is an argument of the operation or an element of a list of answers, so a theorem about all arguments is
  about all environments. What the code does to the outside is returned as a list of effects or calls in
  order. Tasks that share state are inductive step relations, and the theorems about them hold in every
  reachable state. A Rust string is its bytes (theory Prelude).

  \<^bold>\<open>Theories and sources.\<close>
  \<^item> Prelude, Utf8: machine types, little endian, decimal numbers, prefixes; UTF-8 decoding.
  \<^item> Codec, Slot, Brackets: three interfaces as locales. Codec: a wire format and its inverse, two
    programs that agree on one, families of tagged frames (interpreted in Phone and Tunnel). Slot: a slot
    owned by its last registrant (interpreted on the file-send bridge and on the relay's table of hosts).
    Brackets: operations that acquire and release a resource (interpreted on the capture, on seven
    resources of the NVENC session, and on the clipboard).
  \<^item> Protocol (\<^verbatim>\<open>protocol.rs\<close>, \<^verbatim>\<open>config.rs\<close>), Phone (\<^verbatim>\<open>Protocol.kt\<close>,
    \<^verbatim>\<open>ConnectionClient.kt\<close>): messages and frames on both sides; round trips between them.
  \<^item> Tunnel (\<^verbatim>\<open>main.rs\<close>, \<^verbatim>\<open>relay_client.rs\<close>): the two codecs of tunnel frames.
  \<^item> Pairing, File_Send, Trusted_Devices (the files of these names): the three shared stores. A code
    admits once; the bridge sends to the last session that registered; only minted tokens are trusted, and
    the file on disk is at every moment a complete old or new one.
  \<^item> File_Names, File_Transfer, File_Sender (\<^verbatim>\<open>connection.rs\<close>): uploads and downloads over an
    explicit file system. No upload touches a file that was there; a complete one leaves exactly the
    phone's bytes; a broken one leaves nothing.
  \<^item> Stream (\<^verbatim>\<open>stream.rs\<close>), Connection and Run_Connection (\<^verbatim>\<open>connection.rs\<close>):
    negotiation, handshakes, the event loop and its clean-up: who gets authenticated, what an
    unauthenticated peer can cause, that streams started are stopped, that nothing is left behind.
  \<^item> Capture (\<^verbatim>\<open>capture/dxgi.rs\<close>), Pixels (\<^verbatim>\<open>encoder/common.rs\<close>,
    \<^verbatim>\<open>encoder/resize.rs\<close>), Mft_Encoder (\<^verbatim>\<open>encoder/mf_h264.rs\<close>,
    \<^verbatim>\<open>encoder/nvenc_mft.rs\<close>), Nvenc_Sdk (\<^verbatim>\<open>encoder/nvenc_sdk.rs\<close>), Media_Loops
    (\<^verbatim>\<open>stream.rs\<close>, \<^verbatim>\<open>audio/\<close>): from the screen and the loudspeaker to packets: resources
    are released, colours converted as the reference formula says, samples neither lost nor repeated,
    frames paced.
  \<^item> Relay_Server, Relay_System, Relay_Delivery (\<^verbatim>\<open>relay/src/main.rs\<close>): the relay's handlers,
    its tasks interleaved, and what they deliver: one live session per host, queues within their
    capacities, exact delivery per phone of what must be delivered.
  \<^item> Relay_Client (\<^verbatim>\<open>relay_client.rs\<close>), Lan_Peer (\<^verbatim>\<open>ws_server.rs\<close>): the two carriers of
    a connection. End_To_End, Journeys and this theory: messages and files through all programs; Lan_Journeys:
    the same without the relay. Wire: which
    types of binary messages each producer makes and each reader takes. Watchdog: the idle timer of the
    event loop, over a clock.
  \<^item> Qr_Server (\<^verbatim>\<open>qr_server.rs\<close>), Qr_Payload (\<^verbatim>\<open>qr.rs\<close>, \<^verbatim>\<open>QrPayload.kt\<close>), Net
    (\<^verbatim>\<open>net.rs\<close>), Desktop_Input (\<^verbatim>\<open>input.rs\<close>, \<^verbatim>\<open>clipboard.rs\<close>), Server
    (\<^verbatim>\<open>main.rs\<close>, \<^verbatim>\<open>lib.rs\<close>, \<^verbatim>\<open>paths.rs\<close>, \<^verbatim>\<open>tray.rs\<close>): the page, the code
    and its parser, the advertised addresses, injected events, the start of the process. Browser_Page: the
    upload row of the page's script against the handlers. Http_Reply: the replies as text, read back by
    the parsers and cut anywhere. Qr_Card: the card around the code, the terminal output. Peers: the accept loops, the counter of phones and
    the tray's tooltip.
  \<^item> Setup: the constructors of capture, sound device and Media Foundation encoders as ladders of system
    calls (which call decides, what is left behind when one fails), and which encoder a stream gets.
  \<^item> Nvenc_Api (\<^verbatim>\<open>encoder/nvenc_sys.rs\<close>, \<^verbatim>\<open>encoder/nvenc_sdk.rs\<close>): the version tags and identifiers
    of the driver interface, the loading of its library, error texts, and the library's life around an
    encoder. Program: \<^verbatim>\<open>main\<close> of the server and of the relay, the start of the tray, how the
    relay is dialed. State_Files: the places of the files kept between runs and a restart that reads them
    (\<^verbatim>\<open>paths.rs\<close>, \<^verbatim>\<open>trusted_devices.rs\<close>, \<^verbatim>\<open>relay_client.rs\<close>). Build_Script (\<^verbatim>\<open>build.rs\<close>): the steps of the build and the version resource.

  \<^bold>\<open>Parameters.\<close> serde, SHA-256, HMAC and base64 are the record \<open>deps\<close> (theory Deps); the
  hypotheses about them are that JSON, TOML and base64 read back what they wrote, and they are satisfied
  by \<open>toy_deps\<close> in the witnesses. The image scaler, Opus and Android's \<^verbatim>\<open>Uri\<close> are arguments
  too. Hash collisions are not assumed away: where a token is compared by its hash the theorem says so.

  \<^bold>\<open>Bounds and loops.\<close> No loop has fuel. A loop over answers ends with the list of answers, and its
  result says when the list ended first (\<open>Streaming\<close>, \<open>Uploading\<close>, \<open>AudioBusy\<close>, \<open>None\<close>
  of the drain loops), so that "it ends" is a statement: the file streamer ends after at most one iteration
  per byte, the retries of the capture after \<open>ATTEMPTS\<close>, the search for a free name after 999, the
  LAN bridge after at most \<open>lan_left\<close> steps. Counters that wrap in the code are words here: sequence
  numbers, transfer ids, instance numbers (the theorems on live sessions are stated for fewer than
  \<open>2 ^ 64\<close> connections).

  \<^bold>\<open>Not modelled.\<close> TLS and HTTP upgrades and the WebSocket layer (libraries); the static text, the
  style and the drag-and-drop of the page around its card, and the drawing of the code; logging, tracing
  and statistics (installing the log is one call); the generated NVENC bindings and the fields of their
  structures that are constants (no decisions of the program); the Win32 message loop; the branches for
  other systems than Windows, but for the build script's choice between them and the paths of the state; the example; the phone's
  user interface, decoder and service. Time is modelled where the code reads it: the age of a code, the
  pacing of frames and chunks, the idle timer (an arm is handled at the time it becomes ready), the waits
  between reconnects. Mouse coordinates are floating point and their scaling is an argument. Tasks are
  interleaved at the granularity of one handler or one await.
\<close>

section \<open>Files across the programs\<close>

text \<open>
  C1. A file uploaded through the relay arrives byte for byte: take any reachable state of the relay in
  which the phone is reading and the queue to the PC is drained. After some other messages the phone has
  sent binary messages among which those of one transfer are what its upload loop made of a file. Then
  the PC's multiplexer has put exactly the phone's messages, in order, into the inbox of that session;
  and a connection of the PC that has authenticated and accepted the transfer, and now takes those binary
  messages from its inbox with a working disk, goes on, holds exactly the file's bytes at the destination
  it announced, has forgotten the transfer and has said one thing about it: that it is complete.
\<close>

theorem relay_upload:
  assumes relay: "relay_reach D s" "phones s cid = Some p" "loops s (pl_loop p) = Some l"
    and drained: "hl_rx l" "hl_queue l = []" "pl_stage p = PRead"
    and phone: "pl_in p = before @ map WsBinary bs" "\<forall>m\<in>set before. valid_ws m"
      "upload_loop tid 0 ks = (filter (carries tid) bs, UploadDone)"
    and accepted: "handle_file_begin io tid name fsize tsb fsb = (cn_transfers cn, wd_fs wd, [FileTransferAccepted tid d])"
      "wf_transfers tsb fsb" "meta_sound io fsb" "cn_authenticated cn"
    and disk: "length xs = length bs" "\<forall>x\<in>set xs. disk_fine x"
    and run: "loop_run su pl me (inbox_events xs (map MBinary bs)) cn wd = (go, cn', wd', out)"
  shows "session_view (fold mux_event (map Arrived (pc_reads (hl_wire l))) mux_start) cid
      = Some (heard before @ map MBinary bs)
    \<and> go \<and> wd_fs wd' d = Some (file_read ks) \<and> cn_transfers cn' tid = None
    \<and> (\<exists>msgs. out = map Sent msgs \<and> filter (about tid) msgs = [FileTransferComplete tid d])"
proof -
  have "heard (map WsBinary bs) = map MBinary bs" by (induction bs) (simp_all add: heard_def)
  moreover have "\<forall>m\<in>set (pl_in p). valid_ws m" using phone(1,2) by (auto simp: valid_ws_def)
  ultimately have "session_view (fold mux_event (map Arrived (pc_reads (hl_wire l))) mux_start) cid
      = Some (heard before @ map MBinary bs)"
    using inbox_complete [OF relay _ drained] phone(1) by simp
  moreover have "receiving tid d [] 0 (cn_transfers cn) (wd_fs wd)"
    by (rule begin_receiving [OF accepted(2,3,1)])
  ultimately show ?thesis using upload_into_disk [OF _ accepted(4) phone(3) disk run] by blast
qed

text \<open>An empty file in one message, on a connection that has just accepted it.\<close>

lemma relay_upload_witness:
  "\<exists>s p l ts fs d cn' wd' out. relay_reach toy_deps s \<and> phones s demo_cid = Some p
    \<and> pl_in p = [WsBinary (buildFileChunkFrame 1 0 True [])]
    \<and> handle_file_begin (demo_begin\<lparr>bi_meta_ok := \<lambda>p. False\<rparr>) 1 ''a'' 0 Map.empty Map.empty = (ts, fs, [FileTransferAccepted 1 d])
    \<and> loop_run demo_setup ''relay/a'' 0 (inbox_events [(id, demo_env)] [MBinary (buildFileChunkFrame 1 0 True [])])
        (new_conn\<lparr>cn_authenticated := True, cn_transfers := ts\<rparr>) (demo_world\<lparr>wd_fs := fs\<rparr>) = (True, cn', wd', out)
    \<and> wd_fs wd' d = Some []
    \<and> (\<exists>msgs. out = map Sent msgs \<and> filter (about 1) msgs = [FileTransferComplete 1 d])"
proof -
  let ?b = "buildFileChunkFrame 1 0 True []" and ?io = "demo_begin\<lparr>bi_meta_ok := \<lambda>p. False\<rparr>"
  let ?k = "\<lparr>ut_cancel = False, ut_read = Some [], ut_send_ok = True\<rparr>"
  obtain s p l where r: "relay_reach toy_deps s" "phones s demo_cid = Some p" "loops s (pl_loop p) = Some l"
      and q: "pl_in p = [WsBinary ?b]" "hl_rx l" "hl_queue l = []" "pl_stage p = PRead"
    using demo_item_uploaded [of ?b] by blast
  obtain ts fs d where a: "handle_file_begin ?io 1 ''a'' 0 Map.empty Map.empty = (ts, fs, [FileTransferAccepted 1 d])"
    by (fastforce simp: handle_file_begin_def SIZE_CAP_def demo_begin_def downloads_dir_def Let_def unique_dest_path_def)
  let ?cn = "new_conn\<lparr>cn_authenticated := True, cn_transfers := ts\<rparr>" and ?wd = "demo_world\<lparr>wd_fs := fs\<rparr>"
  obtain go cn' wd' out where run: "loop_run demo_setup ''relay/a'' 0 (inbox_events [(id, demo_env)] (map MBinary [?b])) ?cn ?wd
      = (go, cn', wd', out)" by (metis prod_cases4)
  have b: "carries 1 ?b" "filter (carries 1) [?b] = [?b]"
    by (simp_all add: carries_def is_file_def same_file_frame peek_file parse_build_file_chunk)
  have "go \<and> wd_fs wd' d = Some (file_read [?k])
      \<and> (\<exists>msgs. out = map Sent msgs \<and> filter (about 1) msgs = [FileTransferComplete 1 d])"
    using relay_upload [where before = "[]" and bs = "[?b]" and tid = 1 and ks = "[?k]" and io = ?io and name = "''a''"
        and fsize = 0 and tsb = Map.empty and fsb = Map.empty and d = d, OF r q(2-4) _ _ _ _ _ _ _ _ _ run]
      a q(1) b(2)
    by (simp add: wf_transfers_def meta_sound_def disk_fine_def io_fine_def demo_env_def)
  then have f: "go" "wd_fs wd' d = Some []"
    "\<exists>msgs. out = map Sent msgs \<and> filter (about 1) msgs = [FileTransferComplete 1 d]"
    by (simp_all add: file_read_def)
  with r q(1) a run show ?thesis
    by (intro exI [of _ s] exI [of _ p] exI [of _ l] exI [of _ ts] exI [of _ fs] exI [of _ d] exI [of _ cn']
        exI [of _ wd'] exI [of _ out]) simp
qed

text \<open>
  C2. A file sent from the PC through the relay arrives byte for byte: if the pump of a phone's session
  made the tunnel's frames for it of messages whose file chunks are those the file streamer made of a
  file, and everything for the phone has been delivered, then the phone, handling every binary message
  on its socket (video and audio among them) with working storage, ends with exactly the file's bytes
  at the destination it chose, forgets the transfer and answers one completion.
\<close>

theorem relay_download:
  assumes relay: "relay_reach D s" "phones s cid = Some p" "loops s (pl_loop p) = Some l"
    and pumped: "drop (pl_from p) (hl_in l) = map pc_encode fs" "\<forall>f\<in>set fs. wf_frame f"
      "own cid fs = pump_frames cid ms" "\<forall>m\<in>set ms. valid_text m"
    and drained: "cid \<in> hl_clients l" "pl_rx p" "pl_bulk p = []" "in_flight cid p l = []"
    and streamed: "content \<noteq> []" "length content < 2 ^ 64" "list_all tick_fine ks" "length content \<le> length ks"
      "file_sender tid (word_of_nat (length content)) (Some content) ks = (out, e)"
      "message_files ms = map fst out"
    and phone: "inc tid = Some \<lparr>if_dest = d, if_bytesWritten = 0, if_nextSeq = 0\<rparr>" "pfs d = Some []"
      "list_all recv_fine ios" "length ios = length (socket_binaries (pl_wire p))"
    and run: "phone_run (zip ios (socket_binaries (pl_wire p))) (inc, pfs) = ((inc', pfs'), answers)"
  shows "pfs' d = Some content \<and> inc' tid = None \<and> answers = [FileSendComplete tid d]"
proof -
  have "filter (must_deliver False) (socket_binaries (pl_wire p)) = map fst out"
    using socket_complete [OF relay pumped drained] files_on_socket [of ms] streamed(6) by (simp add: binaries_of_musts)
  from sent_phone_assembles [OF streamed(1-5) phone this run] show ?thesis .
qed

lemma relay_download_witness:
  "\<exists>s p l inc' pfs' answers. relay_reach toy_deps s \<and> phones s demo_cid = Some p \<and> loops s (pl_loop p) = Some l
    \<and> pl_wire p = [WsBinary (build_file_chunk_frame 4 0 True [7])]
    \<and> phone_run [(\<lparr>rv_write_ok = True, rv_close_ok = True\<rparr>, build_file_chunk_frame 4 0 True [7])]
          ([4 \<mapsto> \<lparr>if_dest = ''d'', if_bytesWritten = 0, if_nextSeq = 0\<rparr>], [''d'' \<mapsto> []]) = ((inc', pfs'), answers)
    \<and> pfs' ''d'' = Some [7] \<and> inc' 4 = None \<and> answers = [FileSendComplete 4 ''d'']"
proof -
  let ?b = "build_file_chunk_frame 4 0 True [7]" and ?io = "\<lparr>rv_write_ok = True, rv_close_ok = True\<rparr>"
  let ?inc = "[4 \<mapsto> \<lparr>if_dest = ''d'', if_bytesWritten = 0, if_nextSeq = 0\<rparr>]" and ?f = "Data demo_cid False ?b"
  have must: "must_deliver False ?b" by (simp add: must_deliver_def build_file_chunk_frame_def FRAME_TYPE_FILE_def frame_FILE_def)
  obtain s p l where r: "relay_reach toy_deps s" "phones s demo_cid = Some p" "loops s (pl_loop p) = Some l"
      and w: "pl_wire p = [WsBinary ?b]" and q: "demo_cid \<in> hl_clients l" "pl_rx p" "pl_bulk p = []" "in_flight demo_cid p l = []"
      and i: "drop (pl_from p) (hl_in l) = [pc_encode ?f]"
    using demo_item_delivered [OF must send_to_phone_binary] by blast
  have s: "file_sender 4 (word_of_nat (length [7 :: u8])) (Some [7]) [fine_tick] = ([(?b, 0)], SenderDone)"
    by (simp add: file_sender_def fine_tick_def CHUNK_BYTES_def Let_def)
  obtain inc' pfs' answers where run: "phone_run (zip [?io] (socket_binaries (pl_wire p))) (?inc, [''d'' \<mapsto> []]) = ((inc', pfs'), answers)"
    by (metis prod.exhaust)
  have "pfs' ''d'' = Some [7] \<and> inc' 4 = None \<and> answers = [FileSendComplete 4 ''d'']"
    by (rule relay_download [where fs = "[?f]" and ms = "[MBinary ?b]", OF r _ _ _ _ q _ _ _ _ s _ _ _ _ _ run])
      (use must i w in \<open>simp_all add: wf_frame_def demo_cid_def uuid_ok_replicate own_def pump_frames_def pump_one_def
        valid_text_def tick_fine_def fine_tick_def message_files_def recv_fine_def del: pc_encode.simps\<close>)
  with r w run show ?thesis
    by (intro exI [of _ s] exI [of _ p] exI [of _ l] exI [of _ inc'] exI [of _ pfs'] exI [of _ answers]) simp
qed

end
